(* ===== verification/Prelude.thy ===== *)
theory Prelude
  imports Main "HOL-Library.Word" "HOL-Library.Monad_Syntax"
begin

text \<open>
  Shared vocabulary of the development: the machine integers of the Rust sources, the pieces of
  the Rust standard library that several components use (\<^verbatim>\<open>Option::or\<close>,
  \<^verbatim>\<open>Iterator::find_map\<close>, slice indexing, \<^verbatim>\<open>checked_add\<close>,
  \<^verbatim>\<open>saturating_add\<close>, the \<^verbatim>\<open>entry\<close> interface of maps), and the lemmas
  about them that the component theories rely on.
\<close>

unbundle bit_operations_syntax

named_theorems rust_std \<open>definitions of the Rust standard library operations used by the model\<close>

type_synonym u8 = "8 word"
type_synonym u16 = "16 word"
type_synonym u32 = "32 word"
type_synonym u64 = "64 word"
type_synonym u128 = "128 word"

text \<open>A Rust \<^verbatim>\<open>str\<close> is its sequence of UTF-8 bytes; a \<^typ>\<open>char\<close> is one byte.\<close>

type_synonym str = string

section \<open>Option and iterator combinators\<close>

definition opt_or :: "'a option \<Rightarrow> 'a option \<Rightarrow> 'a option" where
  "opt_or a b = (case a of Some x \<Rightarrow> Some x | None \<Rightarrow> b)"

lemma opt_or_simps [simp]:
  "opt_or None b = b" "opt_or (Some x) b = Some x" "opt_or a None = a"
  by (auto simp: opt_or_def split: option.splits)

lemma opt_or_assoc: "opt_or (opt_or a b) c = opt_or a (opt_or b c)"
  by (cases a) auto

fun find_map :: "('a \<Rightarrow> 'b option) \<Rightarrow> 'a list \<Rightarrow> 'b option" where
  "find_map f [] = None"
| "find_map f (x # xs) = opt_or (f x) (find_map f xs)"

lemma find_map_None_iff: "find_map f xs = None \<longleftrightarrow> (\<forall>x\<in>set xs. f x = None)"
  by (induction xs) (auto simp: opt_or_def split: option.splits)

lemma find_map_append: "find_map f (xs @ ys) = opt_or (find_map f xs) (find_map f ys)"
  by (induction xs) (auto simp: opt_or_def split: option.splits)

lemma find_map_map: "find_map f (map g xs) = find_map (\<lambda>x. f (g x)) xs"
  by (induction xs) auto

lemma find_map_cong [fundef_cong]:
  "xs = ys \<Longrightarrow> (\<And>x. x \<in> set ys \<Longrightarrow> f x = g x) \<Longrightarrow> find_map f xs = find_map g ys"
  by (induction xs arbitrary: ys) auto

text \<open>Elements for which the function is undefined do not matter to the search.\<close>

lemma find_map_filter:
  "(\<And>x. x \<in> set xs \<Longrightarrow> \<not> P x \<Longrightarrow> f x = None) \<Longrightarrow> find_map f (filter P xs) = find_map f xs"
  by (induction xs) auto

text \<open>
  Two strictly descending lists give the same search result if they differ only in elements for
  which the function is undefined.
\<close>

lemma find_map_rev_sorted:
  fixes xs ys :: "'a::linorder list"
  assumes "sorted_wrt (<) xs" "sorted_wrt (<) ys"
    and "\<And>x. x \<in> set xs \<Longrightarrow> x \<notin> set ys \<Longrightarrow> f x = None"
    and "\<And>y. y \<in> set ys \<Longrightarrow> y \<notin> set xs \<Longrightarrow> f y = None"
  shows "find_map f (rev xs) = find_map f (rev ys)"
proof -
  have "filter (\<lambda>x. x \<in> set ys) xs = filter (\<lambda>y. y \<in> set xs) ys"
    using assms(1,2) by (intro strict_sorted_equal) (auto simp: sorted_wrt_filter)
  moreover have "find_map f (rev xs) = find_map f (rev (filter (\<lambda>x. x \<in> set ys) xs))"
    unfolding rev_filter using assms(3) by (intro find_map_filter [symmetric]) auto
  moreover have "find_map f (rev ys) = find_map f (rev (filter (\<lambda>y. y \<in> set xs) ys))"
    unfolding rev_filter using assms(4) by (intro find_map_filter [symmetric]) auto
  ultimately show ?thesis by simp
qed

text \<open>\<^verbatim>\<open>slice.get(i)\<close>.\<close>

definition slice_get :: "'a list \<Rightarrow> nat \<Rightarrow> 'a option" where
  "slice_get xs i = (if i < length xs then Some (xs ! i) else None)"

lemma slice_get_Some_iff [simp]: "slice_get xs i = Some x \<longleftrightarrow> i < length xs \<and> xs ! i = x"
  by (auto simp: slice_get_def)

lemma slice_get_None_iff [simp]: "slice_get xs i = None \<longleftrightarrow> length xs \<le> i"
  by (auto simp: slice_get_def)

lemma slice_get_in_set: "slice_get xs i = Some x \<Longrightarrow> x \<in> set xs"
  by (auto simp: slice_get_def split: if_splits)

text \<open>\<^verbatim>\<open>Iterator::max\<close> (on a total order the tie break is not observable).\<close>

definition iter_max :: "'a::linorder list \<Rightarrow> 'a option" where
  "iter_max xs = (case xs of [] \<Rightarrow> None | y # ys \<Rightarrow> Some (fold max ys y))"

lemma fold_max_Max: "fold max ys (y :: 'a::linorder) = Max (set (y # ys))"
  by (metis List.finite_set Max.set_eq_fold)

lemma iter_max_eq: "iter_max xs = (if xs = [] then None else Some (Max (set xs)))"
  by (cases xs) (simp_all add: iter_max_def fold_max_Max)

text \<open>
  \<^verbatim>\<open>Iterator::take_while\<close> with a closure that carries state: the elements before the
  first one the closure refuses, and the closure's final state.
\<close>

fun take_while_state :: "('s \<Rightarrow> 'a \<Rightarrow> bool \<times> 's) \<Rightarrow> 's \<Rightarrow> 'a list \<Rightarrow> 'a list \<times> 's" where
  "take_while_state f s [] = ([], s)"
| "take_while_state f s (x # xs) =
     (let (keep, s') = f s x in
      if keep then (let (ys, t) = take_while_state f s' xs in (x # ys, t)) else ([], s'))"

section \<open>Maps with the entry interface\<close>

text \<open>
  A hash map is an association list with distinct keys; nothing that the sources do with one
  depends on its iteration order. \<open>entry_update d f k m\<close> is
  \<^verbatim>\<open>m.entry(k).or_default()\<close> followed by the in-place update \<open>f\<close> of the value,
  where \<open>d\<close> is the default.
\<close>

fun entry_update :: "'v \<Rightarrow> ('v \<Rightarrow> 'v) \<Rightarrow> 'k \<Rightarrow> ('k \<times> 'v) list \<Rightarrow> ('k \<times> 'v) list" where
  "entry_update d f k [] = [(k, f d)]"
| "entry_update d f k ((k', v) # m) =
     (if k = k' then (k', f v) # m else (k', v) # entry_update d f k m)"

lemma map_of_entry_update:
  "map_of (entry_update d f k m) =
     (map_of m)(k \<mapsto> f (case map_of m k of None \<Rightarrow> d | Some v \<Rightarrow> v))"
  by (induction m) (auto simp: fun_eq_iff)

lemma keys_entry_update: "fst ` set (entry_update d f k m) = insert k (fst ` set m)"
proof (induction m)
  case (Cons p m)
  then show ?case by (cases p) (simp add: insert_commute)
qed simp

lemma distinct_entry_update:
  "distinct (map fst m) \<Longrightarrow> distinct (map fst (entry_update d f k m))"
proof (induction m)
  case (Cons p m)
  then show ?case by (cases p) (simp add: keys_entry_update)
qed simp

text \<open>\<^verbatim>\<open>m.entry(k).and_modify(f).or_insert(v)\<close>\<close>

fun entry_modify_or_insert :: "('v \<Rightarrow> 'v) \<Rightarrow> 'v \<Rightarrow> 'k \<Rightarrow> ('k \<times> 'v) list \<Rightarrow> ('k \<times> 'v) list" where
  "entry_modify_or_insert f d k [] = [(k, d)]"
| "entry_modify_or_insert f d k ((k', v) # m) =
     (if k = k' then (k', f v) # m else (k', v) # entry_modify_or_insert f d k m)"

lemma keys_entry_modify: "fst ` set (entry_modify_or_insert f d k m) = insert k (fst ` set m)"
proof (induction m)
  case (Cons p m)
  then show ?case by (cases p) (simp add: insert_commute)
qed simp

lemma distinct_entry_modify:
  "distinct (map fst m) \<Longrightarrow> distinct (map fst (entry_modify_or_insert f d k m))"
proof (induction m)
  case (Cons p m)
  then show ?case by (cases p) (simp add: keys_entry_modify)
qed simp

lemma entry_modify_elem:
  "(k', v') \<in> set (entry_modify_or_insert f d k m) \<Longrightarrow>
     (k', v') \<in> set m \<or> (k' = k \<and> (v' = d \<or> (\<exists>v. (k, v) \<in> set m \<and> v' = f v)))"
  by (induction m) (auto split: if_splits)

text \<open>\<^verbatim>\<open>iter_mut().find(p)\<close> followed by an update of the element found, with a result.\<close>

fun find_update :: "('a \<Rightarrow> bool) \<Rightarrow> ('a \<Rightarrow> 'r \<times> 'a) \<Rightarrow> 'a list \<Rightarrow> ('r \<times> 'a list) option" where
  "find_update P f [] = None"
| "find_update P f (x # xs) =
     (if P x then (let (r, x') = f x in Some (r, x' # xs))
      else map_option (\<lambda>(r, ys). (r, x # ys)) (find_update P f xs))"

lemma find_update_Some:
  "find_update P f xs = Some (r, ys) \<Longrightarrow>
     \<exists>us x vs x'. xs = us @ x # vs \<and> P x \<and> (\<forall>u\<in>set us. \<not> P u) \<and> f x = (r, x') \<and> ys = us @ x' # vs"
proof (induction xs arbitrary: ys)
  case (Cons x xs)
  show ?case
  proof (cases "P x")
    case True
    then show ?thesis using Cons.prems by (fastforce split: prod.splits)
  next
    case False
    then obtain zs where zs: "find_update P f xs = Some (r, zs)" "ys = x # zs"
      using Cons.prems by auto
    obtain us y vs y' where "xs = us @ y # vs" "P y" "\<forall>u\<in>set us. \<not> P u" "f y = (r, y')" "zs = us @ y' # vs"
      using Cons.IH [OF zs(1)] by blast
    then show ?thesis
      using False zs(2) by (intro exI [of _ "x # us"] exI [of _ y] exI [of _ vs] exI [of _ y']) auto
  qed
qed simp

lemma find_update_None_iff: "find_update P f xs = None \<longleftrightarrow> (\<forall>x\<in>set xs. \<not> P x)"
  by (induction xs) (auto simp: Let_def case_prod_beta)

text \<open>A \<^verbatim>\<open>BTreeMap\<close> is an association list sorted by key.\<close>

fun btree_update :: "'v \<Rightarrow> ('v \<Rightarrow> 'v) \<Rightarrow> 'k::linorder \<Rightarrow> ('k \<times> 'v) list \<Rightarrow> ('k \<times> 'v) list" where
  "btree_update d f k [] = [(k, f d)]"
| "btree_update d f k ((k', v) # m) =
     (if k < k' then (k, f d) # (k', v) # m
      else if k = k' then (k', f v) # m
      else (k', v) # btree_update d f k m)"

abbreviation btree_ok :: "('k::linorder \<times> 'v) list \<Rightarrow> bool" where
  "btree_ok m \<equiv> sorted_wrt (<) (map fst m)"

lemma keys_btree_update: "fst ` set (btree_update d f k m) = insert k (fst ` set m)"
proof (induction m)
  case (Cons p m)
  then show ?case by (cases p) (simp add: insert_commute)
qed simp

lemma btree_ok_update: "btree_ok m \<Longrightarrow> btree_ok (btree_update d f k m)"
proof (induction m)
  case (Cons p m)
  then show ?case
    using keys_btree_update [of d f k m] by (cases p) (auto 4 3 simp: image_iff)
qed simp

lemma map_of_btree_update:
  "btree_ok m \<Longrightarrow> map_of (btree_update d f k m) =
     (map_of m)(k \<mapsto> f (case map_of m k of None \<Rightarrow> d | Some v \<Rightarrow> v))"
proof (induction m)
  case (Cons p m)
  obtain k' v where p: "p = (k', v)" by (cases p)
  have None: "map_of m k = None" if "k < k'"
    using Cons.prems that p by (auto simp: map_of_eq_None_iff)
  show ?case
    using Cons None p by (auto simp: fun_eq_iff)
qed (simp add: fun_eq_iff)

section \<open>Checked and saturating arithmetic\<close>

lemma unat_u32_less: "unat (w :: u32) < 2 ^ 32"
proof -
  have "unat w < 2 ^ LENGTH(32)" by (rule unsigned_less)
  then show ?thesis by simp
qed

lemma unat_u64_less: "unat (w :: u64) < 2 ^ 64"
proof -
  have "unat w < 2 ^ LENGTH(64)" by (rule unsigned_less)
  then show ?thesis by simp
qed

lemma unat_of_nat_u64: "n < 2 ^ 64 \<Longrightarrow> unat (of_nat n :: u64) = n"
  and unat_of_nat_u32: "n < 2 ^ 32 \<Longrightarrow> unat (of_nat n :: u32) = n"
  by (simp_all add: unsigned_of_nat take_bit_nat_eq_self)

definition checked_add_u32 :: "u32 \<Rightarrow> u32 \<Rightarrow> u32 option" where
  [rust_std]: "checked_add_u32 a b = (if unat a + unat b < 2 ^ 32 then Some (a + b) else None)"

lemma checked_add_u32_Some:
  "checked_add_u32 a b = Some c \<longleftrightarrow> unat a + unat b < 2 ^ 32 \<and> unat c = unat a + unat b"
  by (auto simp: checked_add_u32_def unat_word_ariths word_unat_eq_iff split: if_splits)

text \<open>A signed 32-bit value is an \<^typ>\<open>int\<close> in the range of \<^verbatim>\<open>i32\<close>.\<close>

definition i32_MAX :: int where "i32_MAX = 2 ^ 31 - 1"
definition i32_MIN :: int where "i32_MIN = - (2 ^ 31)"

definition i32_saturating_add :: "int \<Rightarrow> int \<Rightarrow> int" where
  [rust_std]: "i32_saturating_add a b = max i32_MIN (min i32_MAX (a + b))"

text \<open>\<^verbatim>\<open>i32::try_from(x).unwrap_or(i32::MAX)\<close> of a \<^verbatim>\<open>u32\<close>.\<close>

definition i32_of_u32_or_max :: "u32 \<Rightarrow> int" where
  [rust_std]: "i32_of_u32_or_max w = min (uint w) i32_MAX"

lemma i32_saturating_add_exact:
  "i32_MIN \<le> a + b \<Longrightarrow> a + b \<le> i32_MAX \<Longrightarrow> i32_saturating_add a b = a + b"
  by (simp add: i32_saturating_add_def)

lemma i32_saturating_add_range:
  "i32_MIN \<le> i32_saturating_add a b \<and> i32_saturating_add a b \<le> i32_MAX"
  by (auto simp: i32_saturating_add_def i32_MIN_def i32_MAX_def)

text \<open>
  The four load balancers that keep only the endpoints whose total weight fits 32 bits all use
  this closure: add the weight to a running total, stop at the first overflow.
\<close>

definition fits_u32 :: "('a \<Rightarrow> u32) \<Rightarrow> u32 \<Rightarrow> 'a \<Rightarrow> bool \<times> u32" where
  "fits_u32 weight acc x =
     (case checked_add_u32 acc (weight x) of Some t \<Rightarrow> (True, t) | None \<Rightarrow> (False, acc))"

lemma fits_u32_None: "checked_add_u32 acc (weight x) = None \<Longrightarrow> fits_u32 weight acc x = (False, acc)"
  and fits_u32_Some: "checked_add_u32 acc (weight x) = Some t \<Longrightarrow> fits_u32 weight acc x = (True, t)"
  by (simp_all add: fits_u32_def)

abbreviation total_weight_of :: "('a \<Rightarrow> u32) \<Rightarrow> 'a list \<Rightarrow> nat" where
  "total_weight_of weight xs \<equiv> sum_list (map (\<lambda>x. unat (weight x)) xs)"

text \<open>It keeps the longest prefix whose total fits, and the total is exact.\<close>

lemma take_while_fits:
  assumes "take_while_state (fits_u32 weight) t xs = (ys, t')"
  shows "ys = take (length ys) xs" "unat t' = unat t + total_weight_of weight ys"
    "length ys < length xs \<Longrightarrow>
       2 ^ 32 \<le> unat t + total_weight_of weight (take (Suc (length ys)) xs)"
proof -
  have "ys = take (length ys) xs \<and> unat t' = unat t + total_weight_of weight ys \<and>
    (length ys < length xs \<longrightarrow> 2 ^ 32 \<le> unat t + total_weight_of weight (take (Suc (length ys)) xs))"
    using assms
  proof (induction xs arbitrary: t ys)
    case (Cons x xs)
    show ?case
    proof (cases "checked_add_u32 t (weight x)")
      case None
      then show ?thesis
        using Cons.prems fits_u32_None [of t weight x, OF None]
        by (auto simp: checked_add_u32_def split: if_splits)
    next
      case (Some u)
      then obtain zs where "take_while_state (fits_u32 weight) u xs = (zs, t')" "ys = x # zs"
        using Cons.prems fits_u32_Some [of t weight x, OF Some] by (auto split: prod.splits)
      then show ?thesis
        using Cons.IH [of u zs] Some by (auto simp: checked_add_u32_Some)
    qed
  qed simp
  then show "ys = take (length ys) xs" "unat t' = unat t + total_weight_of weight ys"
    "length ys < length xs \<Longrightarrow>
       2 ^ 32 \<le> unat t + total_weight_of weight (take (Suc (length ys)) xs)"
    by auto
qed

lemma take_while_fits_all:
  assumes "unat t + total_weight_of weight xs < 2 ^ 32"
  shows "\<exists>t'. take_while_state (fits_u32 weight) t xs = (xs, t') \<and>
    unat t' = unat t + total_weight_of weight xs"
  using assms
proof (induction xs arbitrary: t)
  case (Cons x xs)
  then obtain u where "checked_add_u32 t (weight x) = Some u" "unat u = unat t + unat (weight x)"
    by (cases "checked_add_u32 t (weight x)")
       (auto simp: checked_add_u32_Some, simp add: checked_add_u32_def)
  then show ?case
    using Cons.IH [of u] Cons.prems fits_u32_Some [of t weight x] by auto
qed simp

section \<open>Durations\<close>

text \<open>A \<^verbatim>\<open>Duration\<close> is its number of nanoseconds; the operators panic on overflow and on a
  division by zero.\<close>

type_synonym duration = nat

definition duration_MAX :: duration where
  "duration_MAX = 2 ^ 64 * 10 ^ 9 - 1"

definition duration_add :: "duration \<Rightarrow> duration \<Rightarrow> duration option" where
  [rust_std]: "duration_add a b = (if a + b \<le> duration_MAX then Some (a + b) else None)"

definition duration_mul :: "duration \<Rightarrow> u32 \<Rightarrow> duration option" where
  [rust_std]: "duration_mul d n = (if d * unat n \<le> duration_MAX then Some (d * unat n) else None)"

definition duration_div :: "duration \<Rightarrow> u32 \<Rightarrow> duration option" where
  [rust_std]: "duration_div d n = (if n = 0 then None else Some (d div unat n))"

end
