(* ===== verification/Filter_Chain.thy ===== *)
theory Filter_Chain
  imports Prelude
begin

text \<open>
  Selection of the filter chain of an incoming connection. The first part models the match rules of
  \<^verbatim>\<open>arion-configuration/src/config/listener.rs\<close> with their scores; the second the
  five-level decision tree that \<^verbatim>\<open>arion-lib/src/listeners/filterchain_matcher.rs\<close>
  compiles from them; the third the linear scan that the same file keeps as the reference
  semantics. The main result is that tree and scan agree on every connection.

  The crate \<^verbatim>\<open>ipnet\<close> is a parameter of the model: a record of the operations the
  sources call, with \<open>ipnet_laws\<close> for what its documentation promises.
\<close>

section \<open>Addresses, networks and match rules\<close>

datatype IpAddr = V4Addr u32 | V6Addr u128

datatype ('n4, 'n6) IpNet = V4Net 'n4 | V6Net 'n6

record ('n4, 'n6) ipnet_api =
  net_trunc :: "('n4, 'n6) IpNet \<Rightarrow> ('n4, 'n6) IpNet"
  net_contains :: "('n4, 'n6) IpNet \<Rightarrow> IpAddr \<Rightarrow> bool"
  net_prefix_len :: "('n4, 'n6) IpNet \<Rightarrow> u8"
  v4_prefix_len :: "'n4 \<Rightarrow> u8"
  v4_network :: "'n4 \<Rightarrow> u32"
  v6_prefix_len :: "'n6 \<Rightarrow> u8"
  v6_network :: "'n6 \<Rightarrow> u128"

record SocketAddr =
  sa_ip :: IpAddr
  sa_port :: u16

record ServerNameMatch =
  snm_name :: str
  snm_match_subdomains :: bool

record ('n4, 'n6) FilterChainMatch =
  destination_port :: "u16 option"
  destination_prefix_ranges :: "('n4, 'n6) IpNet list"
  server_names :: "ServerNameMatch list"
  source_prefix_ranges :: "('n4, 'n6) IpNet list"
  source_ports :: "u16 list"

text \<open>
  \<^verbatim>\<open>ServerNameMatch::from_str\<close>; Unicode lower-casing of \<^verbatim>\<open>str\<close> is the
  argument \<open>to_lowercase\<close>, \<open>None\<close> is the error about internal wildcards.
\<close>

definition ServerNameMatch_from_str :: "(str \<Rightarrow> str) \<Rightarrow> str \<Rightarrow> ServerNameMatch option" where
  "ServerNameMatch_from_str to_lowercase s =
     (let (match_subdomains, s') =
        (case s of
           c # rest \<Rightarrow>
             (if c = CHR ''*'' \<and> rest \<noteq> [] \<and> hd rest = CHR ''.'' then (True, rest) else (False, s))
         | [] \<Rightarrow> (False, s))
      in if CHR ''*'' \<in> set s' then None
         else Some \<lparr>snm_name = to_lowercase s', snm_match_subdomains = match_subdomains\<rparr>)"

datatype MatchResult = FailedMatch | NoRule | Matched nat

text \<open>The order of \<^verbatim>\<open>impl Ord for MatchResult\<close>: a lower score is a better match.\<close>

fun MatchResult_le :: "MatchResult \<Rightarrow> MatchResult \<Rightarrow> bool" where
  "MatchResult_le (Matched x) (Matched y) = (y \<le> x)"
| "MatchResult_le FailedMatch _ = True"
| "MatchResult_le NoRule FailedMatch = False"
| "MatchResult_le NoRule _ = True"
| "MatchResult_le (Matched _) _ = False"

instantiation MatchResult :: linorder
begin

definition less_eq_MatchResult :: "MatchResult \<Rightarrow> MatchResult \<Rightarrow> bool" where
  "a \<le> b \<longleftrightarrow> MatchResult_le a b"

definition less_MatchResult :: "MatchResult \<Rightarrow> MatchResult \<Rightarrow> bool" where
  "a < b \<longleftrightarrow> a \<le> b \<and> \<not> b \<le> (a :: MatchResult)"

instance
proof
  fix x y z :: MatchResult
  show "x < y \<longleftrightarrow> x \<le> y \<and> \<not> y \<le> x" by (simp add: less_MatchResult_def)
  show "x \<le> x" by (cases x) (auto simp: less_eq_MatchResult_def)
  show "x \<le> y \<Longrightarrow> y \<le> z \<Longrightarrow> x \<le> z" by (cases x; cases y; cases z) (auto simp: less_eq_MatchResult_def)
  show "x \<le> y \<Longrightarrow> y \<le> x \<Longrightarrow> x = y" by (cases x; cases y) (auto simp: less_eq_MatchResult_def)
  show "x \<le> y \<or> y \<le> x" by (cases x; cases y) (auto simp: less_eq_MatchResult_def)
qed

end

lemma MatchResult_le_simps [simp]:
  "Matched m \<le> Matched n \<longleftrightarrow> n \<le> m" "FailedMatch \<le> r" "\<not> NoRule \<le> FailedMatch" "NoRule \<le> NoRule"
  "NoRule \<le> Matched n" "\<not> Matched m \<le> FailedMatch" "\<not> Matched m \<le> NoRule"
  by (simp_all add: less_eq_MatchResult_def)

definition matches_destination_port :: "('n4, 'n6) FilterChainMatch \<Rightarrow> u16 \<Rightarrow> MatchResult" where
  "matches_destination_port m port =
     (case destination_port m of
        Some destination \<Rightarrow> if port = destination then Matched 0 else FailedMatch
      | None \<Rightarrow> NoRule)"

definition range_score :: "('n4, 'n6) ipnet_api \<Rightarrow> IpAddr \<Rightarrow> ('n4, 'n6) IpNet \<Rightarrow> MatchResult" where
  "range_score api ip r =
     (if net_contains api r ip
      then Matched ((case ip of V4Addr _ \<Rightarrow> 32 | V6Addr _ \<Rightarrow> 128) - unat (net_prefix_len api r))
      else FailedMatch)"

definition matches_destination_ip ::
  "('n4, 'n6) ipnet_api \<Rightarrow> ('n4, 'n6) FilterChainMatch \<Rightarrow> IpAddr \<Rightarrow> MatchResult" where
  "matches_destination_ip api m ip =
     (case iter_max (map (range_score api ip) (destination_prefix_ranges m)) of
        Some r \<Rightarrow> r | None \<Rightarrow> NoRule)"

definition ends_with :: "str \<Rightarrow> str \<Rightarrow> bool" where
  "ends_with s suffix \<longleftrightarrow>
     length suffix \<le> length s \<and> drop (length s - length suffix) s = suffix"

definition dots :: "str \<Rightarrow> nat" where
  "dots s = length (filter (\<lambda>b. b = CHR ''.'') s)"

definition server_name_score :: "str \<Rightarrow> ServerNameMatch \<Rightarrow> MatchResult" where
  "server_name_score server_name name_match =
     (if snm_match_subdomains name_match then
        if ends_with server_name (snm_name name_match) then
          (let prefix_len = length server_name - length (snm_name name_match);
               counted = (if prefix_len < length server_name then take (prefix_len + 1) server_name
                          else server_name);
               score = (if dots counted < 2 ^ 32 then dots counted else 0)
           in Matched score)
        else FailedMatch
      else if server_name = snm_name name_match then Matched 0
      else FailedMatch)"

definition matches_server_name :: "('n4, 'n6) FilterChainMatch \<Rightarrow> str \<Rightarrow> MatchResult" where
  "matches_server_name m server_name =
     (case iter_max (map (server_name_score server_name) (server_names m)) of
        Some r \<Rightarrow> r | None \<Rightarrow> NoRule)"

definition matches_source_port :: "('n4, 'n6) FilterChainMatch \<Rightarrow> u16 \<Rightarrow> MatchResult" where
  "matches_source_port m port =
     (if source_ports m = [] then NoRule
      else if port \<in> set (source_ports m) then Matched 0 else FailedMatch)"

definition matches_source_ip ::
  "('n4, 'n6) ipnet_api \<Rightarrow> ('n4, 'n6) FilterChainMatch \<Rightarrow> IpAddr \<Rightarrow> MatchResult" where
  "matches_source_ip api m ip =
     (case iter_max (map (range_score api ip) (source_prefix_ranges m)) of
        Some r \<Rightarrow> r | None \<Rightarrow> NoRule)"

section \<open>The compiled decision tree\<close>

type_synonym ('n4, 'n6) Candidate = "nat \<times> ('n4, 'n6) FilterChainMatch"

definition push_unique_candidate :: "(nat \<times> 'm) \<Rightarrow> (nat \<times> 'm) list \<Rightarrow> (nat \<times> 'm) list" where
  "push_unique_candidate candidate grp =
     (if grp \<noteq> [] \<and> fst (last grp) = fst candidate then grp else grp @ [candidate])"

definition build_group_map ::
  "('k \<times> (nat \<times> 'm) list) list \<Rightarrow> ((nat \<times> 'm) list \<Rightarrow> 'next option) \<Rightarrow> ('k \<times> 'next) list" where
  "build_group_map groups build_next =
     List.map_filter (\<lambda>(key, grp). map_option (Pair key) (build_next grp)) groups"

datatype MatchLeaf = Single nat | Multiple

definition MatchLeaf_from_candidates :: "(nat \<times> 'm) list \<Rightarrow> MatchLeaf option" where
  "MatchLeaf_from_candidates candidates =
     (case candidates of [] \<Rightarrow> None | [(idx, _)] \<Rightarrow> Some (Single idx) | _ \<Rightarrow> Some Multiple)"

text \<open>Level 5: source port.\<close>

datatype SourcePortMatcher =
    SourcePortWildcardOnly MatchLeaf
  | SourcePortWithExact "(u16 \<times> MatchLeaf) list" "MatchLeaf option"

definition SourcePortMatcher_build :: "('n4, 'n6) Candidate list \<Rightarrow> SourcePortMatcher option" where
  "SourcePortMatcher_build candidates =
     (if candidates = [] then None
      else if \<not> list_ex (\<lambda>(_, m). source_ports m \<noteq> []) candidates
      then map_option SourcePortWildcardOnly (MatchLeaf_from_candidates candidates)
      else
        let (port_groups, wildcard_candidates) =
          fold (\<lambda>candidate (groups, wildcard).
                  if source_ports (snd candidate) = [] then (groups, wildcard @ [candidate])
                  else (fold (\<lambda>port. entry_update [] (push_unique_candidate candidate) port)
                          (source_ports (snd candidate)) groups, wildcard))
            candidates ([], [])
        in Some (SourcePortWithExact
                   (build_group_map port_groups MatchLeaf_from_candidates)
                   (MatchLeaf_from_candidates wildcard_candidates)))"

fun SourcePortMatcher_select_next :: "SourcePortMatcher \<Rightarrow> u16 \<Rightarrow> MatchLeaf option" where
  "SourcePortMatcher_select_next (SourcePortWildcardOnly leaf) src_port = Some leaf"
| "SourcePortMatcher_select_next (SourcePortWithExact exact wildcard) src_port =
     opt_or (map_of exact src_port) wildcard"

text \<open>Levels 2 and 4: longest prefix match.\<close>

record 'next Ipv4PrefixLevel =
  v4_mask :: u32
  v4_prefixes :: "(u32 \<times> 'next) list"

record 'next Ipv6PrefixLevel =
  v6_mask :: u128
  v6_prefixes :: "(u128 \<times> 'next) list"

datatype 'next IpMatcher =
    IpWildcardOnly 'next
  | IpWithPrefixes "'next Ipv4PrefixLevel list" "'next Ipv6PrefixLevel list" "'next option"

definition ipv4_mask :: "u8 \<Rightarrow> u32" where
  "ipv4_mask prefix_len = (if prefix_len = 0 then 0 else push_bit (32 - unat prefix_len) (-1))"

definition ipv6_mask :: "u8 \<Rightarrow> u128" where
  "ipv6_mask prefix_len = (if prefix_len = 0 then 0 else push_bit (128 - unat prefix_len) (-1))"

type_synonym ('b, 'm) prefix_groups = "(u8 \<times> ('b \<times> (nat \<times> 'm) list) list) list"

definition add_range ::
  "('n4, 'n6) ipnet_api \<Rightarrow> nat \<times> 'm \<Rightarrow> ('n4, 'n6) IpNet
   \<Rightarrow> (u32, 'm) prefix_groups \<times> (u128, 'm) prefix_groups
   \<Rightarrow> (u32, 'm) prefix_groups \<times> (u128, 'm) prefix_groups" where
  "add_range api candidate r groups =
     (case net_trunc api r of
        V4Net v4net \<Rightarrow>
          (btree_update [] (entry_update [] (push_unique_candidate candidate) (v4_network api v4net))
             (v4_prefix_len api v4net) (fst groups), snd groups)
      | V6Net v6net \<Rightarrow>
          (fst groups,
           btree_update [] (entry_update [] (push_unique_candidate candidate) (v6_network api v6net))
             (v6_prefix_len api v6net) (snd groups)))"

definition IpMatcher_build ::
  "('n4, 'n6) ipnet_api
   \<Rightarrow> (('n4, 'n6) FilterChainMatch \<Rightarrow> ('n4, 'n6) IpNet list)
   \<Rightarrow> (('n4, 'n6) Candidate list \<Rightarrow> 'next option)
   \<Rightarrow> ('n4, 'n6) Candidate list \<Rightarrow> 'next IpMatcher option" where
  "IpMatcher_build api get_ranges build_next candidates =
     (if candidates = [] then None
      else if \<not> list_ex (\<lambda>(_, m). get_ranges m \<noteq> []) candidates
      then map_option IpWildcardOnly (build_next candidates)
      else
        let ((v4_groups, v6_groups), wildcard_candidates) =
          fold (\<lambda>candidate (groups, wildcard).
                  if get_ranges (snd candidate) = [] then (groups, wildcard @ [candidate])
                  else (fold (add_range api candidate) (get_ranges (snd candidate)) groups, wildcard))
            candidates (([], []), []);
          v4 = List.map_filter
            (\<lambda>(prefix_len, net_map).
               let prefixes = build_group_map net_map build_next
               in if prefixes \<noteq> [] then Some \<lparr>v4_mask = ipv4_mask prefix_len, v4_prefixes = prefixes\<rparr>
                  else None)
            (rev v4_groups);
          v6 = List.map_filter
            (\<lambda>(prefix_len, net_map).
               let prefixes = build_group_map net_map build_next
               in if prefixes \<noteq> [] then Some \<lparr>v6_mask = ipv6_mask prefix_len, v6_prefixes = prefixes\<rparr>
                  else None)
            (rev v6_groups)
        in Some (IpWithPrefixes v4 v6 (build_next wildcard_candidates)))"

fun IpMatcher_select_next :: "'next IpMatcher \<Rightarrow> IpAddr \<Rightarrow> 'next option" where
  "IpMatcher_select_next (IpWildcardOnly next) ip = Some next"
| "IpMatcher_select_next (IpWithPrefixes v4 v6 wildcard) ip =
     opt_or
       (case ip of
          V4Addr bits \<Rightarrow> find_map (\<lambda>level. map_of (v4_prefixes level) (bits AND v4_mask level)) v4
        | V6Addr bits \<Rightarrow> find_map (\<lambda>level. map_of (v6_prefixes level) (bits AND v6_mask level)) v6)
       wildcard"

type_synonym SourceIpMatcher = "SourcePortMatcher IpMatcher"

definition SourceIpMatcher_build_source ::
  "('n4, 'n6) ipnet_api \<Rightarrow> ('n4, 'n6) Candidate list \<Rightarrow> SourceIpMatcher option" where
  "SourceIpMatcher_build_source api = IpMatcher_build api source_prefix_ranges SourcePortMatcher_build"

text \<open>Level 3: server name.\<close>

datatype ServerNameMatcher =
    ServerNameWildcardOnly SourceIpMatcher
  | ServerNameWithRules "(str \<times> SourceIpMatcher) list" "(str \<times> SourceIpMatcher) list"
      "SourceIpMatcher option"

definition add_server_name ::
  "nat \<times> 'm \<Rightarrow> ServerNameMatch
   \<Rightarrow> (str \<times> (nat \<times> 'm) list) list \<times> (str \<times> (nat \<times> 'm) list) list
   \<Rightarrow> (str \<times> (nat \<times> 'm) list) list \<times> (str \<times> (nat \<times> 'm) list) list" where
  "add_server_name candidate sn groups =
     (if snm_match_subdomains sn
      then (fst groups, entry_update [] (push_unique_candidate candidate) (snm_name sn) (snd groups))
      else (entry_update [] (push_unique_candidate candidate) (snm_name sn) (fst groups), snd groups))"

definition ServerNameMatcher_build ::
  "('n4, 'n6) ipnet_api \<Rightarrow> ('n4, 'n6) Candidate list \<Rightarrow> ServerNameMatcher option" where
  "ServerNameMatcher_build api candidates =
     (if candidates = [] then None
      else if \<not> list_ex (\<lambda>(_, m). server_names m \<noteq> []) candidates
      then map_option ServerNameWildcardOnly (SourceIpMatcher_build_source api candidates)
      else
        let ((exact_groups, wildcard_groups), fallback_candidates) =
          fold (\<lambda>candidate (groups, fallback).
                  if server_names (snd candidate) = [] then (groups, fallback @ [candidate])
                  else (fold (add_server_name candidate) (server_names (snd candidate)) groups, fallback))
            candidates (([], []), [])
        in Some (ServerNameWithRules
                   (build_group_map exact_groups (SourceIpMatcher_build_source api))
                   (build_group_map wildcard_groups (SourceIpMatcher_build_source api))
                   (SourceIpMatcher_build_source api fallback_candidates)))"

definition dot_indices :: "str \<Rightarrow> nat list" where
  "dot_indices s = filter (\<lambda>i. s ! i = CHR ''.'') [0..<length s]"

fun ServerNameMatcher_select_next :: "ServerNameMatcher \<Rightarrow> str \<Rightarrow> SourceIpMatcher option" where
  "ServerNameMatcher_select_next (ServerNameWildcardOnly next) server_name = Some next"
| "ServerNameMatcher_select_next (ServerNameWithRules exact wildcard_suffixes fallback) server_name =
     (case map_of exact server_name of
        Some next \<Rightarrow> Some next
      | None \<Rightarrow>
          (case (if wildcard_suffixes \<noteq> []
                 then find_map (\<lambda>idx. map_of wildcard_suffixes (drop idx server_name))
                        (dot_indices server_name)
                 else None) of
             Some next \<Rightarrow> Some next
           | None \<Rightarrow> fallback))"

type_synonym DestIpMatcher = "ServerNameMatcher IpMatcher"

definition DestIpMatcher_build_dest ::
  "('n4, 'n6) ipnet_api \<Rightarrow> ('n4, 'n6) Candidate list \<Rightarrow> DestIpMatcher option" where
  "DestIpMatcher_build_dest api =
     IpMatcher_build api destination_prefix_ranges (ServerNameMatcher_build api)"

text \<open>Level 1: destination port.\<close>

datatype DestPortMatcher =
    DestPortWildcardOnly DestIpMatcher
  | DestPortWithExact "(u16 \<times> DestIpMatcher) list" "DestIpMatcher option"

definition DestPortMatcher_build ::
  "('n4, 'n6) ipnet_api \<Rightarrow> ('n4, 'n6) Candidate list \<Rightarrow> DestPortMatcher option" where
  "DestPortMatcher_build api candidates =
     (if candidates = [] then None
      else if \<not> list_ex (\<lambda>(_, m). destination_port m \<noteq> None) candidates
      then map_option DestPortWildcardOnly (DestIpMatcher_build_dest api candidates)
      else
        let (port_groups, wildcard_candidates) =
          fold (\<lambda>candidate (groups, wildcard).
                  case destination_port (snd candidate) of
                    Some port \<Rightarrow> (entry_update [] (\<lambda>grp. grp @ [candidate]) port groups, wildcard)
                  | None \<Rightarrow> (groups, wildcard @ [candidate]))
            candidates ([], [])
        in Some (DestPortWithExact
                   (build_group_map port_groups (DestIpMatcher_build_dest api))
                   (DestIpMatcher_build_dest api wildcard_candidates)))"

fun DestPortMatcher_select_next :: "DestPortMatcher \<Rightarrow> u16 \<Rightarrow> DestIpMatcher option" where
  "DestPortMatcher_select_next (DestPortWildcardOnly next) dst_port = Some next"
| "DestPortMatcher_select_next (DestPortWithExact exact wildcard) dst_port =
     opt_or (map_of exact dst_port) wildcard"

text \<open>The whole matcher and the collection of chains.\<close>

record FilterChainMatcher =
  fcm_root :: "DestPortMatcher option"
  fcm_has_server_names :: bool

record 't FilterChains =
  fc_matcher :: FilterChainMatcher
  fc_chains :: "'t list"

definition FilterChainMatcher_empty :: FilterChainMatcher where
  "FilterChainMatcher_empty = \<lparr>fcm_root = None, fcm_has_server_names = False\<rparr>"

definition FilterChainMatcher_new ::
  "('n4, 'n6) ipnet_api \<Rightarrow> ('n4, 'n6) FilterChainMatch list \<Rightarrow> FilterChainMatcher" where
  "FilterChainMatcher_new api match_rules =
     \<lparr>fcm_root = DestPortMatcher_build api (enumerate 0 match_rules),
      fcm_has_server_names = list_ex (\<lambda>m. server_names m \<noteq> []) match_rules\<rparr>"

text \<open>The two addresses of \<^verbatim>\<open>DownstreamConnectionMetadata\<close> that selection reads.\<close>

record ConnectionMetadata =
  peer_address :: SocketAddr
  local_address :: SocketAddr

definition FilterChainMatcher_select ::
  "FilterChainMatcher \<Rightarrow> ConnectionMetadata \<Rightarrow> str option \<Rightarrow> MatchLeaf option" where
  "FilterChainMatcher_select matcher connection server_name =
     do {
       root \<leftarrow> fcm_root matcher;
       level2 \<leftarrow> DestPortMatcher_select_next root (sa_port (local_address connection));
       level3 \<leftarrow> IpMatcher_select_next level2 (sa_ip (local_address connection));
       level4 \<leftarrow> ServerNameMatcher_select_next level3
                   (case server_name of Some s \<Rightarrow> s | None \<Rightarrow> []);
       level5 \<leftarrow> IpMatcher_select_next level4 (sa_ip (peer_address connection));
       SourcePortMatcher_select_next level5 (sa_port (peer_address connection))
     }"

datatype select_error = MultipleFilterChains

definition FilterChains_default :: "'t FilterChains" where
  "FilterChains_default = \<lparr>fc_matcher = FilterChainMatcher_empty, fc_chains = []\<rparr>"

definition FilterChains_from_iter ::
  "('n4, 'n6) ipnet_api \<Rightarrow> (('n4, 'n6) FilterChainMatch \<times> 't) list \<Rightarrow> 't FilterChains" where
  "FilterChains_from_iter api entries =
     \<lparr>fc_matcher = FilterChainMatcher_new api (map fst entries), fc_chains = map snd entries\<rparr>"

definition FilterChains_has_server_names :: "'t FilterChains \<Rightarrow> bool" where
  "FilterChains_has_server_names fc = fcm_has_server_names (fc_matcher fc)"

text \<open>\<^verbatim>\<open>try_map\<close>: the first failing conversion is the result.\<close>

fun collect_results :: "('e + 'u) list \<Rightarrow> 'e + 'u list" where
  "collect_results [] = Inr []"
| "collect_results (Inl e # rs) = Inl e"
| "collect_results (Inr u # rs) = map_sum id (Cons u) (collect_results rs)"

definition FilterChains_try_map ::
  "('t \<Rightarrow> 'e + 'u) \<Rightarrow> 't FilterChains \<Rightarrow> 'e + 'u FilterChains" where
  "FilterChains_try_map f fc =
     map_sum id (\<lambda>chains. \<lparr>fc_matcher = fc_matcher fc, fc_chains = chains\<rparr>)
       (collect_results (map f (fc_chains fc)))"

definition FilterChains_select ::
  "'t FilterChains \<Rightarrow> ConnectionMetadata \<Rightarrow> str option \<Rightarrow> select_error + 't option" where
  "FilterChains_select fc connection server_name =
     (case FilterChainMatcher_select (fc_matcher fc) connection server_name of
        Some (Single idx) \<Rightarrow> Inr (slice_get (fc_chains fc) idx)
      | Some Multiple \<Rightarrow> Inl MultipleFilterChains
      | None \<Rightarrow> Inr None)"

section \<open>The reference linear scan\<close>

text \<open>
  \<^verbatim>\<open>match_subitem\<close>: score the filters that are still possible, keep the ones with the best
  score. The scratchpad keeps the scores of an earlier level for filters already ruled out.
\<close>

definition match_subitem ::
  "('m \<Rightarrow> 'c \<Rightarrow> MatchResult) \<Rightarrow> 'c \<Rightarrow> 'm list \<Rightarrow> MatchResult list \<times> bool list
   \<Rightarrow> MatchResult list \<times> bool list" where
  "match_subitem function comparand match_configs state =
     (let (scratchpad, possible_filters) = state;
          scratchpad' = map2 (\<lambda>(possible, old) m. if possible then function m comparand else old)
                          (zip possible_filters scratchpad) match_configs;
          best_match = fold max
            (map (\<lambda>(_, m). function m comparand) (filter fst (zip possible_filters match_configs)))
            FailedMatch
      in (scratchpad',
          map2 (\<lambda>result possible. if result \<noteq> best_match \<or> result = FailedMatch then False else possible)
            scratchpad' possible_filters))"

definition reference_select ::
  "('n4, 'n6) ipnet_api \<Rightarrow> (('n4, 'n6) FilterChainMatch \<times> 't) list
   \<Rightarrow> ConnectionMetadata \<Rightarrow> str option \<Rightarrow> select_error + 't option" where
  "reference_select api entries connection server_name =
     (let ms = map fst entries;
          s0 = (replicate (length entries) NoRule, replicate (length entries) True);
          s1 = match_subitem matches_destination_port (sa_port (local_address connection)) ms s0;
          s2 = match_subitem (matches_destination_ip api) (sa_ip (local_address connection)) ms s1;
          s3 = match_subitem matches_server_name
                 (case server_name of Some s \<Rightarrow> s | None \<Rightarrow> []) ms s2;
          s4 = match_subitem (matches_source_ip api) (sa_ip (peer_address connection)) ms s3;
          s5 = match_subitem matches_source_port (sa_port (peer_address connection)) ms s4;
          final_candidates = map snd (filter fst (zip (snd s5) (map snd entries)))
      in case final_candidates of
           [] \<Rightarrow> Inr None
         | [v] \<Rightarrow> Inr (Some v)
         | _ \<Rightarrow> Inl MultipleFilterChains)"

section \<open>Best matches\<close>

text \<open>
  The specification of one level: among the candidates keep those with the best score, provided it
  is a match at all. Both the tree and the scan are shown to compute five such steps in a row.
\<close>

definition best_filter :: "('c \<Rightarrow> MatchResult) \<Rightarrow> 'c list \<Rightarrow> 'c list" where
  "best_filter score cs =
     filter (\<lambda>c. score c = fold max (map score cs) FailedMatch \<and> score c \<noteq> FailedMatch) cs"

lemma FailedMatch_least [simp]: "FailedMatch \<le> r"
  by (cases r) auto

lemma fold_max_Failed: "fold max rs FailedMatch = Max (insert FailedMatch (set rs))"
  by (simp add: fold_max_Max)

lemma best_filter_eq:
  "best_filter score cs =
     filter (\<lambda>c. score c \<noteq> FailedMatch \<and> (\<forall>d\<in>set cs. score d \<le> score c)) cs"
  unfolding best_filter_def
  by (rule filter_cong) (auto simp: fold_max_Failed intro: Max_eqI [symmetric])

lemma best_filter_cong:
  "(\<And>c. c \<in> set cs \<Longrightarrow> f c = g c) \<Longrightarrow> best_filter f cs = best_filter g cs"
  unfolding best_filter_eq by (rule filter_cong) auto

lemma best_filter_distinct:
  "distinct (map fst cs) \<Longrightarrow> distinct (map fst (best_filter f cs))"
  by (simp add: best_filter_def distinct_map_filter)

text \<open>
  Every level ranks the keys a connection can match from the most specific to the least; a
  candidate scores by the first of its own keys in that ranking.
\<close>

fun ranked :: "('k \<times> nat) list \<Rightarrow> 'k list \<Rightarrow> MatchResult" where
  "ranked [] keys = (if keys = [] then NoRule else FailedMatch)"
| "ranked ((k, s) # ks) keys = (if k \<in> set keys then Matched s else ranked ks keys)"

definition key_score :: "('k \<times> nat) list \<Rightarrow> 'k \<Rightarrow> MatchResult" where
  "key_score ks k = (case map_of ks k of Some s \<Rightarrow> Matched s | None \<Rightarrow> FailedMatch)"

lemma ranked_Nil_keys [simp]: "ranked ks [] = NoRule"
  by (induction ks) auto

lemma ranked_le:
  "(\<And>k s'. (k, s') \<in> set ks \<Longrightarrow> s \<le> s') \<Longrightarrow> ranked ks keys \<le> Matched s"
  by (induction ks keys rule: ranked.induct) auto

lemma ranked_eq_Matched:
  "ranked ks keys = Matched s \<Longrightarrow> \<exists>k. (k, s) \<in> set ks"
  by (induction ks keys rule: ranked.induct) (auto split: if_splits)

text \<open>The maximum of the scores of the single keys is the rank of the key list.\<close>

lemma Max_key_score:
  "sorted_wrt (<) (map snd ks) \<Longrightarrow> keys \<noteq> [] \<Longrightarrow>
     Max (key_score ks ` set keys) = ranked ks keys"
proof (induction ks)
  case Nil
  then have "key_score [] ` set keys = {FailedMatch}"
    by (auto simp: key_score_def image_iff neq_Nil_conv)
  with Nil show ?case by simp
next
  case (Cons p ks)
  obtain k s where p: "p = (k, s)" by (cases p)
  show ?case
  proof (cases "k \<in> set keys")
    case True
    have "key_score (p # ks) k' \<le> Matched s" for k'
      using Cons.prems p by (fastforce simp: key_score_def dest: map_of_SomeD split: option.splits)
    moreover have "Matched s \<in> key_score (p # ks) ` set keys"
      using True p by (force simp: key_score_def)
    ultimately show ?thesis
      using True p by (auto intro!: Max_eqI)
  next
    case False
    then have "key_score (p # ks) ` set keys = key_score ks ` set keys"
      using p by (auto simp: key_score_def intro!: image_cong)
    with Cons False p show ?thesis by simp
  qed
qed

lemma iter_max_key_score:
  "sorted_wrt (<) (map snd ks) \<Longrightarrow>
     (case iter_max (map (key_score ks) keys) of Some r \<Rightarrow> r | None \<Rightarrow> NoRule) = ranked ks keys"
  by (simp add: iter_max_eq Max_key_score)

text \<open>
  The best candidates are those that have the first ranked key that any candidate has; if none has
  a ranked key, those without any key.
\<close>

lemma best_filter_ranked_Cons:
  assumes "\<And>k' s'. (k', s') \<in> set ks \<Longrightarrow> s < s'" and "\<exists>c\<in>set cs. k \<in> set (keys c)"
  shows "best_filter (\<lambda>c. ranked ((k, s) # ks) (keys c)) cs = filter (\<lambda>c. k \<in> set (keys c)) cs"
proof -
  have le: "ranked ((k, s) # ks) K \<le> Matched s" for K
    using assms(1) by (auto intro!: ranked_le dest: less_imp_le)
  have eq: "k \<in> set K" if "Matched s \<le> ranked ((k, s) # ks) K" for K
  proof (rule ccontr)
    assume "k \<notin> set K"
    with that le have "ranked ks K = Matched s"
      by (metis order_antisym ranked.simps(2))
    then show False using assms(1) ranked_eq_Matched by blast
  qed
  show ?thesis
    unfolding best_filter_eq
  proof (rule filter_cong [OF refl])
    fix c assume "c \<in> set cs"
    show "(ranked ((k, s) # ks) (keys c) \<noteq> FailedMatch \<and>
        (\<forall>d\<in>set cs. ranked ((k, s) # ks) (keys d) \<le> ranked ((k, s) # ks) (keys c)))
        \<longleftrightarrow> k \<in> set (keys c)"
      using assms(2) le eq by (metis MatchResult.distinct(3) ranked.simps(2))
  qed
qed

lemma best_filter_ranked_skip:
  "\<forall>c\<in>set cs. k \<notin> set (keys c) \<Longrightarrow>
     best_filter (\<lambda>c. ranked ((k, s) # ks) (keys c)) cs = best_filter (\<lambda>c. ranked ks (keys c)) cs"
  by (rule best_filter_cong) auto

lemma best_filter_ranked_Nil:
  "best_filter (\<lambda>c. ranked [] (keys c)) cs = filter (\<lambda>c. keys c = []) cs"
  unfolding best_filter_eq by (rule filter_cong) auto

definition build_total :: "('c list \<Rightarrow> 'n option) \<Rightarrow> bool" where
  "build_total build \<longleftrightarrow> (\<forall>cs. build cs = None \<longleftrightarrow> cs = [])"

lemma build_totalD: "build_total build \<Longrightarrow> build [] = None" "build_total build \<Longrightarrow> cs \<noteq> [] \<Longrightarrow> build cs \<noteq> None"
  by (auto simp: build_total_def)

lemma build_best_filter:
  assumes "sorted_wrt (<) (map snd ks)" and total: "build_total build"
  shows "build (best_filter (\<lambda>c. ranked ks (keys c)) cs) =
    opt_or (find_map (\<lambda>k. build (filter (\<lambda>c. k \<in> set (keys c)) cs)) (map fst ks))
           (build (filter (\<lambda>c. keys c = []) cs))"
  using assms(1)
proof (induction ks)
  case Nil
  then show ?case by (simp only: best_filter_ranked_Nil) simp
next
  case (Cons p ks)
  obtain k s where p: "p = (k, s)" by (cases p)
  show ?case
  proof (cases "\<exists>c\<in>set cs. k \<in> set (keys c)")
    case True
    then have "filter (\<lambda>c. k \<in> set (keys c)) cs \<noteq> []" by (auto simp: filter_empty_conv)
    then obtain n where "build (filter (\<lambda>c. k \<in> set (keys c)) cs) = Some n"
      using build_totalD(2) [OF total] by blast
    moreover have "best_filter (\<lambda>c. ranked (p # ks) (keys c)) cs = filter (\<lambda>c. k \<in> set (keys c)) cs"
      unfolding p using Cons.prems p True by (intro best_filter_ranked_Cons) auto
    ultimately show ?thesis using p by simp
  next
    case False
    then have "filter (\<lambda>c. k \<in> set (keys c)) cs = []" by (auto simp: filter_empty_conv)
    moreover have "best_filter (\<lambda>c. ranked (p # ks) (keys c)) cs = best_filter (\<lambda>c. ranked ks (keys c)) cs"
      unfolding p using False by (intro best_filter_ranked_skip) auto
    ultimately show ?thesis using Cons p build_totalD(1) [OF total] by simp
  qed
qed

section \<open>Grouping candidates by key\<close>

text \<open>
  The interface of the maps the build functions fill: an update touches the group of its own key
  only. The client lemma says that pushing every candidate under each of its keys leaves in the
  group of a key exactly the candidates that have it, in order and without repetition.
\<close>

locale group_map =
  fixes empty :: 'g
    and lookup :: "'g \<Rightarrow> 'k \<Rightarrow> (nat \<times> 'm) list"
    and update :: "'k \<Rightarrow> ((nat \<times> 'm) list \<Rightarrow> (nat \<times> 'm) list) \<Rightarrow> 'g \<Rightarrow> 'g"
    and invar :: "'g \<Rightarrow> bool"
  assumes invar_empty: "invar empty"
    and invar_update: "invar g \<Longrightarrow> invar (update k f g)"
    and lookup_empty: "lookup empty k = []"
    and lookup_update:
      "invar g \<Longrightarrow> lookup (update k f g) k' = (if k = k' then f (lookup g k) else lookup g k')"
begin

lemma push_unique_idem:
  "push_unique_candidate c (push_unique_candidate c grp) = push_unique_candidate c grp"
  by (auto simp: push_unique_candidate_def)

lemma push_unique_fresh:
  "fst c \<notin> fst ` set grp \<Longrightarrow> push_unique_candidate c grp = grp @ [c]"
  by (metis image_eqI last_in_set push_unique_candidate_def)

lemma add_keys:
  "invar g \<Longrightarrow> invar (fold (\<lambda>k. update k (push_unique_candidate c)) ks g) \<and>
     lookup (fold (\<lambda>k. update k (push_unique_candidate c)) ks g) k =
       (if k \<in> set ks then push_unique_candidate c (lookup g k) else lookup g k)"
  by (induction ks arbitrary: g) (auto simp: lookup_update invar_update push_unique_idem)

lemma collect_from:
  assumes "invar g" and "distinct (map fst cs)"
    and "\<And>k. fst ` set (lookup g k) \<inter> fst ` set cs = {}"
  shows "invar (fold (\<lambda>c. fold (\<lambda>k. update k (push_unique_candidate c)) (keys c)) cs g) \<and>
    (\<forall>k. lookup (fold (\<lambda>c. fold (\<lambda>k. update k (push_unique_candidate c)) (keys c)) cs g) k =
       lookup g k @ filter (\<lambda>c. k \<in> set (keys c)) cs)"
  using assms
proof (induction cs arbitrary: g)
  case (Cons c cs)
  let ?g = "fold (\<lambda>k. update k (push_unique_candidate c)) (keys c) g"
  have fresh: "fst c \<notin> fst ` set (lookup g k)" for k using Cons.prems(3) [of k] by auto
  have g: "lookup ?g k = (if k \<in> set (keys c) then lookup g k @ [c] else lookup g k)" for k
    using add_keys [OF Cons.prems(1), of c "keys c" k] push_unique_fresh [OF fresh] by simp
  have "fst ` set (lookup ?g k) \<inter> fst ` set cs = {}" for k
    using Cons.prems(2) Cons.prems(3) [of k] by (auto simp: g)
  then have "invar (fold (\<lambda>c. fold (\<lambda>k. update k (push_unique_candidate c)) (keys c)) cs ?g) \<and>
    (\<forall>k. lookup (fold (\<lambda>c. fold (\<lambda>k. update k (push_unique_candidate c)) (keys c)) cs ?g) k =
       lookup ?g k @ filter (\<lambda>c. k \<in> set (keys c)) cs)"
    using Cons.IH [of ?g] Cons.prems(1,2) add_keys [OF Cons.prems(1), of c "keys c"] by simp
  then show ?case by (simp add: g)
qed simp

lemmas collect = collect_from [OF invar_empty, unfolded lookup_empty, simplified]

end

definition group_of :: "('k \<times> 'c list) list \<Rightarrow> 'k \<Rightarrow> 'c list" where
  "group_of m k = (case map_of m k of None \<Rightarrow> [] | Some grp \<Rightarrow> grp)"

lemma group_of_entry_update:
  "group_of (entry_update [] f k m) k' = (if k = k' then f (group_of m k) else group_of m k')"
  by (auto simp: group_of_def map_of_entry_update split: option.splits)

interpretation port_groups: group_map "[]" group_of "\<lambda>k f. entry_update [] f k"
  "\<lambda>m. distinct (map fst m)"
  by unfold_locales (simp_all add: distinct_entry_update group_of_entry_update, simp add: group_of_def)

definition name_group ::
  "(str \<times> 'c list) list \<times> (str \<times> 'c list) list \<Rightarrow> bool \<times> str \<Rightarrow> 'c list" where
  "name_group g k = group_of ((if fst k then snd else fst) g) (snd k)"

definition name_update where
  "name_update k f g =
     (if fst k then (fst g, entry_update [] f (snd k) (snd g))
      else (entry_update [] f (snd k) (fst g), snd g))"

interpretation name_groups: group_map "([], [])" name_group name_update
  "\<lambda>g. distinct (map fst (fst g)) \<and> distinct (map fst (snd g))"
  by unfold_locales
    (auto simp: name_group_def name_update_def distinct_entry_update group_of_entry_update,
     simp add: group_of_def)

definition prefix_group :: "('p \<times> ('b \<times> 'c list) list) list \<Rightarrow> 'p \<times> 'b \<Rightarrow> 'c list" where
  "prefix_group g k = group_of (group_of g (fst k)) (snd k)"

definition prefix_update ::
  "'p::linorder \<times> 'b \<Rightarrow> ('c list \<Rightarrow> 'c list) \<Rightarrow> ('p \<times> ('b \<times> 'c list) list) list
   \<Rightarrow> ('p \<times> ('b \<times> 'c list) list) list" where
  "prefix_update k f g = btree_update [] (entry_update [] f (snd k)) (fst k) g"

definition prefix_invar :: "('p::linorder \<times> ('b \<times> 'c list) list) list \<Rightarrow> bool" where
  "prefix_invar g \<longleftrightarrow> btree_ok g \<and> (\<forall>p. distinct (map fst (group_of g p)))"

lemma group_of_btree_update:
  "btree_ok m \<Longrightarrow>
     group_of (btree_update [] f k m) k' = (if k = k' then f (group_of m k) else group_of m k')"
  by (auto simp: group_of_def map_of_btree_update split: option.splits)

lemma prefix_invar_update: "prefix_invar g \<Longrightarrow> prefix_invar (prefix_update k f g)"
  by (simp add: prefix_invar_def prefix_update_def btree_ok_update group_of_btree_update
      distinct_entry_update)

lemma prefix_group_update:
  "prefix_invar g \<Longrightarrow>
     prefix_group (prefix_update k f g) k' = (if k = k' then f (prefix_group g k) else prefix_group g k')"
  by (cases k; cases k')
    (auto simp: prefix_invar_def prefix_group_def prefix_update_def group_of_btree_update
      group_of_entry_update)

definition net_group where
  "net_group g k = (case k of Inl k4 \<Rightarrow> prefix_group (fst g) k4 | Inr k6 \<Rightarrow> prefix_group (snd g) k6)"

definition net_update where
  "net_update k f g =
     (case k of Inl k4 \<Rightarrow> (prefix_update k4 f (fst g), snd g) | Inr k6 \<Rightarrow> (fst g, prefix_update k6 f (snd g)))"

interpretation net_groups: group_map "([], [])" net_group net_update
  "\<lambda>g. prefix_invar (fst g) \<and> prefix_invar (snd g)"
  by unfold_locales
    (auto simp: net_group_def net_update_def prefix_invar_update prefix_group_update
      split: sum.splits,
     auto simp: prefix_invar_def prefix_group_def group_of_def split: sum.splits)

text \<open>Reading the compiled map is compiling the group.\<close>

lemma group_of_fresh: "k \<notin> fst ` set m \<Longrightarrow> group_of m k = []"
  by (simp add: group_of_def map_of_eq_None_iff [THEN iffD2])

lemma build_group_map_simps [simp]:
  "build_group_map [] build_next = []"
  "build_group_map ((k, grp) # groups) build_next =
     (case build_next grp of None \<Rightarrow> build_group_map groups build_next
      | Some n \<Rightarrow> (k, n) # build_group_map groups build_next)"
  by (simp_all add: build_group_map_def map_filter_simps split: option.splits)

lemma group_of_simps [simp]:
  "group_of [] k = []"
  "group_of ((k', grp) # m) k = (if k = k' then grp else group_of m k)"
  by (simp_all add: group_of_def)

lemma map_of_build_group_map:
  "distinct (map fst groups) \<Longrightarrow> build_next [] = None \<Longrightarrow>
     map_of (build_group_map groups build_next) k = build_next (group_of groups k)"
proof (induction groups)
  case (Cons p groups)
  obtain k' grp where p: "p = (k', grp)" by (cases p)
  have "group_of groups k' = []" using Cons.prems p by (intro group_of_fresh) simp
  with Cons p show ?case by (auto split: option.splits)
qed simp

lemma fold_split_keyless:
  "fold (\<lambda>c (g, w). if keys c = [] then (g, w @ [c]) else (fold (h c) (keys c) g, w)) cs (g0, w0) =
     (fold (\<lambda>c. fold (h c) (keys c)) cs g0, w0 @ filter (\<lambda>c. keys c = []) cs)"
  by (induction cs arbitrary: g0 w0) auto

section \<open>Each level of the tree keeps the best candidates\<close>

text \<open>What the documentation of \<^verbatim>\<open>ipnet\<close> promises of the operations used here.\<close>

definition ipnet_laws :: "('n4, 'n6) ipnet_api \<Rightarrow> bool" where
  "ipnet_laws api \<longleftrightarrow>
     (\<forall>r n. net_trunc api r = V4Net n \<longrightarrow>
        v4_prefix_len api n \<le> 32 \<and> net_prefix_len api r = v4_prefix_len api n \<and>
        (\<forall>a. net_contains api r (V4Addr a) \<longleftrightarrow> a AND ipv4_mask (v4_prefix_len api n) = v4_network api n) \<and>
        (\<forall>a. \<not> net_contains api r (V6Addr a))) \<and>
     (\<forall>r n. net_trunc api r = V6Net n \<longrightarrow>
        v6_prefix_len api n \<le> 128 \<and> net_prefix_len api r = v6_prefix_len api n \<and>
        (\<forall>a. net_contains api r (V6Addr a) \<longleftrightarrow> a AND ipv6_mask (v6_prefix_len api n) = v6_network api n) \<and>
        (\<forall>a. \<not> net_contains api r (V4Addr a)))"

text \<open>The names that \<^verbatim>\<open>ServerNameMatch::from_str\<close> produces for wildcard rules start with a dot.\<close>

definition server_name_ok :: "ServerNameMatch \<Rightarrow> bool" where
  "server_name_ok sn \<longleftrightarrow> (snm_match_subdomains sn \<longrightarrow> snm_name sn \<noteq> [] \<and> hd (snm_name sn) = CHR ''.'')"

definition rule_ok :: "('n4, 'n6) FilterChainMatch \<Rightarrow> bool" where
  "rule_ok m \<longleftrightarrow> list_all server_name_ok (server_names m)"

definition candidates_ok :: "('n4, 'n6) ipnet_api \<Rightarrow> ('n4, 'n6) Candidate list \<Rightarrow> bool" where
  "candidates_ok api cs \<longleftrightarrow>
     ipnet_laws api \<and> distinct (map fst cs) \<and> list_all (\<lambda>c. rule_ok (snd c)) cs"

text \<open>
  The contract of a level: building it and then selecting is building the next level from the best
  candidates. Levels compose because the best candidates are again well formed.
\<close>

locale match_level =
  fixes ok :: "'c list \<Rightarrow> bool"
    and arg_ok :: "'x \<Rightarrow> bool"
    and score :: "'c \<Rightarrow> 'x \<Rightarrow> MatchResult"
    and build :: "'c list \<Rightarrow> 'l option"
    and select_next :: "'l \<Rightarrow> 'x \<Rightarrow> 'n option"
    and build_next :: "'c list \<Rightarrow> 'n option"
  assumes ok_filter: "ok cs \<Longrightarrow> ok (filter P cs)"
    and level: "ok cs \<Longrightarrow> arg_ok x \<Longrightarrow>
      Option.bind (build cs) (\<lambda>l. select_next l x) = build_next (best_filter (\<lambda>c. score c x) cs)"
begin

lemma ok_best: "ok cs \<Longrightarrow> ok (best_filter f cs)"
  by (simp add: best_filter_def ok_filter)

lemma descend:
  "ok cs \<Longrightarrow> arg_ok x \<Longrightarrow>
     Option.bind (build cs) (\<lambda>l. Option.bind (select_next l x) k) =
     Option.bind (build_next (best_filter (\<lambda>c. score c x) cs)) k"
  using level [of cs x] by (cases "build cs") auto

end

lemma candidates_ok_filter: "candidates_ok api cs \<Longrightarrow> candidates_ok api (filter P cs)"
  by (auto simp: candidates_ok_def distinct_map_filter list_all_iff)

lemma candidates_okD: "candidates_ok api cs \<Longrightarrow> ipnet_laws api" "candidates_ok api cs \<Longrightarrow> distinct (map fst cs)"
  by (simp_all add: candidates_ok_def)

lemma best_filter_keyless:
  "\<not> list_ex (\<lambda>c. keys c \<noteq> []) cs \<Longrightarrow> best_filter (\<lambda>c. ranked ks (keys c)) cs = cs"
  unfolding best_filter_eq by (auto simp: list_ex_iff)

lemma MatchLeaf_from_candidates_None [simp]: "MatchLeaf_from_candidates cs = None \<longleftrightarrow> cs = []"
  by (auto simp: MatchLeaf_from_candidates_def split: list.splits)

lemma MatchLeaf_from_candidates_Nil [simp]: "MatchLeaf_from_candidates [] = None"
  by (simp add: MatchLeaf_from_candidates_def)

lemma MatchLeaf_total: "build_total MatchLeaf_from_candidates"
  by (simp add: build_total_def)

lemma list_ex_snd: "list_ex (\<lambda>(_, m). P m) cs \<longleftrightarrow> list_ex (\<lambda>c. P (snd c)) cs"
  by (simp add: case_prod_beta')

lemma bind_wildcard_only:
  "(\<And>n. sel (W n) x = Some n) \<Longrightarrow> Option.bind (map_option W opt) (\<lambda>l. sel l x) = opt"
  by (cases opt) auto

text \<open>Level 5.\<close>

lemma matches_source_port_ranked:
  "matches_source_port m port = ranked [(port, 0)] (source_ports m)"
  by (simp add: matches_source_port_def)

lemma source_port_groups:
  assumes "distinct (map fst cs)"
  defines "groups \<equiv> fold (\<lambda>c. fold (\<lambda>port. entry_update [] (push_unique_candidate c) port)
    (source_ports (snd c))) cs []"
  shows "distinct (map fst groups)"
    and "group_of groups port = filter (\<lambda>c. port \<in> set (source_ports (snd c))) cs"
  using port_groups.collect [OF assms(1), of "\<lambda>c. source_ports (snd c)"] by (simp_all add: groups_def)

lemma SourcePortMatcher_level:
  assumes "distinct (map fst cs)"
  shows "Option.bind (SourcePortMatcher_build cs) (\<lambda>l. SourcePortMatcher_select_next l port) =
     MatchLeaf_from_candidates (best_filter (\<lambda>c. matches_source_port (snd c) port) cs)"
proof (cases "list_ex (\<lambda>c. source_ports (snd c) \<noteq> []) cs")
  case False
  have "best_filter (\<lambda>c. matches_source_port (snd c) port) cs = cs"
    unfolding matches_source_port_ranked by (rule best_filter_keyless [OF False])
  with False show ?thesis
    by (auto simp: SourcePortMatcher_build_def list_ex_snd bind_wildcard_only)
next
  case True
  let ?groups = "fold (\<lambda>c. fold (\<lambda>port. entry_update [] (push_unique_candidate c) port)
    (source_ports (snd c))) cs []"
  have "SourcePortMatcher_build cs =
      Some (SourcePortWithExact (build_group_map ?groups MatchLeaf_from_candidates)
              (MatchLeaf_from_candidates (filter (\<lambda>c. source_ports (snd c) = []) cs)))"
    using True by (auto simp: SourcePortMatcher_build_def list_ex_snd fold_split_keyless)
  then show ?thesis
    unfolding matches_source_port_ranked
    by (simp del: ranked.simps add: source_port_groups [OF assms] map_of_build_group_map
        MatchLeaf_total build_best_filter [where keys = "\<lambda>c. source_ports (snd c)"])
qed

text \<open>Levels 2 and 4: the ranking goes through the prefix lengths from the longest to zero.\<close>

definition range_key ::
  "('n4, 'n6) ipnet_api \<Rightarrow> ('n4, 'n6) IpNet \<Rightarrow> (u8 \<times> u32) + (u8 \<times> u128)" where
  "range_key api r =
     (case net_trunc api r of
        V4Net n \<Rightarrow> Inl (v4_prefix_len api n, v4_network api n)
      | V6Net n \<Rightarrow> Inr (v6_prefix_len api n, v6_network api n))"

definition ip_ranks :: "IpAddr \<Rightarrow> (((u8 \<times> u32) + (u8 \<times> u128)) \<times> nat) list" where
  "ip_ranks ip =
     (case ip of
        V4Addr a \<Rightarrow> map (\<lambda>p. (Inl (of_nat p, a AND ipv4_mask (of_nat p)), 32 - p)) (rev [0..<33])
      | V6Addr a \<Rightarrow> map (\<lambda>p. (Inr (of_nat p, a AND ipv6_mask (of_nat p)), 128 - p)) (rev [0..<129]))"

lemma add_range_net_update:
  "add_range api c r = net_update (range_key api r) (push_unique_candidate c)"
  by (auto simp: fun_eq_iff add_range_def net_update_def prefix_update_def range_key_def
      split: IpNet.splits)

lemma sorted_ip_ranks: "sorted_wrt (<) (map snd (ip_ranks ip))"
  by (cases ip) (auto simp: ip_ranks_def sorted_wrt_iff_nth_less rev_nth comp_def)

lemma sorted_of_nat_u8: "n \<le> 256 \<Longrightarrow> sorted_wrt (<) (map of_nat [0..<n] :: u8 list)"
  by (auto simp: sorted_wrt_iff_nth_less word_less_nat_alt unat_of_nat)

lemma unat_of_nat_u8 [simp]: "i < 256 \<Longrightarrow> unat (of_nat i :: u8) = i"
  by (simp add: unat_of_nat)

lemma of_nat_u8_inj: "i < 256 \<Longrightarrow> j < 256 \<Longrightarrow> (of_nat i :: u8) = of_nat j \<longleftrightarrow> i = j"
  by (metis unat_of_nat_u8)

lemma u8_in_upto: "unat (p :: u8) \<le> n \<Longrightarrow> p \<in> set (map of_nat [0..<Suc n])"
  by (auto intro!: image_eqI [where x = "unat p"] simp del: upt_Suc)

lemma map_of_ranks_Some:
  fixes p :: u8
  assumes "unat p \<le> n" "n < 256" "inj K"
  shows "map_of (map (\<lambda>i. (K (of_nat i, f (of_nat i)), s i)) (rev [0..<Suc n])) (K (p, f p)) =
    Some (s (unat p))"
proof (rule map_of_is_SomeI)
  have "i = j" if "i < Suc n" "j < Suc n" "(of_nat i :: u8) = of_nat j" for i j
    using that assms(2) by (simp add: of_nat_u8_inj)
  then show "distinct (map fst (map (\<lambda>i. (K (of_nat i, f (of_nat i)), s i)) (rev [0..<Suc n])))"
    using assms(3) by (auto simp: distinct_map comp_def inj_on_def dest!: injD simp del: upt_Suc)
next
  show "(K (p, f p), s (unat p)) \<in> set (map (\<lambda>i. (K (of_nat i, f (of_nat i)), s i)) (rev [0..<Suc n]))"
    using assms(1) by (force intro!: image_eqI [where x = "unat p"])
qed

lemma map_of_ranks_None:
  assumes "n < 256" and "\<And>p :: u8. unat p \<le> n \<Longrightarrow> k \<noteq> K (p, f p)"
  shows "map_of (map (\<lambda>i. (K (of_nat i, f (of_nat i)), s i)) (rev [0..<Suc n])) k = None"
proof -
  have "k \<noteq> K (of_nat i, f (of_nat i))" if "i < Suc n" for i
    using that assms by simp
  then show ?thesis by (auto simp: map_of_eq_None_iff simp del: upt_Suc) blast
qed

lemma key_score_V4:
  assumes "unat p \<le> 32"
  shows "key_score (ip_ranks (V4Addr a)) (Inl (p, n)) =
    (if a AND ipv4_mask p = n then Matched (32 - unat p) else FailedMatch)"
proof -
  let ?ks = "map (\<lambda>i. (Inl (of_nat i, (\<lambda>p. a AND ipv4_mask p) (of_nat i)) :: (u8 \<times> u32) + (u8 \<times> u128),
    32 - i)) (rev [0..<Suc 32])"
  have "map_of ?ks (Inl (p, a AND ipv4_mask p)) = Some (32 - unat p)"
    using assms by (intro map_of_ranks_Some) (auto simp: inj_def)
  moreover have "map_of ?ks (Inl (p, n)) = None" if "a AND ipv4_mask p \<noteq> n"
    using that by (intro map_of_ranks_None) auto
  ultimately show ?thesis by (auto simp: key_score_def ip_ranks_def)
qed

lemma key_score_V6:
  assumes "unat p \<le> 128"
  shows "key_score (ip_ranks (V6Addr a)) (Inr (p, n)) =
    (if a AND ipv6_mask p = n then Matched (128 - unat p) else FailedMatch)"
proof -
  let ?ks = "map (\<lambda>i. (Inr (of_nat i, (\<lambda>p. a AND ipv6_mask p) (of_nat i)) :: (u8 \<times> u32) + (u8 \<times> u128),
    128 - i)) (rev [0..<Suc 128])"
  have "map_of ?ks (Inr (p, a AND ipv6_mask p)) = Some (128 - unat p)"
    using assms by (intro map_of_ranks_Some) (auto simp: inj_def)
  moreover have "map_of ?ks (Inr (p, n)) = None" if "a AND ipv6_mask p \<noteq> n"
    using that by (intro map_of_ranks_None) auto
  ultimately show ?thesis by (auto simp: key_score_def ip_ranks_def)
qed

lemma key_score_other_family:
  "key_score (ip_ranks (V4Addr a)) (Inr k6) = FailedMatch"
  "key_score (ip_ranks (V6Addr b)) (Inl k4) = FailedMatch"
  by (auto simp: key_score_def ip_ranks_def map_of_eq_None_iff split: option.splits dest!: map_of_SomeD)

lemma range_score_key:
  assumes "ipnet_laws api"
  shows "range_score api ip r = key_score (ip_ranks ip) (range_key api r)"
proof (cases "net_trunc api r")
  case (V4Net n)
  then have "unat (v4_prefix_len api n) \<le> 32"
    using assms by (auto simp: ipnet_laws_def word_le_nat_alt)
  with V4Net assms show ?thesis
    by (cases ip) (auto simp: ipnet_laws_def range_score_def range_key_def key_score_V4 key_score_other_family)
next
  case (V6Net n)
  then have "unat (v6_prefix_len api n) \<le> 128"
    using assms by (auto simp: ipnet_laws_def word_le_nat_alt)
  with V6Net assms show ?thesis
    by (cases ip) (auto simp: ipnet_laws_def range_score_def range_key_def key_score_V6 key_score_other_family)
qed

lemma matches_ip_ranked:
  assumes "ipnet_laws api"
  shows "(case iter_max (map (range_score api ip) rs) of Some r \<Rightarrow> r | None \<Rightarrow> NoRule) =
    ranked (ip_ranks ip) (map (range_key api) rs)"
proof -
  have "map (range_score api ip) rs = map (key_score (ip_ranks ip)) (map (range_key api) rs)"
    by (simp add: range_score_key [OF assms])
  then show ?thesis by (simp only: iter_max_key_score [OF sorted_ip_ranks])
qed

lemma find_map_map_filter:
  "find_map f (List.map_filter g xs) = find_map (\<lambda>x. Option.bind (g x) f) xs"
  by (induction xs) (auto simp: map_filter_simps split: option.splits)

lemma prefix_levels:
  fixes groups :: "(u8 \<times> ('b \<times> (nat \<times> 'm) list) list) list"
  assumes inv: "prefix_invar groups" and bn: "build_next [] = None" and n: "n < 256"
    and out: "\<And>p. n < unat p \<Longrightarrow> prefix_group groups (p, f p) = []"
    and look: "\<And>p prefixes. look (mk p prefixes) = map_of prefixes (f p)"
  shows "find_map look (List.map_filter (\<lambda>(p, net_map).
       let prefixes = build_group_map net_map build_next
       in if prefixes \<noteq> [] then Some (mk p prefixes) else None) (rev groups)) =
    find_map (\<lambda>p. build_next (prefix_group groups (p, f p))) (rev (map of_nat [0..<Suc n]))"
proof -
  let ?F = "\<lambda>p. build_next (prefix_group groups (p, f p))"
  have step: "Option.bind (let prefixes = build_group_map net_map build_next
       in if prefixes \<noteq> [] then Some (mk p prefixes) else None) look = ?F p"
    if "(p, net_map) \<in> set groups" for p net_map
  proof -
    have "group_of groups p = net_map"
      using that inv by (auto simp: group_of_def prefix_invar_def strict_sorted_iff)
    then have "map_of (build_group_map net_map build_next) (f p) = ?F p"
      using inv bn by (metis fst_conv map_of_build_group_map prefix_group_def prefix_invar_def snd_conv)
    then show ?thesis by (auto simp: Let_def look)
  qed
  have "find_map look (List.map_filter (\<lambda>(p, net_map).
       let prefixes = build_group_map net_map build_next
       in if prefixes \<noteq> [] then Some (mk p prefixes) else None) (rev groups)) =
     find_map ?F (rev (map fst groups))"
    unfolding find_map_map_filter rev_map find_map_map
    by (rule find_map_cong) (auto simp: step)
  also have "\<dots> = find_map ?F (rev (map of_nat [0..<Suc n]))"
  proof (rule find_map_rev_sorted)
    show "sorted_wrt (<) (map fst groups)" using inv by (simp add: prefix_invar_def)
    show "sorted_wrt (<) (map of_nat [0..<Suc n] :: u8 list)" using n by (intro sorted_of_nat_u8) simp
    show "?F p = None" if "p \<notin> set (map of_nat [0..<Suc n])" for p
    proof -
      have "n < unat p" using that u8_in_upto [of p n] by (meson not_less)
      then show ?thesis by (simp add: out bn)
    qed
    show "?F p = None" if "p \<notin> set (map fst groups)" for p
      using that by (simp add: prefix_group_def group_of_fresh bn)
  qed
  finally show ?thesis .
qed

lemma SourcePortMatcher_total: "build_total SourcePortMatcher_build"
  unfolding build_total_def SourcePortMatcher_build_def
  by (auto split: prod.splits) (metis MatchLeaf_from_candidates_None option.exhaust)

lemma IpMatcher_total: "build_total build_next \<Longrightarrow> build_total (IpMatcher_build api get_ranges build_next)"
  by (auto simp: build_total_def IpMatcher_build_def Let_def split: prod.splits)

lemma range_key_bound:
  assumes "ipnet_laws api"
  shows "32 < unat p \<Longrightarrow> Inl (p, n) \<noteq> range_key api r" "128 < unat p \<Longrightarrow> Inr (p, n') \<noteq> range_key api r"
  using assms unfolding ipnet_laws_def range_key_def word_le_nat_alt
  by (auto split: IpNet.splits) (fastforce simp: not_le [symmetric])+

lemma find_map_ip_ranks:
  "find_map F (map fst (ip_ranks (V4Addr a))) =
     find_map (\<lambda>p. F (Inl (p, a AND ipv4_mask p))) (rev (map of_nat [0..<Suc 32]))"
  "find_map F (map fst (ip_ranks (V6Addr b))) =
     find_map (\<lambda>p. F (Inr (p, b AND ipv6_mask p))) (rev (map of_nat [0..<Suc 128]))"
  by (simp_all add: ip_ranks_def rev_map find_map_map comp_def del: upt_Suc)

lemma IpMatcher_groups:
  fixes api :: "('n4, 'n6) ipnet_api" and get_ranges :: "'m \<Rightarrow> ('n4, 'n6) IpNet list"
  assumes laws: "ipnet_laws api" and cs: "distinct (map fst cs)"
  defines "keys \<equiv> \<lambda>c. map (range_key api) (get_ranges (snd c))"
  obtains g4 g6 where
    "fold (\<lambda>c. fold (add_range api c) (get_ranges (snd c))) cs ([], []) = (g4, g6)"
    "prefix_invar g4" "prefix_invar g6"
    "\<And>k. prefix_group g4 k = filter (\<lambda>c. Inl k \<in> set (keys c)) cs"
    "\<And>k. prefix_group g6 k = filter (\<lambda>c. Inr k \<in> set (keys c)) cs"
proof -
  obtain g4 g6 where g: "fold (\<lambda>c. fold (add_range api c) (get_ranges (snd c))) cs ([], []) = (g4, g6)"
    by fastforce
  have "fold (\<lambda>c. fold (\<lambda>k. net_update k (push_unique_candidate c)) (keys c)) cs ([], []) = (g4, g6)"
    using g by (simp add: keys_def fold_map comp_def add_range_net_update [abs_def])
  then have "prefix_invar g4 \<and> prefix_invar g6 \<and>
      (\<forall>k. net_group (g4, g6) k = filter (\<lambda>c. k \<in> set (keys c)) cs)"
    using net_groups.collect [OF cs, of keys] by simp
  then show thesis
    using that [OF g] by (auto simp: net_group_def split: sum.splits dest: spec)
qed

lemma IpMatcher_level:
  assumes laws: "ipnet_laws api" and cs: "distinct (map fst cs)" and bn: "build_total build_next"
  shows "Option.bind (IpMatcher_build api get_ranges build_next cs) (\<lambda>l. IpMatcher_select_next l ip) =
    build_next (best_filter (\<lambda>c. case iter_max (map (range_score api ip) (get_ranges (snd c))) of
      Some r \<Rightarrow> r | None \<Rightarrow> NoRule) cs)"
proof (cases "list_ex (\<lambda>c. get_ranges (snd c) \<noteq> []) cs")
  case False
  then have "\<not> list_ex (\<lambda>c. map (range_key api) (get_ranges (snd c)) \<noteq> []) cs" by (simp add: list_ex_iff)
  then have "best_filter (\<lambda>c. case iter_max (map (range_score api ip) (get_ranges (snd c))) of
      Some r \<Rightarrow> r | None \<Rightarrow> NoRule) cs = cs"
    unfolding matches_ip_ranked [OF laws] by (rule best_filter_keyless)
  moreover have "Option.bind (IpMatcher_build api get_ranges build_next cs) (\<lambda>l. IpMatcher_select_next l ip) =
      build_next cs"
    using False build_totalD(1) [OF bn] by (simp add: IpMatcher_build_def list_ex_snd bind_wildcard_only)
  ultimately show ?thesis by (simp only:)
next
  case True
  let ?keys = "\<lambda>c. map (range_key api) (get_ranges (snd c))"
  let ?F = "\<lambda>k. build_next (filter (\<lambda>c. k \<in> set (?keys c)) cs)"
  let ?wildcard = "build_next (filter (\<lambda>c. get_ranges (snd c) = []) cs)"
  obtain g4 g6 where g: "fold (\<lambda>c. fold (add_range api c) (get_ranges (snd c))) cs ([], []) = (g4, g6)"
    and inv: "prefix_invar g4" "prefix_invar g6"
    and grp4: "\<And>k. prefix_group g4 k = filter (\<lambda>c. Inl k \<in> set (?keys c)) cs"
    and grp6: "\<And>k. prefix_group g6 k = filter (\<lambda>c. Inr k \<in> set (?keys c)) cs"
    using IpMatcher_groups [OF laws cs] by blast
  have out4: "prefix_group g4 (p, a) = []" if "32 < unat p" for p a
    unfolding grp4 using range_key_bound [OF laws] that by (auto simp: filter_empty_conv)
  have out6: "prefix_group g6 (p, a) = []" if "128 < unat p" for p a
    unfolding grp6 using range_key_bound [OF laws] that by (auto simp: filter_empty_conv)
  let ?levels = "\<lambda>groups mk. List.map_filter (\<lambda>(p, net_map).
       let prefixes = build_group_map net_map build_next
       in if prefixes \<noteq> [] then Some (mk p prefixes) else None) (rev groups)"
  have built: "IpMatcher_build api get_ranges build_next cs =
      Some (IpWithPrefixes (?levels g4 (\<lambda>p prefixes. \<lparr>v4_mask = ipv4_mask p, v4_prefixes = prefixes\<rparr>))
        (?levels g6 (\<lambda>p prefixes. \<lparr>v6_mask = ipv6_mask p, v6_prefixes = prefixes\<rparr>)) ?wildcard)"
    using True by (auto simp: IpMatcher_build_def list_ex_snd fold_split_keyless g)
  have "Option.bind (IpMatcher_build api get_ranges build_next cs) (\<lambda>l. IpMatcher_select_next l ip) =
      opt_or (find_map ?F (map fst (ip_ranks ip))) ?wildcard"
  proof (cases ip)
    case (V4Addr a)
    show ?thesis
      unfolding V4Addr find_map_ip_ranks grp4 [symmetric] built
      by (simp add: prefix_levels [where n = 32 and f = "\<lambda>p. a AND ipv4_mask p"] inv out4
          build_totalD(1) [OF bn] del: upt_Suc)
  next
    case (V6Addr a)
    show ?thesis
      unfolding V6Addr find_map_ip_ranks grp6 [symmetric] built
      by (simp add: prefix_levels [where n = 128 and f = "\<lambda>p. a AND ipv6_mask p"] inv out6
          build_totalD(1) [OF bn] del: upt_Suc)
  qed
  also have "\<dots> = build_next (best_filter (\<lambda>c. ranked (ip_ranks ip) (?keys c)) cs)"
    using build_best_filter [OF sorted_ip_ranks bn, of ip ?keys cs] by simp
  finally show ?thesis by (simp add: matches_ip_ranked [OF laws])
qed

text \<open>Level 3: the exact name first, then the suffixes from the longest to the shortest.\<close>

definition name_key :: "ServerNameMatch \<Rightarrow> bool \<times> str" where
  "name_key sn = (snm_match_subdomains sn, snm_name sn)"

definition name_ranks :: "str \<Rightarrow> ((bool \<times> str) \<times> nat) list" where
  "name_ranks s = ((False, s), 0) # map (\<lambda>i. ((True, drop i s), dots (take (Suc i) s))) (dot_indices s)"

lemma add_server_name_update:
  "add_server_name c sn = name_update (name_key sn) (push_unique_candidate c)"
  by (auto simp: fun_eq_iff add_server_name_def name_update_def name_key_def)

lemma in_dot_indices: "i \<in> set (dot_indices s) \<longleftrightarrow> i < length s \<and> s ! i = CHR ''.''"
  by (auto simp: dot_indices_def)

lemma dots_append: "dots (s @ t) = dots s + dots t"
  by (simp add: dots_def)

lemma dots_take_Suc: "i < length s \<Longrightarrow> dots (take (Suc i) s) = dots (take i s) + (if s ! i = CHR ''.'' then 1 else 0)"
  by (simp add: take_Suc_conv_app_nth dots_append) (simp add: dots_def)

lemma dots_take_mono: "i \<le> j \<Longrightarrow> dots (take i s) \<le> dots (take j s)"
  by (metis dots_append le_add1 le_add_diff_inverse take_add)

lemma dots_le: "dots s \<le> length s"
  by (simp add: dots_def)

lemma sorted_name_ranks: "sorted_wrt (<) (map snd (name_ranks s))"
proof -
  have pos: "0 < dots (take (Suc i) s)" if "i \<in> set (dot_indices s)" for i
    using that by (simp add: in_dot_indices dots_take_Suc)
  have less: "dots (take (Suc i) s) < dots (take (Suc j) s)"
    if "i < j" "j \<in> set (dot_indices s)" for i j
    using that dots_take_mono [of "Suc i" j s] by (simp add: in_dot_indices dots_take_Suc)
  have "sorted_wrt (<) (dot_indices s)" by (simp add: dot_indices_def sorted_wrt_filter)
  then have "sorted_wrt (\<lambda>i j. dots (take (Suc i) s) < dots (take (Suc j) s)) (dot_indices s)"
    using less by (auto intro: sorted_wrt_mono_rel [rotated])
  then show ?thesis using pos by (simp add: name_ranks_def sorted_wrt_map comp_def)
qed

lemma map_of_suffixes:
  assumes "ends_with s name" "name \<noteq> []" "hd name = CHR ''.''"
  defines "i \<equiv> length s - length name"
  shows "map_of (map (\<lambda>i. ((True, drop i s), f i)) (dot_indices s)) (True, name) = Some (f i)"
proof (rule map_of_is_SomeI)
  have "inj_on (\<lambda>i. (True, drop i s)) (set (dot_indices s))"
    by (auto simp: inj_on_def in_dot_indices dest!: arg_cong [where f = length])
  then show "distinct (map fst (map (\<lambda>i. ((True, drop i s), f i)) (dot_indices s)))"
    by (simp add: comp_def distinct_map) (simp add: dot_indices_def)
  have "i < length s" "drop i s = name"
    using assms(1,2) by (auto simp: i_def ends_with_def intro!: diff_less)
  moreover from this have "s ! i = CHR ''.''" using assms(3) by (metis hd_drop_conv_nth)
  ultimately show "((True, name), f i) \<in> set (map (\<lambda>i. ((True, drop i s), f i)) (dot_indices s))"
    by (auto simp: in_dot_indices)
qed

lemma map_of_suffixes_None:
  assumes "\<not> ends_with s name"
  shows "map_of (map (\<lambda>i. ((True, drop i s), f i)) (dot_indices s)) (True, name) = None"
  using assms by (auto simp: map_of_eq_None_iff in_dot_indices ends_with_def)

lemma server_name_score_key:
  assumes "server_name_ok sn" and "length s < 2 ^ 32"
  shows "server_name_score s sn = key_score (name_ranks s) (name_key sn)"
proof (cases "snm_match_subdomains sn")
  case False
  then show ?thesis
    by (auto simp: server_name_score_def key_score_def name_ranks_def name_key_def map_of_eq_None_iff
        split: option.splits dest!: map_of_SomeD)
next
  case True
  then have name: "snm_name sn \<noteq> []" "hd (snm_name sn) = CHR ''.''"
    using assms(1) by (auto simp: server_name_ok_def)
  let ?i = "length s - length (snm_name sn)"
  have "dots (take (Suc ?i) s) < 2 ^ 32"
    using dots_le [of "take (Suc ?i) s"] assms(2) by simp
  moreover have "?i < length s" if "ends_with s (snm_name sn)"
    using that name(1) by (auto simp: ends_with_def intro!: diff_less)
  ultimately show ?thesis
    using True name by (auto simp: server_name_score_def key_score_def name_ranks_def name_key_def Let_def
        map_of_suffixes map_of_suffixes_None)
qed

lemma matches_server_name_ranked:
  assumes "rule_ok m" and "length s < 2 ^ 32"
  shows "matches_server_name m s = ranked (name_ranks s) (map name_key (server_names m))"
proof -
  have "map (server_name_score s) (server_names m) =
      map (key_score (name_ranks s)) (map name_key (server_names m))"
    using assms by (auto simp: rule_ok_def list_all_iff server_name_score_key)
  then show ?thesis
    unfolding matches_server_name_def by (simp only: iter_max_key_score [OF sorted_name_ranks])
qed

lemma SourceIpMatcher_total: "build_total (SourceIpMatcher_build_source api)"
  by (simp add: SourceIpMatcher_build_source_def IpMatcher_total SourcePortMatcher_total)

lemma ServerNameMatcher_total: "build_total (ServerNameMatcher_build api)"
  using SourceIpMatcher_total [of api]
  by (auto simp: build_total_def ServerNameMatcher_build_def split: prod.splits)

lemma ServerName_groups:
  fixes cs :: "('n4, 'n6) Candidate list"
  assumes cs: "distinct (map fst cs)"
  defines "keys \<equiv> \<lambda>c :: ('n4, 'n6) Candidate. map name_key (server_names (snd c))"
  obtains exact wild where
    "fold (\<lambda>c. fold (add_server_name c) (server_names (snd c))) cs ([], []) = (exact, wild)"
    "distinct (map fst exact)" "distinct (map fst wild)"
    "\<And>s. group_of exact s = filter (\<lambda>c. (False, s) \<in> set (keys c)) cs"
    "\<And>s. group_of wild s = filter (\<lambda>c. (True, s) \<in> set (keys c)) cs"
proof -
  obtain exact wild where
    g: "fold (\<lambda>c. fold (add_server_name c) (server_names (snd c))) cs ([], []) = (exact, wild)"
    by fastforce
  have "fold (\<lambda>c. fold (\<lambda>k. name_update k (push_unique_candidate c)) (keys c)) cs ([], []) = (exact, wild)"
    using g by (simp add: keys_def fold_map comp_def add_server_name_update [abs_def])
  then have inv: "distinct (map fst exact)" "distinct (map fst wild)"
    and grp: "\<And>b s. name_group (exact, wild) (b, s) = filter (\<lambda>c. (b, s) \<in> set (keys c)) cs"
    using name_groups.collect [OF cs, of keys] by simp_all
  show thesis
    using that [OF g inv] grp [of False] grp [of True] by (simp add: name_group_def)
qed

lemma ServerNameMatcher_select_rules:
  "ServerNameMatcher_select_next (ServerNameWithRules exact wild fallback) s =
     opt_or (map_of exact s)
       (opt_or (find_map (\<lambda>i. map_of wild (drop i s)) (dot_indices s)) fallback)"
  using find_map_None_iff [of "\<lambda>i. map_of wild (drop i s)" "dot_indices s"]
  by (auto simp: opt_or_def split: option.splits)

lemma ServerNameMatcher_level:
  assumes ok: "candidates_ok api cs" and s: "length s < 2 ^ 32"
  shows "Option.bind (ServerNameMatcher_build api cs) (\<lambda>l. ServerNameMatcher_select_next l s) =
    SourceIpMatcher_build_source api (best_filter (\<lambda>c. matches_server_name (snd c) s) cs)"
proof -
  let ?keys = "\<lambda>c. map name_key (server_names (snd c))"
  let ?bn = "SourceIpMatcher_build_source api"
  have cs: "distinct (map fst cs)" using ok by (simp add: candidates_ok_def)
  have "best_filter (\<lambda>c. matches_server_name (snd c) s) cs =
      best_filter (\<lambda>c. ranked (name_ranks s) (?keys c)) cs"
    using ok s by (intro best_filter_cong matches_server_name_ranked) (auto simp: candidates_ok_def list_all_iff)
  moreover have "Option.bind (ServerNameMatcher_build api cs) (\<lambda>l. ServerNameMatcher_select_next l s) =
      ?bn (best_filter (\<lambda>c. ranked (name_ranks s) (?keys c)) cs)"
  proof (cases "list_ex (\<lambda>c. server_names (snd c) \<noteq> []) cs")
    case False
    then have "best_filter (\<lambda>c. ranked (name_ranks s) (?keys c)) cs = cs"
      by (intro best_filter_keyless) (simp add: list_ex_iff)
    moreover have "Option.bind (ServerNameMatcher_build api cs) (\<lambda>l. ServerNameMatcher_select_next l s) = ?bn cs"
      using False build_totalD(1) [OF SourceIpMatcher_total [of api]]
      by (simp add: ServerNameMatcher_build_def list_ex_snd bind_wildcard_only)
    ultimately show ?thesis by (simp only:)
  next
    case True
    obtain exact wild where
      g: "fold (\<lambda>c. fold (add_server_name c) (server_names (snd c))) cs ([], []) = (exact, wild)"
      and inv: "distinct (map fst exact)" "distinct (map fst wild)"
      and grp: "\<And>s. group_of exact s = filter (\<lambda>c. (False, s) \<in> set (?keys c)) cs"
        "\<And>s. group_of wild s = filter (\<lambda>c. (True, s) \<in> set (?keys c)) cs"
      using ServerName_groups [OF cs] by blast
    let ?fallback = "?bn (filter (\<lambda>c. server_names (snd c) = []) cs)"
    have "ServerNameMatcher_build api cs =
        Some (ServerNameWithRules (build_group_map exact ?bn) (build_group_map wild ?bn) ?fallback)"
      using True by (auto simp: ServerNameMatcher_build_def list_ex_snd fold_split_keyless g)
    then have "Option.bind (ServerNameMatcher_build api cs) (\<lambda>l. ServerNameMatcher_select_next l s) =
        opt_or (find_map (\<lambda>k. ?bn (filter (\<lambda>c. k \<in> set (?keys c)) cs)) (map fst (name_ranks s))) ?fallback"
      by (simp del: ServerNameMatcher_select_next.simps add: ServerNameMatcher_select_rules
          map_of_build_group_map inv build_totalD(1) [OF SourceIpMatcher_total [of api]] grp
          name_ranks_def comp_def find_map_map opt_or_assoc)
    also have "\<dots> = ?bn (best_filter (\<lambda>c. ranked (name_ranks s) (?keys c)) cs)"
      using build_best_filter [OF sorted_name_ranks [of s] SourceIpMatcher_total [of api], of ?keys cs] by simp
    finally show ?thesis .
  qed
  ultimately show ?thesis by simp
qed

text \<open>Level 1.\<close>

lemma matches_destination_port_ranked:
  "matches_destination_port m port = ranked [(port, 0)] (case destination_port m of None \<Rightarrow> [] | Some p \<Rightarrow> [p])"
  by (auto simp: matches_destination_port_def split: option.splits)

lemma DestIpMatcher_total: "build_total (DestIpMatcher_build_dest api)"
  by (simp add: DestIpMatcher_build_dest_def IpMatcher_total ServerNameMatcher_total)

lemma DestPort_groups_from:
  assumes "distinct (map fst g)"
  obtains groups where
    "fold (\<lambda>candidate (groups, wildcard).
        case destination_port (snd candidate) of
          Some port \<Rightarrow> (entry_update [] (\<lambda>grp. grp @ [candidate]) port groups, wildcard)
        | None \<Rightarrow> (groups, wildcard @ [candidate])) cs (g, w) =
      (groups, w @ filter (\<lambda>c. destination_port (snd c) = None) cs)"
    "distinct (map fst groups)"
    "\<And>port. group_of groups port = group_of g port @ filter (\<lambda>c. destination_port (snd c) = Some port) cs"
  using assms
proof (induction cs arbitrary: g w thesis)
  case (Cons c cs)
  show ?case
  proof (cases "destination_port (snd c)")
    case None
    then show ?thesis
      using Cons.IH [OF _ Cons.prems(2), of "w @ [c]" thesis] Cons.prems(1) by (auto simp: group_of_def)
  next
    case (Some port)
    have "distinct (map fst (entry_update [] (\<lambda>grp. grp @ [c]) port g))"
      using Cons.prems(2) by (rule distinct_entry_update)
    then obtain groups where
      "fold (\<lambda>candidate (groups, wildcard).
        case destination_port (snd candidate) of
          Some port \<Rightarrow> (entry_update [] (\<lambda>grp. grp @ [candidate]) port groups, wildcard)
        | None \<Rightarrow> (groups, wildcard @ [candidate])) cs (entry_update [] (\<lambda>grp. grp @ [c]) port g, w) =
        (groups, w @ filter (\<lambda>c. destination_port (snd c) = None) cs)"
      "distinct (map fst groups)"
      "\<And>p. group_of groups p = group_of (entry_update [] (\<lambda>grp. grp @ [c]) port g) p @
         filter (\<lambda>c. destination_port (snd c) = Some p) cs"
      using Cons.IH [of "entry_update [] (\<lambda>grp. grp @ [c]) port g"] by blast
    then show ?thesis
      using Cons.prems(1) [of groups] Some by (simp add: group_of_entry_update)
  qed
qed auto

lemma DestPortMatcher_level:
  "Option.bind (DestPortMatcher_build api cs) (\<lambda>l. DestPortMatcher_select_next l port) =
    DestIpMatcher_build_dest api (best_filter (\<lambda>c. matches_destination_port (snd c) port) cs)"
proof -
  let ?keys = "\<lambda>c. case destination_port (snd c) of None \<Rightarrow> [] | Some p \<Rightarrow> [p]"
  let ?bn = "DestIpMatcher_build_dest api"
  have keys: "?keys c = [] \<longleftrightarrow> destination_port (snd c) = None"
      "p \<in> set (?keys c) \<longleftrightarrow> destination_port (snd c) = Some p" for c p
    by (auto split: option.splits)
  show ?thesis
  proof (cases "list_ex (\<lambda>c. destination_port (snd c) \<noteq> None) cs")
    case False
    then have "\<not> list_ex (\<lambda>c. ?keys c \<noteq> []) cs" by (simp only: keys not_False_eq_True)
    then have "best_filter (\<lambda>c. matches_destination_port (snd c) port) cs = cs"
      unfolding matches_destination_port_ranked by (rule best_filter_keyless)
    moreover have "Option.bind (DestPortMatcher_build api cs) (\<lambda>l. DestPortMatcher_select_next l port) = ?bn cs"
      using False build_totalD(1) [OF DestIpMatcher_total [of api]]
      by (simp add: DestPortMatcher_build_def list_ex_snd bind_wildcard_only)
    ultimately show ?thesis by (simp only:)
  next
    case True
    obtain groups where g:
      "fold (\<lambda>candidate (groups, wildcard).
        case destination_port (snd candidate) of
          Some port \<Rightarrow> (entry_update [] (\<lambda>grp. grp @ [candidate]) port groups, wildcard)
        | None \<Rightarrow> (groups, wildcard @ [candidate])) cs ([], []) =
        (groups, filter (\<lambda>c. destination_port (snd c) = None) cs)"
      and groups: "distinct (map fst groups)"
        "\<And>port. group_of groups port = filter (\<lambda>c. destination_port (snd c) = Some port) cs"
      using DestPort_groups_from [of "[]" cs "[]"] by auto
    have "Option.bind (DestPortMatcher_build api cs) (\<lambda>l. DestPortMatcher_select_next l port) =
        opt_or (?bn (filter (\<lambda>c. destination_port (snd c) = Some port) cs))
          (?bn (filter (\<lambda>c. destination_port (snd c) = None) cs))"
      using True
      by (auto simp: DestPortMatcher_build_def list_ex_snd g groups map_of_build_group_map
          build_totalD(1) [OF DestIpMatcher_total [of api]])
    also have "\<dots> = ?bn (best_filter (\<lambda>c. ranked [(port, 0)] (?keys c)) cs)"
      using build_best_filter [OF _ DestIpMatcher_total [of api], of "[(port, 0)]" ?keys cs]
      by (simp only: keys) simp
    finally show ?thesis by (simp only: matches_destination_port_ranked)
  qed
qed

section \<open>The tree computes the five best-match steps\<close>

interpretation dest_port: match_level "candidates_ok api" "\<lambda>_. True"
  "\<lambda>c. matches_destination_port (snd c)"
  "DestPortMatcher_build api" DestPortMatcher_select_next "DestIpMatcher_build_dest api" for api
  by unfold_locales (simp_all add: candidates_ok_filter DestPortMatcher_level)

interpretation dest_ip: match_level "candidates_ok api" "\<lambda>_. True"
  "\<lambda>c. matches_destination_ip api (snd c)"
  "DestIpMatcher_build_dest api" IpMatcher_select_next "ServerNameMatcher_build api" for api
  by unfold_locales
    (erule candidates_ok_filter, simp add: DestIpMatcher_build_dest_def matches_destination_ip_def
      candidates_okD IpMatcher_level ServerNameMatcher_total)

interpretation server_name: match_level "candidates_ok api" "\<lambda>s. length s < 2 ^ 32"
  "\<lambda>c. matches_server_name (snd c)"
  "ServerNameMatcher_build api" ServerNameMatcher_select_next "SourceIpMatcher_build_source api" for api
  by unfold_locales (simp_all add: candidates_ok_filter ServerNameMatcher_level)

interpretation source_ip: match_level "candidates_ok api" "\<lambda>_. True"
  "\<lambda>c. matches_source_ip api (snd c)"
  "SourceIpMatcher_build_source api" IpMatcher_select_next SourcePortMatcher_build for api
  by unfold_locales
    (erule candidates_ok_filter, simp add: SourceIpMatcher_build_source_def matches_source_ip_def
      candidates_okD IpMatcher_level SourcePortMatcher_total)

interpretation source_port: match_level "candidates_ok api" "\<lambda>_. True"
  "\<lambda>c. matches_source_port (snd c)"
  SourcePortMatcher_build SourcePortMatcher_select_next MatchLeaf_from_candidates for api
  by unfold_locales (erule candidates_ok_filter, simp add: candidates_okD SourcePortMatcher_level)

definition best_candidates ::
  "('n4, 'n6) ipnet_api \<Rightarrow> ConnectionMetadata \<Rightarrow> str \<Rightarrow> ('n4, 'n6) Candidate list
   \<Rightarrow> ('n4, 'n6) Candidate list" where
  "best_candidates api connection s cs =
     best_filter (\<lambda>c. matches_source_port (snd c) (sa_port (peer_address connection)))
      (best_filter (\<lambda>c. matches_source_ip api (snd c) (sa_ip (peer_address connection)))
       (best_filter (\<lambda>c. matches_server_name (snd c) s)
        (best_filter (\<lambda>c. matches_destination_ip api (snd c) (sa_ip (local_address connection)))
         (best_filter (\<lambda>c. matches_destination_port (snd c) (sa_port (local_address connection))) cs))))"

lemma FilterChainMatcher_select_best:
  assumes "candidates_ok api (enumerate 0 rules)"
    and "length (case server_name of Some s \<Rightarrow> s | None \<Rightarrow> []) < 2 ^ 32"
  shows "FilterChainMatcher_select (FilterChainMatcher_new api rules) connection server_name =
    MatchLeaf_from_candidates (best_candidates api connection
      (case server_name of Some s \<Rightarrow> s | None \<Rightarrow> []) (enumerate 0 rules))"
  using assms
  by (simp add: FilterChainMatcher_select_def FilterChainMatcher_new_def best_candidates_def
      dest_port.descend dest_ip.descend server_name.descend source_ip.descend source_port.level [of api]
      dest_port.ok_best)

section \<open>So does the scan\<close>

definition still_possible :: "bool list \<Rightarrow> nat \<Rightarrow> 'm list \<Rightarrow> (nat \<times> 'm) list" where
  "still_possible possible n ms = map snd (filter fst (zip possible (enumerate n ms)))"

lemma still_possible_step:
  assumes "length possible = length scratch" "length scratch = length ms"
  shows "still_possible (map2 (\<lambda>result p. if result \<noteq> best \<or> result = FailedMatch then False else p)
      (map2 (\<lambda>(p, old) m. if p then f m x else old) (zip possible scratch) ms) possible) n ms =
    filter (\<lambda>c. f (snd c) x = best \<and> f (snd c) x \<noteq> FailedMatch) (still_possible possible n ms)"
  using assms
proof (induction possible scratch ms arbitrary: n rule: list_induct3)
  case (Cons p ps r rs m ms)
  then show ?case by (auto simp: still_possible_def)
qed (auto simp: still_possible_def)

lemma scores_still_possible:
  "length possible = length ms \<Longrightarrow>
     map (\<lambda>(_, m). f m x) (filter fst (zip possible ms)) =
     map (\<lambda>c. f (snd c) x) (still_possible possible n ms)"
  by (induction possible ms arbitrary: n rule: list_induct2) (auto simp: still_possible_def)

lemma match_subitem_best:
  assumes "length (fst state) = length ms" "length (snd state) = length ms"
  shows "length (fst (match_subitem f x ms state)) = length ms"
    and "length (snd (match_subitem f x ms state)) = length ms"
    and "still_possible (snd (match_subitem f x ms state)) n ms =
      best_filter (\<lambda>c. f (snd c) x) (still_possible (snd state) n ms)"
proof -
  obtain scratch possible where state: "state = (scratch, possible)" by fastforce
  show "length (fst (match_subitem f x ms state)) = length ms"
    and "length (snd (match_subitem f x ms state)) = length ms"
    using assms by (simp_all add: state match_subitem_def Let_def)
  have "length possible = length scratch" "length scratch = length ms"
    using assms by (simp_all add: state)
  then show "still_possible (snd (match_subitem f x ms state)) n ms =
      best_filter (\<lambda>c. f (snd c) x) (still_possible (snd state) n ms)"
    unfolding state match_subitem_def Let_def prod.case snd_conv best_filter_def
    by (subst still_possible_step) (simp_all only: scores_still_possible [where n = n])
qed

lemma map_snd_possible:
  "length possible = length ms \<Longrightarrow> length ms = length vs \<Longrightarrow>
     map snd (filter fst (zip possible vs)) =
     map (\<lambda>c. (us @ vs) ! fst c) (still_possible possible (length us) ms)"
proof (induction possible ms vs arbitrary: us rule: list_induct3)
  case (Cons p ps m ms v vs)
  show ?case
    using Cons.IH [of "us @ [v]"] by (auto simp: still_possible_def nth_append)
qed (simp add: still_possible_def)

lemma still_possible_all: "still_possible (replicate (length ms) True) n ms = enumerate n ms"
  by (induction ms arbitrary: n) (auto simp: still_possible_def)

lemma reference_select_best:
  "reference_select api entries connection server_name =
     (case best_candidates api connection (case server_name of Some s \<Rightarrow> s | None \<Rightarrow> [])
        (enumerate 0 (map fst entries)) of
        [] \<Rightarrow> Inr None
      | [(i, _)] \<Rightarrow> Inr (Some (map snd entries ! i))
      | _ \<Rightarrow> Inl MultipleFilterChains)"
proof -
  let ?ms = "map fst entries"
  define s0 where "s0 = (replicate (length entries) NoRule, replicate (length entries) True)"
  define s1 where "s1 = match_subitem matches_destination_port (sa_port (local_address connection)) ?ms s0"
  define s2 where "s2 = match_subitem (matches_destination_ip api) (sa_ip (local_address connection)) ?ms s1"
  define s3 where "s3 = match_subitem matches_server_name
    (case server_name of Some s \<Rightarrow> s | None \<Rightarrow> []) ?ms s2"
  define s4 where "s4 = match_subitem (matches_source_ip api) (sa_ip (peer_address connection)) ?ms s3"
  define s5 where "s5 = match_subitem matches_source_port (sa_port (peer_address connection)) ?ms s4"
  have len: "length (fst s0) = length ?ms" "length (snd s0) = length ?ms"
    by (simp_all add: s0_def)
  have best: "still_possible (snd s5) 0 ?ms = best_candidates api connection
      (case server_name of Some s \<Rightarrow> s | None \<Rightarrow> []) (enumerate 0 ?ms)"
    using still_possible_all [of ?ms 0] len
    by (simp add: s1_def s2_def s3_def s4_def s5_def match_subitem_best best_candidates_def)
      (simp add: s0_def)
  have "length (snd s5) = length ?ms"
    using len by (simp add: s1_def s2_def s3_def s4_def s5_def match_subitem_best)
  then have "map snd (filter fst (zip (snd s5) (map snd entries))) =
      map (\<lambda>c. map snd entries ! fst c) (still_possible (snd s5) 0 ?ms)"
    using map_snd_possible [of "snd s5" ?ms "map snd entries" "[]"] by simp
  then show ?thesis
    unfolding reference_select_def best [symmetric]
    by (auto simp flip: s0_def s1_def s2_def s3_def s4_def s5_def simp: Let_def split: list.splits)
qed

section \<open>Properties of filter chain selection\<close>

lemma candidates_ok_enumerate:
  "ipnet_laws api \<Longrightarrow> list_all rule_ok rules \<Longrightarrow> candidates_ok api (enumerate 0 rules)"
  by (auto simp: candidates_ok_def list_all_iff in_set_enumerate_eq)

lemma FilterChains_select_from_iter:
  assumes "ipnet_laws api" and "list_all rule_ok (map fst entries)"
    and "length (case server_name of Some s \<Rightarrow> s | None \<Rightarrow> []) < 2 ^ 32"
  shows "FilterChains_select (FilterChains_from_iter api entries) connection server_name =
    (case MatchLeaf_from_candidates (best_candidates api connection
        (case server_name of Some s \<Rightarrow> s | None \<Rightarrow> []) (enumerate 0 (map fst entries))) of
       Some (Single idx) \<Rightarrow> Inr (slice_get (map snd entries) idx)
     | Some Multiple \<Rightarrow> Inl MultipleFilterChains
     | None \<Rightarrow> Inr None)"
  using FilterChainMatcher_select_best [OF candidates_ok_enumerate [OF assms(1,2)] assms(3)]
  by (simp add: FilterChains_select_def FilterChains_from_iter_def split: option.split MatchLeaf.split)

lemma in_best_filterD: "c \<in> set (best_filter f cs) \<Longrightarrow> c \<in> set cs \<and> f c \<noteq> FailedMatch"
  by (simp add: best_filter_eq)

lemma best_candidates_match:
  assumes "(i, m) \<in> set (best_candidates api connection s cs)"
  shows "(i, m) \<in> set cs"
    and "matches_destination_port m (sa_port (local_address connection)) \<noteq> FailedMatch"
    and "matches_destination_ip api m (sa_ip (local_address connection)) \<noteq> FailedMatch"
    and "matches_server_name m s \<noteq> FailedMatch"
    and "matches_source_ip api m (sa_ip (peer_address connection)) \<noteq> FailedMatch"
    and "matches_source_port m (sa_port (peer_address connection)) \<noteq> FailedMatch"
  using assms unfolding best_candidates_def by (force dest!: in_best_filterD)+

text \<open>C1: the compiled five-level tree selects exactly what the linear scan over all rules selects,
  for every connection and server name, including the cases where no chain or several chains match.
  Assumed: the documented behaviour of \<^verbatim>\<open>ipnet\<close>, and that wildcard server names start
  with a dot, as \<^verbatim>\<open>ServerNameMatch::from_str\<close> guarantees.\<close>

theorem filter_chain_select_equiv:
  assumes "ipnet_laws api" and "list_all rule_ok (map fst entries)"
    and "length (case server_name of Some s \<Rightarrow> s | None \<Rightarrow> []) < 2 ^ 32"
  shows "FilterChains_select (FilterChains_from_iter api entries) connection server_name =
    reference_select api entries connection server_name"
proof -
  let ?best = "best_candidates api connection (case server_name of Some s \<Rightarrow> s | None \<Rightarrow> [])
    (enumerate 0 (map fst entries))"
  have bound: "i < length entries" if "(i, m) \<in> set ?best" for i m
    using best_candidates_match(1) [OF that] by (simp add: in_set_enumerate_eq)
  consider "?best = []" | i m where "?best = [(i, m)]" | c d cs where "?best = c # d # cs"
    by (metis neq_Nil_conv surj_pair)
  then show ?thesis
  proof cases
    case 2
    then have "i < length entries" using bound [of i m] by simp
    with 2 show ?thesis
      unfolding FilterChains_select_from_iter [OF assms] reference_select_best
      by (simp add: MatchLeaf_from_candidates_def slice_get_def)
  qed (simp_all add: FilterChains_select_from_iter [OF assms] reference_select_best
      MatchLeaf_from_candidates_def split: prod.split)
qed

text \<open>C3: a chain that is selected really matches the connection: none of the five criteria of its
  rule fails.\<close>

theorem filter_chain_selected_matches:
  assumes "ipnet_laws api" and "list_all rule_ok (map fst entries)" and "length s < 2 ^ 32"
    and "FilterChains_select (FilterChains_from_iter api entries) connection (Some s) = Inr (Some chain)"
  shows "\<exists>m. (m, chain) \<in> set entries \<and>
    matches_destination_port m (sa_port (local_address connection)) \<noteq> FailedMatch \<and>
    matches_destination_ip api m (sa_ip (local_address connection)) \<noteq> FailedMatch \<and>
    matches_server_name m s \<noteq> FailedMatch \<and>
    matches_source_ip api m (sa_ip (peer_address connection)) \<noteq> FailedMatch \<and>
    matches_source_port m (sa_port (peer_address connection)) \<noteq> FailedMatch"
proof -
  let ?best = "best_candidates api connection s (enumerate 0 (map fst entries))"
  obtain i where leaf: "MatchLeaf_from_candidates ?best = Some (Single i)"
    and chain: "slice_get (map snd entries) i = Some chain"
    using assms(3,4) FilterChains_select_from_iter [OF assms(1,2), of "Some s" connection]
    by (simp split: option.splits MatchLeaf.splits)
  from leaf obtain m where "?best = [(i, m)]"
    by (simp add: MatchLeaf_from_candidates_def split: list.splits prod.splits)
  then have best: "(i, m) \<in> set ?best" by simp
  have "i < length entries" "m = map fst entries ! i"
    using best_candidates_match(1) [OF best] by (auto simp: in_set_enumerate_eq)
  then have "(m, chain) \<in> set entries"
    using chain by (metis length_map nth_map nth_mem prod.collapse slice_get_Some_iff)
  with best_candidates_match [OF best] show ?thesis by blast
qed

text \<open>C39: every server name that the configuration parser accepts is well formed for the tree: a
  wildcard name keeps its leading dot. Lower-casing is assumed to leave an ASCII dot in place.\<close>

theorem server_name_parse_ok:
  assumes "\<And>t. to_lowercase (CHR ''.'' # t) = CHR ''.'' # to_lowercase t"
    and "ServerNameMatch_from_str to_lowercase s = Some sn"
  shows "server_name_ok sn"
proof (cases s)
  case Nil
  with assms(2) show ?thesis
    by (auto simp: ServerNameMatch_from_str_def server_name_ok_def)
next
  case (Cons c rest)
  show ?thesis
  proof (cases "c = CHR ''*'' \<and> rest \<noteq> [] \<and> hd rest = CHR ''.''")
    case True
    then obtain t where "rest = CHR ''.'' # t" by (cases rest) auto
    with assms True Cons show ?thesis
      by (auto simp: ServerNameMatch_from_str_def server_name_ok_def split: if_splits)
  next
    case False
    with assms(2) Cons show ?thesis
      by (auto simp: ServerNameMatch_from_str_def server_name_ok_def split: if_splits)
  qed
qed

lemma collect_results_Inr:
  "collect_results rs = Inr us \<Longrightarrow> rs = map Inr us"
  by (induction rs arbitrary: us rule: collect_results.induct)
    (auto simp: map_sum_def split: sum.splits)

text \<open>converting the chains of a collection keeps the selection: the converted collection
  selects the conversion of what the original one selects.\<close>

theorem filter_chain_try_map_select:
  assumes "FilterChains_try_map f fc = Inr fc'"
  shows "FilterChains_select fc' connection server_name =
    (case FilterChains_select fc connection server_name of
       Inl e \<Rightarrow> Inl e
     | Inr None \<Rightarrow> Inr None
     | Inr (Some t) \<Rightarrow> (case f t of Inr u \<Rightarrow> Inr (Some u) | Inl _ \<Rightarrow> Inr None))"
proof -
  obtain chains where ok: "collect_results (map f (fc_chains fc)) = Inr chains"
    and fc': "fc_matcher fc' = fc_matcher fc" "fc_chains fc' = chains"
    using assms by (auto simp: FilterChains_try_map_def map_sum_def split: sum.splits)
  have eq: "map f (fc_chains fc) = map Inr chains" by (rule collect_results_Inr [OF ok])
  have len: "length (fc_chains fc) = length chains" using arg_cong [OF eq, of length] by simp
  have "f (fc_chains fc ! i) = Inr (chains ! i)" if "i < length chains" for i
    using arg_cong [OF eq, of "\<lambda>xs. xs ! i"] that len by simp
  then show ?thesis
    by (auto simp: FilterChains_select_def fc' slice_get_def len split: option.split MatchLeaf.split)
qed

subsection \<open>Witnesses\<close>

text \<open>Networks as pairs of an address and a prefix length, with the operations written out.\<close>

definition pair_trunc :: "(u32 \<times> u8, u128 \<times> u8) IpNet \<Rightarrow> (u32 \<times> u8, u128 \<times> u8) IpNet" where
  "pair_trunc r =
     (case r of
        V4Net (a, p) \<Rightarrow> V4Net (a AND ipv4_mask (min p 32), min p 32)
      | V6Net (a, p) \<Rightarrow> V6Net (a AND ipv6_mask (min p 128), min p 128))"

definition pair_contains :: "(u32 \<times> u8, u128 \<times> u8) IpNet \<Rightarrow> IpAddr \<Rightarrow> bool" where
  "pair_contains r ip =
     (case (pair_trunc r, ip) of
        (V4Net (n, p), V4Addr a) \<Rightarrow> a AND ipv4_mask p = n
      | (V6Net (n, p), V6Addr a) \<Rightarrow> a AND ipv6_mask p = n
      | _ \<Rightarrow> False)"

definition pair_api :: "(u32 \<times> u8, u128 \<times> u8) ipnet_api" where
  "pair_api =
     \<lparr>net_trunc = pair_trunc, net_contains = pair_contains,
      net_prefix_len = (\<lambda>r. case pair_trunc r of V4Net (_, p) \<Rightarrow> p | V6Net (_, p) \<Rightarrow> p),
      v4_prefix_len = snd, v4_network = fst, v6_prefix_len = snd, v6_network = fst\<rparr>"

lemma pair_api_laws: "ipnet_laws pair_api"
  by (auto simp: ipnet_laws_def pair_api_def pair_contains_def pair_trunc_def split: IpNet.splits)

text \<open>Three rules: one for a /24 and a wildcard name, one for a /8, one without criteria.\<close>

definition example_entries :: "((u32 \<times> u8, u128 \<times> u8) FilterChainMatch \<times> nat) list" where
  "example_entries =
     [(\<lparr>destination_port = Some 443, destination_prefix_ranges = [V4Net (0x0a000100, 24)],
        server_names = [\<lparr>snm_name = ''.example.com'', snm_match_subdomains = True\<rparr>],
        source_prefix_ranges = [], source_ports = []\<rparr>, 1),
      (\<lparr>destination_port = Some 443, destination_prefix_ranges = [V4Net (0x0a000000, 8)],
        server_names = [], source_prefix_ranges = [], source_ports = [7]\<rparr>, 2),
      (\<lparr>destination_port = None, destination_prefix_ranges = [],
        server_names = [], source_prefix_ranges = [], source_ports = []\<rparr>, 3)]"

definition example_connection :: ConnectionMetadata where
  "example_connection =
     \<lparr>peer_address = \<lparr>sa_ip = V4Addr 0x7f000001, sa_port = 7\<rparr>,
      local_address = \<lparr>sa_ip = V4Addr 0x0a000105, sa_port = 443\<rparr>\<rparr>"

lemma example_entries_ok: "list_all rule_ok (map fst example_entries)"
  by (simp add: example_entries_def rule_ok_def server_name_ok_def)

lemma example_masks: "ipv4_mask 24 = 0xffffff00" "ipv4_mask 8 = 0xff000000"
  by code_simp+

lemmas tree_eval = FilterChains_select_def FilterChains_from_iter_def FilterChainMatcher_select_def
  FilterChainMatcher_new_def DestPortMatcher_build_def DestIpMatcher_build_dest_def
  IpMatcher_build_def ServerNameMatcher_build_def SourceIpMatcher_build_source_def
  SourcePortMatcher_build_def MatchLeaf_from_candidates_def add_range_def add_server_name_def
  push_unique_candidate_def pair_api_def pair_trunc_def example_masks example_connection_def
  dot_indices_def slice_get_def upt_rec

lemma example_select:
  "FilterChains_select (FilterChains_from_iter pair_api example_entries) example_connection
     (Some ''www.example.com'') = Inr (Some 1)"
  by (simp add: tree_eval example_entries_def)

theorem filter_chain_select_equiv_witness:
  "ipnet_laws pair_api \<and> list_all rule_ok (map fst example_entries) \<and>
   reference_select pair_api example_entries example_connection (Some ''www.example.com'') = Inr (Some 1)"
  using pair_api_laws example_entries_ok example_select
    filter_chain_select_equiv [of pair_api example_entries "Some ''www.example.com''" example_connection]
  by simp

theorem filter_chain_selected_matches_witness:
  "\<exists>m. (m, 1) \<in> set example_entries \<and> matches_server_name m ''www.example.com'' \<noteq> FailedMatch"
  using filter_chain_selected_matches [OF pair_api_laws example_entries_ok _ example_select] by auto

theorem server_name_parse_ok_witness:
  "ServerNameMatch_from_str id ''*.example.com'' =
     Some \<lparr>snm_name = ''.example.com'', snm_match_subdomains = True\<rparr> \<and>
   server_name_ok \<lparr>snm_name = ''.example.com'', snm_match_subdomains = True\<rparr>"
proof -
  have parsed: "ServerNameMatch_from_str id ''*.example.com'' =
      Some \<lparr>snm_name = ''.example.com'', snm_match_subdomains = True\<rparr>"
    by (simp add: ServerNameMatch_from_str_def)
  show ?thesis using parsed server_name_parse_ok [OF _ parsed] by simp
qed

theorem filter_chain_try_map_select_witness:
  "FilterChains_select
     \<lparr>fc_matcher = FilterChainMatcher_new pair_api (map fst example_entries), fc_chains = [10, 20, 30 :: nat]\<rparr>
     example_connection (Some ''www.example.com'') = Inr (Some 10)"
proof -
  let ?f = "\<lambda>n :: nat. if n = 0 then Inl () else Inr (10 * n)"
  have "FilterChains_try_map ?f (FilterChains_from_iter pair_api example_entries) =
      Inr \<lparr>fc_matcher = FilterChainMatcher_new pair_api (map fst example_entries), fc_chains = [10, 20, 30]\<rparr>"
    by (simp add: FilterChains_try_map_def FilterChains_from_iter_def example_entries_def)
  from filter_chain_try_map_select [OF this, of example_connection "Some ''www.example.com''"]
  show ?thesis by (simp add: example_select)
qed

text \<open>
  The leading dot matters. A rule read directly from the native configuration may carry
  \<^verbatim>\<open>match_subdomains\<close> with a bare name; the scan matches it by suffix, the tree, which only
  looks up suffixes that start at a dot, never does.
\<close>

definition bare_wildcard_entries :: "((u32 \<times> u8, u128 \<times> u8) FilterChainMatch \<times> nat) list" where
  "bare_wildcard_entries =
     [(\<lparr>destination_port = None, destination_prefix_ranges = [],
        server_names = [\<lparr>snm_name = ''example.com'', snm_match_subdomains = True\<rparr>],
        source_prefix_ranges = [], source_ports = []\<rparr>, 1)]"

lemma bare_wildcard_name_diverges:
  "FilterChains_select (FilterChains_from_iter pair_api bare_wildcard_entries) example_connection
     (Some ''www.example.com'') = Inr None"
  "reference_select pair_api bare_wildcard_entries example_connection
     (Some ''www.example.com'') = Inr (Some 1)"
  by (simp add: tree_eval bare_wildcard_entries_def)
    (simp add: reference_select_def match_subitem_def bare_wildcard_entries_def example_connection_def
      matches_destination_port_def matches_destination_ip_def matches_server_name_def matches_source_ip_def
      matches_source_port_def iter_max_def server_name_score_def ends_with_def dots_def max_def less_MatchResult_def)

end
