(* ===== verification/Balancer.thy ===== *)
theory Balancer
  imports Prelude
begin

text \<open>
  The trait \<^verbatim>\<open>Balancer\<close> of \<^verbatim>\<open>clusters/balancers/mod.rs\<close> together with the
  \<^verbatim>\<open>FromIterator\<close> bound that the wrappers put on it, as an interface: what a balancer
  is built from, what a call returns and what it keeps. The lemmas about sequences of calls are
  proved here once for every balancer.
\<close>

text \<open>
  A call may update the balancer, so \<open>next_item\<close> returns the selected endpoint and the balancer
  after the call. \<open>next_items\<close> is a sequence of calls with the given hashes.
\<close>

fun next_items ::
  "('h \<Rightarrow> 'b \<Rightarrow> 'e option \<times> 'b) \<Rightarrow> 'h list \<Rightarrow> 'b \<Rightarrow> 'e option list \<times> 'b" where
  "next_items next [] b = ([], b)"
| "next_items next (h # hs) b =
     (let (r, b') = next h b; (rs, b'') = next_items next hs b' in (r # rs, b''))"

lemma length_next_items: "length (fst (next_items next hs b)) = length hs"
  by (induction hs arbitrary: b) (simp_all add: Let_def case_prod_beta)

lemma next_items_append:
  "next_items next (hs @ hs') b =
     (let (rs, b') = next_items next hs b; (rs', b'') = next_items next hs' b' in (rs @ rs', b''))"
  by (induction hs arbitrary: b) (simp_all add: Let_def case_prod_beta)

text \<open>
  The interface: \<open>members\<close> are the endpoints the balancer may return, \<open>inv\<close> is what its
  constructor establishes.
\<close>

locale balancer =
  fixes from_iter :: "'e list \<Rightarrow> 'b"
    and next_item :: "u64 option \<Rightarrow> 'b \<Rightarrow> 'e option \<times> 'b"
    and members :: "'b \<Rightarrow> 'e list"
    and inv :: "'b \<Rightarrow> bool"
  assumes from_iter_inv: "inv (from_iter es)"
    and from_iter_members: "set (members (from_iter es)) \<subseteq> set es"
    and next_item_inv: "inv b \<Longrightarrow> inv (snd (next_item h b))"
    and next_item_members: "inv b \<Longrightarrow> set (members (snd (next_item h b))) = set (members b)"
    and next_item_member: "inv b \<Longrightarrow> fst (next_item h b) = Some e \<Longrightarrow> e \<in> set (members b)"
begin

lemma next_items_keep:
  assumes "inv b"
  shows "inv (snd (next_items next_item hs b)) \<and>
    set (members (snd (next_items next_item hs b))) = set (members b)"
  using assms
proof (induction hs arbitrary: b)
  case (Cons h hs)
  then show ?case
    using next_item_inv [of b h] next_item_members [of b h] by (simp add: Let_def case_prod_beta)
qed simp

lemma next_items_members:
  assumes "inv b" "Some e \<in> set (fst (next_items next_item hs b))"
  shows "e \<in> set (members b)"
  using assms
proof (induction hs arbitrary: b)
  case (Cons h hs)
  then show ?case
    using next_item_inv [of b h] next_item_members [of b h] next_item_member [of b h e]
    by (auto simp: Let_def case_prod_beta)
qed simp

text \<open>Only endpoints the balancer was built from are ever selected.\<close>

lemma selected_from_iter:
  "Some e \<in> set (fst (next_items next_item hs (from_iter es))) \<Longrightarrow> e \<in> set es"
  using next_items_members [OF from_iter_inv] from_iter_members by blast

end

text \<open>
  A balancer that never comes back empty-handed while it has an endpoint, and that keeps at least
  one endpoint of a nonempty collection.
\<close>

locale serving_balancer = balancer +
  assumes next_item_serves: "inv b \<Longrightarrow> members b \<noteq> [] \<Longrightarrow> fst (next_item h b) \<noteq> None"
    and from_iter_serves: "es \<noteq> [] \<Longrightarrow> members (from_iter es) \<noteq> []"
begin

lemma next_items_serve:
  assumes "inv b" "members b \<noteq> []"
  shows "None \<notin> set (fst (next_items next_item hs b))"
  using assms
proof (induction hs arbitrary: b)
  case (Cons h hs)
  have "members (snd (next_item h b)) \<noteq> []"
    using next_item_members [OF Cons.prems(1), of h] Cons.prems(2) by (metis set_empty)
  then show ?case
    using Cons next_item_inv [of b h] next_item_serves [of b h]
    by (auto simp: Let_def case_prod_beta)
qed simp

lemma from_iter_next_items_serve:
  "es \<noteq> [] \<Longrightarrow> None \<notin> set (fst (next_items next_item hs (from_iter es)))"
  using next_items_serve [OF from_iter_inv] from_iter_serves by blast

end

end
