(* ===== verification/Round_Robin.thy ===== *)
theory Round_Robin
  imports Balancer
begin

text \<open>
  The smooth weighted round robin balancer of
  \<^verbatim>\<open>arion-lib/src/clusters/balancers/wrr.rs\<close>: its items with their running weights, the
  constructor that keeps the endpoints whose total weight fits 32 bits, and the selection step,
  with the saturating 32-bit arithmetic of the source. The lemmas show that the running weights
  are exact as long as they do not saturate, and from that the share every endpoint gets.
\<close>

section \<open>The balancer\<close>

record 'e LbItem =
  weight :: u32
  current_weight :: int
  item :: 'e

definition LbItem_new :: "u32 \<Rightarrow> 'e \<Rightarrow> 'e LbItem" where
  "LbItem_new w e = \<lparr>weight = w, current_weight = 0, item = e\<rparr>"

definition adjust_current_weight :: "int \<Rightarrow> 'e LbItem \<Rightarrow> 'e LbItem" where
  "adjust_current_weight v x = x\<lparr>current_weight := i32_saturating_add (current_weight x) v\<rparr>"

definition increase_current_weight :: "'e LbItem \<Rightarrow> 'e LbItem" where
  "increase_current_weight x = adjust_current_weight (i32_of_u32_or_max (weight x)) x"

record 'e WeightedRoundRobinBalancer =
  items :: "'e LbItem list"
  total_weight :: int
  equal_weight :: bool
  current_index :: nat

text \<open>
  The closure of \<^verbatim>\<open>collect_checked\<close>: its state is the total, the first weight seen and
  whether all weights seen so far are equal. The weight that overflows the total is compared with
  the first weight before it is refused, as in the source.
\<close>

definition collect_step ::
  "u32 \<times> u32 option \<times> bool \<Rightarrow> 'e LbItem \<Rightarrow> bool \<times> (u32 \<times> u32 option \<times> bool)" where
  "collect_step = (\<lambda>(total, first_weight, equal_weight) x.
     let (first_weight, equal_weight) =
           (case first_weight of
              Some w \<Rightarrow> (Some w, if equal_weight \<and> w \<noteq> weight x then False else equal_weight)
            | None \<Rightarrow> (Some (weight x), equal_weight))
     in case checked_add_u32 total (weight x) of
          Some new_total \<Rightarrow> (True, (new_total, first_weight, equal_weight))
        | None \<Rightarrow> (False, (total, first_weight, equal_weight)))"

definition wrr_collect_checked :: "'e LbItem list \<Rightarrow> 'e LbItem list \<times> u32 \<times> bool" where
  "wrr_collect_checked xs =
     (let (ys, (total, first_weight, equal_weight)) = take_while_state collect_step (0, None, True) xs
      in (ys, total, equal_weight))"

definition WeightedRoundRobinBalancer_new :: "'e LbItem list \<Rightarrow> 'e WeightedRoundRobinBalancer" where
  "WeightedRoundRobinBalancer_new xs =
     (let (ys, total, eq) = wrr_collect_checked xs
      in \<lparr>items = ys, total_weight = i32_of_u32_or_max total, equal_weight = eq, current_index = 0\<rparr>)"

definition wrr_from_iter :: "('e \<Rightarrow> u32) \<Rightarrow> 'e list \<Rightarrow> 'e WeightedRoundRobinBalancer" where
  "wrr_from_iter weight_of es =
     WeightedRoundRobinBalancer_new (map (\<lambda>e. LbItem_new (weight_of e) e) es)"

text \<open>
  The selection loop: every item's weight is increased in place, and the first item with the
  largest weight is remembered (\<^verbatim>\<open>best_index\<close> and \<^verbatim>\<open>best_weight\<close>).
\<close>

fun wrr_scan :: "nat \<Rightarrow> nat \<Rightarrow> int \<Rightarrow> 'e LbItem list \<Rightarrow> 'e LbItem list \<times> nat" where
  "wrr_scan idx best_index best_weight [] = ([], best_index)"
| "wrr_scan idx best_index best_weight (x # xs) =
     (let x' = increase_current_weight x;
          (best_index, best_weight) =
            (if current_weight x' > best_weight then (idx, current_weight x')
             else (best_index, best_weight));
          (xs', b) = wrr_scan (Suc idx) best_index best_weight xs
      in (x' # xs', b))"

definition wrr_next_item ::
  "u64 option \<Rightarrow> 'e WeightedRoundRobinBalancer \<Rightarrow> 'e option \<times> 'e WeightedRoundRobinBalancer" where
  "wrr_next_item hash b =
     (if equal_weight b then
        if length (items b) \<le> 1 then (map_option item (slice_get (items b) 0), b)
        else
          let index = current_index b;
              b' = b\<lparr>current_index := (current_index b + 1) mod length (items b)\<rparr>
          in (map_option item (slice_get (items b) index), b')
      else if length (items b) \<le> 1 then (map_option item (slice_get (items b) 0), b)
      else
        let (xs, best_index) = wrr_scan 0 0 i32_MIN (items b)
        in case slice_get xs best_index of
             None \<Rightarrow> (None, b\<lparr>items := xs\<rparr>)
           | Some x \<Rightarrow>
               (Some (item x),
                b\<lparr>items := xs[best_index := adjust_current_weight (- total_weight b) x]\<rparr>))"

section \<open>The constructor\<close>

lemma LbItem_simps [simp]:
  "weight (LbItem_new w e) = w" "item (LbItem_new w e) = e" "current_weight (LbItem_new w e) = 0"
  "weight (adjust_current_weight v x) = weight x" "item (adjust_current_weight v x) = item x"
  "weight (increase_current_weight x) = weight x" "item (increase_current_weight x) = item x"
  by (simp_all add: LbItem_new_def adjust_current_weight_def increase_current_weight_def)

text \<open>The extra state of the closure does not influence which items are kept.\<close>

lemma collect_step_fits:
  "take_while_state collect_step (t, f, q) xs = (ys, (t', f', q')) \<Longrightarrow>
     take_while_state (fits_u32 weight) t xs = (ys, t')"
proof (induction xs arbitrary: t f q ys)
  case (Cons x xs)
  show ?case
  proof (cases "checked_add_u32 t (weight x)")
    case None
    then show ?thesis
      using Cons.prems fits_u32_None [of t weight x, OF None]
      by (auto simp: collect_step_def Let_def split: option.splits)
  next
    case (Some u)
    obtain f1 q1 where step: "collect_step (t, f, q) x = (True, (u, f1, q1))"
      using Some by (cases f) (auto simp: collect_step_def Let_def)
    obtain zs where "take_while_state collect_step (u, f1, q1) xs = (zs, (t', f', q'))" "ys = x # zs"
      using Cons.prems step by (auto split: prod.splits)
    then show ?thesis
      using Cons.IH [of u f1 q1 zs] fits_u32_Some [of t weight x, OF Some] by simp
  qed
qed simp

text \<open>When the flag is still set at the end, all kept weights equal the first one.\<close>

lemma collect_step_equal:
  "take_while_state collect_step (t, f, q) xs = (ys, (t', f', True)) \<Longrightarrow>
     q \<and> (\<forall>w. f = Some w \<longrightarrow> (\<forall>y\<in>set ys. weight y = w)) \<and>
     (f = None \<longrightarrow> (\<forall>y\<in>set ys. weight y = weight (hd ys)))"
proof (induction xs arbitrary: t f q ys)
  case (Cons x xs)
  show ?case
  proof (cases "checked_add_u32 t (weight x)")
    case None
    then show ?thesis
      using Cons.prems by (auto simp: collect_step_def Let_def split: option.splits if_splits)
  next
    case (Some u)
    obtain f1 q1 where step: "collect_step (t, f, q) x = (True, (u, f1, q1))"
      using Some by (cases f) (auto simp: collect_step_def Let_def)
    obtain zs where zs: "take_while_state collect_step (u, f1, q1) xs = (zs, (t', f', True))"
      "ys = x # zs"
      using Cons.prems step by (auto split: prod.splits)
    then show ?thesis
      using Cons.IH [OF zs(1)] step Some
      by (auto simp: collect_step_def Let_def split: option.splits if_splits)
  qed
qed auto

text \<open>When all weights are equal the flag stays set.\<close>

lemma collect_step_all_equal:
  "\<forall>x\<in>set xs. weight x = w \<Longrightarrow> f = None \<or> f = Some w \<Longrightarrow>
     snd (snd (snd (take_while_state collect_step (t, f, True) xs)))"
proof (induction xs arbitrary: t f)
  case (Cons x xs)
  then show ?case
    using Cons.IH [of "Some w"]
    by (cases "checked_add_u32 t (weight x)")
       (auto simp: collect_step_def Let_def case_prod_beta split: option.splits)
qed simp

lemma wrr_collect_checked_fits:
  assumes "wrr_collect_checked xs = (ys, tot, eq)"
  shows "ys = take (length ys) xs" "unat tot = total_weight_of weight ys"
    "length ys < length xs \<Longrightarrow> 2 ^ 32 \<le> total_weight_of weight (take (Suc (length ys)) xs)"
    "eq \<Longrightarrow> \<forall>y\<in>set ys. weight y = weight (hd ys)"
proof -
  obtain f where c: "take_while_state collect_step (0, None, True) xs = (ys, (tot, f, eq))"
    using assms by (auto simp: wrr_collect_checked_def split: prod.splits)
  from take_while_fits [OF collect_step_fits [OF c]]
  show "ys = take (length ys) xs" "unat tot = total_weight_of weight ys"
    "length ys < length xs \<Longrightarrow> 2 ^ 32 \<le> total_weight_of weight (take (Suc (length ys)) xs)"
    by simp_all
  show "\<forall>y\<in>set ys. weight y = weight (hd ys)" if eq
    using collect_step_equal [of 0 None True xs ys tot f] c that by simp
qed

lemma wrr_collect_checked_all:
  assumes "total_weight_of weight xs < 2 ^ 32"
  shows "\<exists>tot eq. wrr_collect_checked xs = (xs, tot, eq) \<and> unat tot = total_weight_of weight xs"
proof -
  obtain ys tot eq where c: "wrr_collect_checked xs = (ys, tot, eq)"
    by (metis prod_cases3)
  have "length ys < length xs \<Longrightarrow> total_weight_of weight (take (Suc (length ys)) xs) < 2 ^ 32"
    using assms by (metis append_take_drop_id le_add1 le_less_trans map_append sum_list_append)
  then have "\<not> length ys < length xs"
    using wrr_collect_checked_fits(3) [OF c] by fastforce
  then have "ys = xs"
    using wrr_collect_checked_fits(1) [OF c] by simp
  then show ?thesis
    using c wrr_collect_checked_fits(2) [OF c] by auto
qed

section \<open>One selection step\<close>

lemma wrr_scan_items: "fst (wrr_scan idx b w xs) = map increase_current_weight xs"
  by (induction xs arbitrary: idx b w) (auto simp: Let_def case_prod_beta)

text \<open>The scan finds the first largest weight, if any exceeds the one it starts with.\<close>

lemma wrr_scan_best:
  "wrr_scan idx bi bw xs = (ys, b) \<Longrightarrow>
     (b = bi \<and> (\<forall>y\<in>set ys. current_weight y \<le> bw)) \<or>
     (\<exists>j<length ys. b = idx + j \<and> bw < current_weight (ys ! j) \<and>
        (\<forall>y\<in>set ys. current_weight y \<le> current_weight (ys ! j)))"
proof (induction xs arbitrary: idx bi bw ys)
  case (Cons x xs)
  define x' where "x' = increase_current_weight x"
  define st where "st = (if current_weight x' > bw then (idx, current_weight x') else (bi, bw))"
  obtain zs where zs: "wrr_scan (Suc idx) (fst st) (snd st) xs = (zs, b)" "ys = x' # zs"
    using Cons.prems by (auto simp: x'_def st_def Let_def split: if_splits prod.splits)
  consider "b = fst st" "\<forall>y\<in>set zs. current_weight y \<le> snd st"
    | j where "j < length zs" "b = Suc idx + j" "snd st < current_weight (zs ! j)"
      "\<forall>y\<in>set zs. current_weight y \<le> current_weight (zs ! j)"
    using Cons.IH [OF zs(1)] by blast
  then show ?case
  proof cases
    case 1
    then show ?thesis
      by (cases "current_weight x' > bw") (auto simp: zs(2) st_def intro!: exI [of _ 0])
  next
    case 2
    then show ?thesis
      by (intro disjI2 exI [of _ "Suc j"]) (auto simp: zs(2) st_def split: if_splits)
  qed
qed simp

lemma wrr_scan_first_max:
  assumes "wrr_scan 0 0 i32_MIN xs = (ys, b)" "xs \<noteq> []"
  shows "ys = map increase_current_weight xs" "b < length xs"
    "\<forall>y\<in>set ys. current_weight y \<le> current_weight (ys ! b)"
proof -
  show ys: "ys = map increase_current_weight xs"
    using wrr_scan_items [of 0 0 i32_MIN xs] assms(1) by simp
  have low: "i32_MIN \<le> current_weight y" if "y \<in> set ys" for y
    using that i32_saturating_add_range
    by (auto simp: ys increase_current_weight_def adjust_current_weight_def)
  have "0 < length ys" using ys assms(2) by simp
  then show "b < length xs" "\<forall>y\<in>set ys. current_weight y \<le> current_weight (ys ! b)"
    using wrr_scan_best [OF assms(1)] low [of "ys ! 0"] ys by (force simp: nth_mem)+
qed

section \<open>The exact running weights\<close>

text \<open>
  After \<open>k\<close> selections of which item \<open>i\<close> got \<open>s i\<close>, the running weight of \<open>i\<close> is
  \<open>k * w\<^sub>i - s i * W\<close>, and it is above \<open>- W\<close>: no item is ahead of its share by a full selection.
\<close>

definition wrr_exact :: "nat \<Rightarrow> nat \<Rightarrow> (nat \<Rightarrow> nat) \<Rightarrow> 'e LbItem list \<Rightarrow> bool" where
  "wrr_exact W k s xs \<longleftrightarrow>
     W = total_weight_of weight xs \<and> (\<Sum>i<length xs. s i) = k \<and>
     (\<forall>i<length xs. current_weight (xs ! i) = int k * uint (weight (xs ! i)) - int (s i) * int W \<and>
        - int W < current_weight (xs ! i))"

lemma wrr_exactD:
  assumes "wrr_exact W k s xs"
  shows "total_weight_of weight xs = W" "(\<Sum>i<length xs. s i) = k"
    "i < length xs \<Longrightarrow> current_weight (xs ! i) = int k * uint (weight (xs ! i)) - int (s i) * int W"
    "i < length xs \<Longrightarrow> - int W < current_weight (xs ! i)"
  using assms unfolding wrr_exact_def by blast+

lemma wrr_exact_cong:
  assumes "\<And>i. i < length xs \<Longrightarrow> s i = s' i"
  shows "wrr_exact W k s xs = wrr_exact W k s' xs"
proof -
  have "(\<Sum>i<length xs. s i) = (\<Sum>i<length xs. s' i)" using assms by simp
  then show ?thesis using assms by (simp add: wrr_exact_def)
qed

lemma total_weight_nth: "int (total_weight_of weight xs) = (\<Sum>i<length xs. uint (weight (xs ! i)))"
  by (simp add: sum_list_sum_nth atLeast0LessThan)

lemma wrr_exact_sum_zero:
  assumes "wrr_exact W k s xs"
  shows "(\<Sum>i<length xs. current_weight (xs ! i)) = 0"
proof -
  have "(\<Sum>i<length xs. current_weight (xs ! i)) =
    (\<Sum>i<length xs. int k * uint (weight (xs ! i)) - int (s i) * int W)"
    using assms by (intro sum.cong) (auto simp: wrr_exact_def)
  also have "\<dots> = int k * (\<Sum>i<length xs. uint (weight (xs ! i))) -
      (\<Sum>i<length xs. int (s i)) * int W"
    by (simp only: sum_subtractf sum_distrib_left sum_distrib_right)
  also have "\<dots> = int k * int W - int (\<Sum>i<length xs. s i) * int W"
    using wrr_exactD(1) [OF assms] total_weight_nth [of xs] by simp
  also have "\<dots> = 0" using wrr_exactD(2) [OF assms] by simp
  finally show ?thesis .
qed

lemma wrr_exact_upper:
  assumes "wrr_exact W k s xs" "i < length xs"
  shows "current_weight (xs ! i) \<le> int (length xs - 1) * (int W - 1)"
proof -
  have "(\<Sum>j<length xs. current_weight (xs ! j)) =
    current_weight (xs ! i) + (\<Sum>j\<in>{..<length xs} - {i}. current_weight (xs ! j))"
    using assms(2) by (intro sum.remove) auto
  moreover have "(\<Sum>j\<in>{..<length xs} - {i}. 1 - int W) \<le>
    (\<Sum>j\<in>{..<length xs} - {i}. current_weight (xs ! j))"
  proof (intro sum_mono)
    fix j assume "j \<in> {..<length xs} - {i}"
    then have "- int W < current_weight (xs ! j)" using assms(1) by (auto simp: wrr_exact_def)
    then show "1 - int W \<le> current_weight (xs ! j)" by simp
  qed
  moreover have "(\<Sum>j\<in>{..<length xs} - {i}. 1 - int W) = int (length xs - 1) * (1 - int W)"
    using assms(2) by simp
  ultimately show ?thesis
    using wrr_exact_sum_zero [OF assms(1)] by (simp add: algebra_simps)
qed

text \<open>The weights do not saturate while the number of items times the total fits an \<^verbatim>\<open>i32\<close>.\<close>

lemma wrr_exact_increase:
  assumes "wrr_exact W k s xs" "i < length xs" "int (length xs) * int W \<le> i32_MAX" "0 < W"
  shows "current_weight (increase_current_weight (xs ! i)) =
    current_weight (xs ! i) + uint (weight (xs ! i))"
proof -
  let ?c = "current_weight (xs ! i)" and ?w = "uint (weight (xs ! i))"
  have w: "?w \<le> int W"
    using assms(1,2) member_le_sum [of i "{..<length xs}" "\<lambda>i. uint (weight (xs ! i))"]
    by (simp add: total_weight_nth flip: wrr_exactD(1) [OF assms(1)])
  have nW: "int W \<le> int (length xs) * int W"
    using assms(2) by (cases "length xs") (auto simp: algebra_simps)
  have n: "int (length xs - 1) = int (length xs) - 1"
    using assms(2) by simp
  have "?c \<le> (int (length xs) - 1) * (int W - 1)"
    using wrr_exact_upper [OF assms(1,2)] n by simp
  then have "?c + ?w \<le> int (length xs) * int W"
    using w assms(2) by (simp add: algebra_simps)
  then have up: "?c + ?w \<le> i32_MAX" using assms(3) by simp
  have "- int W < ?c" using wrr_exactD(4) [OF assms(1,2)] .
  moreover have "int W \<le> i32_MAX" using nW assms(3) by simp
  ultimately have lo: "i32_MIN \<le> ?c + ?w"
    using uint_ge_0 [of "weight (xs ! i)"] unfolding i32_MIN_def i32_MAX_def by linarith
  have "i32_of_u32_or_max (weight (xs ! i)) = ?w"
    using w nW assms(3) by (simp add: i32_of_u32_or_max_def)
  then show ?thesis
    using up lo by (simp add: increase_current_weight_def adjust_current_weight_def
        i32_saturating_add_exact)
qed

lemma wrr_exact_step:
  assumes "wrr_exact W k s xs" "xs \<noteq> []" "int (length xs) * int W \<le> i32_MAX" "0 < W"
    and scan: "wrr_scan 0 0 i32_MIN xs = (ys, b)"
  shows "b < length xs"
    "wrr_exact W (Suc k) (s(b := Suc (s b))) (ys[b := adjust_current_weight (- int W) (ys ! b)])"
proof -
  note best = wrr_scan_first_max [OF scan assms(2)]
  show b: "b < length xs" by (rule best)
  have len: "length ys = length xs" and wt: "weight (ys ! i) = weight (xs ! i)" if "i < length xs" for i
    using that best(1) by auto
  have len: "length ys = length xs" using best(1) by simp
  have cw: "current_weight (ys ! i) = current_weight (xs ! i) + uint (weight (xs ! i))"
    if "i < length xs" for i
    using that best(1) wrr_exact_increase [OF assms(1) that assms(3,4)] by simp
  have W: "int W = (\<Sum>i<length xs. uint (weight (xs ! i)))"
    using wrr_exactD(1) [OF assms(1)] total_weight_nth [of xs] by simp
  have "(\<Sum>i<length xs. current_weight (ys ! i)) =
    (\<Sum>i<length xs. current_weight (xs ! i) + uint (weight (xs ! i)))"
    by (intro sum.cong) (auto simp: cw)
  also have "\<dots> = int W"
    using wrr_exact_sum_zero [OF assms(1)] by (simp add: sum.distrib W)
  finally have sumW: "(\<Sum>i<length xs. current_weight (ys ! i)) = int W" .
  have pos: "0 < current_weight (ys ! b)"
  proof (rule ccontr)
    assume "\<not> 0 < current_weight (ys ! b)"
    then have "\<forall>i<length xs. current_weight (ys ! i) \<le> 0"
      using best(3) len by (metis linorder_not_less nth_mem order_trans)
    then have "(\<Sum>i<length xs. current_weight (ys ! i)) \<le> 0" by (intro sum_nonpos) auto
    then show False using sumW assms(4) by simp
  qed
  have up: "current_weight (ys ! b) \<le> i32_MAX"
    using i32_saturating_add_range b
    by (simp add: best(1) increase_current_weight_def adjust_current_weight_def)
  have "int W \<le> i32_MAX"
    using assms(2,3) mult_right_mono [of 1 "int (length xs)" "int W"] by (cases xs) auto
  then have chosen: "current_weight (adjust_current_weight (- int W) (ys ! b)) =
      current_weight (ys ! b) - int W"
    using pos up by (simp add: adjust_current_weight_def i32_saturating_add_exact i32_MIN_def i32_MAX_def)
  let ?zs = "ys[b := adjust_current_weight (- int W) (ys ! b)]"
  have tw: "map weight ?zs = map weight xs"
    using b len wt by (intro nth_equalityI) (auto simp: nth_list_update)
  have sum1: "(\<Sum>i<length xs. (s(b := Suc (s b))) i) = Suc k"
  proof -
    have "(\<Sum>i<length xs. (s(b := Suc (s b))) i) = Suc (s b) + (\<Sum>i\<in>{..<length xs} - {b}. s i)"
      using b by (subst sum.remove [of _ b]) auto
    also have "\<dots> = Suc (\<Sum>i<length xs. s i)"
      using b by (subst (2) sum.remove [of _ b]) auto
    finally show ?thesis using assms(1) by (simp add: wrr_exact_def)
  qed
  show "wrr_exact W (Suc k) (s(b := Suc (s b))) ?zs"
    unfolding wrr_exact_def
  proof (intro conjI allI impI)
    show "W = total_weight_of weight ?zs"
      using assms(1) arg_cong [OF tw, of "map unat"] by (simp add: wrr_exact_def comp_def)
    show "(\<Sum>i<length ?zs. (s(b := Suc (s b))) i) = Suc k"
      using sum1 len by simp
    fix i assume "i < length ?zs"
    then have i: "i < length xs" using len by simp
    have old: "current_weight (xs ! i) = int k * uint (weight (xs ! i)) - int (s i) * int W"
      "- int W < current_weight (xs ! i)"
      using assms(1) i by (auto simp: wrr_exact_def)
    show "current_weight (?zs ! i) =
      int (Suc k) * uint (weight (?zs ! i)) - int ((s(b := Suc (s b))) i) * int W"
      using i b len old(1) chosen cw [OF i] wt [OF i]
      by (cases "i = b") (auto simp: algebra_simps)
    have "- int W < current_weight (ys ! i)"
      using old(2) cw [OF i] uint_ge_0 [of "weight (xs ! i)"] by linarith
    then show "- int W < current_weight (?zs ! i)"
      using i b len chosen pos by (cases "i = b") auto
  qed
qed

text \<open>After \<open>W\<close> selections every item has got exactly its weight, and the running weights are back at zero.\<close>

lemma wrr_exact_full_cycle:
  fixes s w :: "nat \<Rightarrow> nat"
  assumes "(\<Sum>i<n. s i) = W" "(\<Sum>i<n. w i) = W" "\<forall>i<n. s i \<le> w i"
  shows "\<forall>i<n. s i = w i"
proof (rule ccontr)
  assume "\<not> ?thesis"
  then obtain j where "j < n" "s j < w j" using assms(3) by (meson le_neq_implies_less)
  then have "(\<Sum>i<n. s i) < (\<Sum>i<n. w i)"
    using assms(3) sum_strict_mono_ex1 [of "{..<n}" s w] by auto
  then show False using assms(1,2) by simp
qed

section \<open>Sequences of selections\<close>

text \<open>Weighted mode: the counts of the results are the counts of the invariant.\<close>

lemma wrr_weighted_run:
  assumes "\<not> equal_weight b" "2 \<le> length (items b)" "total_weight b = int W"
    and "wrr_exact W k s (items b)" "int (length (items b)) * int W \<le> i32_MAX" "0 < W"
    and "distinct (map item (items b))"
    and "next_items wrr_next_item hs b = (rs, b')"
  shows "wrr_exact W (k + length hs)
      (\<lambda>i. s i + count_list rs (Some (item (items b ! i)))) (items b') \<and>
    b' = b\<lparr>items := items b'\<rparr> \<and> map item (items b') = map item (items b) \<and>
    map weight (items b') = map weight (items b)"
  using assms
proof (induction hs arbitrary: b k s rs)
  case (Cons h hs)
  obtain ys p where scan: "wrr_scan 0 0 i32_MIN (items b) = (ys, p)"
    by (cases "wrr_scan 0 0 i32_MIN (items b)")
  have ne: "items b \<noteq> []" using Cons.prems(2) by auto
  note best = wrr_scan_first_max [OF scan ne]
  define c where "c = b\<lparr>items := ys[p := adjust_current_weight (- total_weight b) (ys ! p)]\<rparr>"
  have next1: "wrr_next_item h b = (Some (item (items b ! p)), c)"
    using Cons.prems(1,2) best(1,2) by (auto simp: wrr_next_item_def scan c_def slice_get_def)
  obtain qs where rest: "next_items wrr_next_item hs c = (qs, b')" "rs = Some (item (items b ! p)) # qs"
    using Cons.prems(8) next1 by (auto split: prod.splits)
  have same: "length (items c) = length (items b)" "map item (items c) = map item (items b)"
    "map weight (items c) = map weight (items b)" "\<not> equal_weight c" "total_weight c = int W"
    using Cons.prems(1,3) best(1,2) by (auto simp: c_def list_eq_iff_nth_eq nth_list_update)
  have item: "item (items c ! i) = item (items b ! i)" if "i < length (items b)" for i
    using same(1,2) that by (metis nth_map)
  have exact: "wrr_exact W (Suc k) (s(p := Suc (s p))) (items c)"
    using wrr_exact_step(2) [OF Cons.prems(4) ne Cons.prems(5,6) scan] Cons.prems(3) by (simp add: c_def)
  have IH: "wrr_exact W (Suc k + length hs)
      (\<lambda>i. (s(p := Suc (s p))) i + count_list qs (Some (item (items c ! i)))) (items b') \<and>
    b' = c\<lparr>items := items b'\<rparr> \<and> map item (items b') = map item (items c) \<and>
    map weight (items b') = map weight (items c)"
    using same Cons.prems by (intro Cons.IH exact rest(1)) auto
  then have "length (items b') = length (items b)"
    using same(1) by (metis length_map)
  moreover have "item (items b ! p) = item (items b ! i) \<longleftrightarrow> i = p" if "i < length (items b)" for i
    using Cons.prems(7) that best(2) nth_eq_iff_index_eq [of "map item (items b)" i p] by auto
  ultimately have "(s(p := Suc (s p))) i + count_list qs (Some (item (items c ! i))) =
      s i + count_list rs (Some (item (items b ! i)))" if "i < length (items b')" for i
    using that item [of i] rest(2) by auto
  then have "wrr_exact W (k + length (h # hs))
      (\<lambda>i. s i + count_list rs (Some (item (items b ! i)))) (items b')"
    using IH wrr_exact_cong [of "items b'"
        "\<lambda>i. (s(p := Suc (s p))) i + count_list qs (Some (item (items c ! i)))"
        "\<lambda>i. s i + count_list rs (Some (item (items b ! i)))" W "Suc k + length hs"] by simp
  moreover have "b' = b\<lparr>items := items b'\<rparr>"
    using IH by (simp add: c_def)
  ultimately show ?case using IH same by simp
qed simp

text \<open>Equal mode: the index walks through the items.\<close>

lemma wrr_equal_run:
  assumes "equal_weight b" "items b \<noteq> []" "current_index b < length (items b)"
    and "next_items wrr_next_item hs b = (rs, b')"
  shows "rs = map (\<lambda>j. Some (item (items b ! ((current_index b + j) mod length (items b))))) [0..<length hs] \<and>
    b' = b\<lparr>current_index := (current_index b + length hs) mod length (items b)\<rparr>"
  using assms
proof (induction hs arbitrary: b rs)
  case (Cons h hs)
  let ?n = "length (items b)"
  define c where "c = b\<lparr>current_index := (current_index b + 1) mod ?n\<rparr>"
  have single: "current_index b = 0" "(current_index b + 1) mod ?n = 0" if "?n \<le> 1"
    using Cons.prems(2,3) that by (auto simp: le_Suc_eq)
  have next1: "wrr_next_item h b = (Some (item (items b ! current_index b)), c)"
    using Cons.prems(1-3) single
    by (cases "?n \<le> 1") (auto simp: wrr_next_item_def c_def slice_get_def Let_def)
  obtain qs where rest: "next_items wrr_next_item hs c = (qs, b')"
    "rs = Some (item (items b ! current_index b)) # qs"
    using Cons.prems(4) next1 by (auto split: prod.splits)
  have IH: "qs = map (\<lambda>j. Some (item (items c ! ((current_index c + j) mod length (items c))))) [0..<length hs] \<and>
    b' = c\<lparr>current_index := (current_index c + length hs) mod length (items c)\<rparr>"
    using Cons.prems(1,2) by (intro Cons.IH rest(1)) (auto simp: c_def)
  have "[0..<length (h # hs)] = 0 # map Suc [0..<length hs]"
    by (simp only: list.size map_Suc_upt upt_conv_Cons) simp
  then show ?case
    using IH rest(2) Cons.prems(3) by (simp add: c_def mod_simps comp_def)
qed simp

lemma count_mod:
  assumes "i < n"
  shows "count_list (map (\<lambda>j. j mod n) [0..<k]) i = (k + n - 1 - i) div n"
proof (induction k)
  case 0
  then show ?case using assms by simp
next
  case (Suc k)
  have "Suc (k + n - 1 - i) = k + (n - i)" using assms by simp
  moreover have "(k + (n - i)) mod n = 0 \<longleftrightarrow> k mod n = i"
  proof -
    let ?r = "k mod n"
    have r: "?r < n" using assms by simp
    have eq: "(k + (n - i)) mod n = (?r + (n - i)) mod n" by (simp add: mod_simps)
    consider "?r < i" | "?r = i" | "i < ?r" by linarith
    then show ?thesis
    proof cases
      case 1
      then show ?thesis using eq assms by simp
    next
      case 2
      then show ?thesis using eq assms by simp
    next
      case 3
      then have "?r + (n - i) = n + (?r - i)" using assms by simp
      then have "(k + (n - i)) mod n = (n + (?r - i)) mod n" using eq by (simp only:)
      then have "(k + (n - i)) mod n = ?r - i" using r by simp
      then show ?thesis using 3 by simp
    qed
  qed
  ultimately have "Suc (k + n - 1 - i) div n = (k + n - 1 - i) div n + (if k mod n = i then 1 else 0)"
    using div_Suc [of "k + n - 1 - i" n] by simp
  moreover have "Suc k + n - 1 - i = Suc (k + n - 1 - i)" using assms by simp
  ultimately show ?case using Suc by (simp add: count_list_append)
qed

lemma count_list_map_inj:
  "inj_on f A \<Longrightarrow> set xs \<subseteq> A \<Longrightarrow> x \<in> A \<Longrightarrow> count_list (map f xs) (f x) = count_list xs x"
  by (induction xs) (auto simp: inj_on_eq_iff)

lemma total_weight_equal: "\<forall>e\<in>set es. weight_of e = w \<Longrightarrow> total_weight_of weight_of es = length es * unat w"
  by (induction es) auto

lemma wrr_from_iter_all:
  assumes "total_weight_of weight_of es < 2 ^ 32"
  defines "b \<equiv> wrr_from_iter weight_of es"
  shows "items b = map (\<lambda>e. LbItem_new (weight_of e) e) es" "current_index b = 0"
    "int (total_weight_of weight_of es) \<le> i32_MAX \<Longrightarrow> total_weight b = int (total_weight_of weight_of es)"
    "equal_weight b \<Longrightarrow> \<exists>w. \<forall>e\<in>set es. weight_of e = w"
    "\<not> equal_weight b \<Longrightarrow> 2 \<le> length es \<and> 0 < total_weight_of weight_of es"
proof -
  let ?xs = "map (\<lambda>e. LbItem_new (weight_of e) e) es"
  obtain tot eq where c: "wrr_collect_checked ?xs = (?xs, tot, eq)"
    "unat tot = total_weight_of weight_of es"
    using wrr_collect_checked_all [of ?xs] assms(1) by (auto simp: comp_def)
  then have b: "b = \<lparr>items = ?xs, total_weight = i32_of_u32_or_max tot, equal_weight = eq, current_index = 0\<rparr>"
    by (simp add: b_def wrr_from_iter_def WeightedRoundRobinBalancer_new_def)
  show "items b = ?xs" "current_index b = 0" by (simp_all add: b)
  have "uint tot = int (total_weight_of weight_of es)"
    using c(2) by (metis uint_nat)
  then show "int (total_weight_of weight_of es) \<le> i32_MAX \<Longrightarrow>
      total_weight b = int (total_weight_of weight_of es)"
    by (simp add: b i32_of_u32_or_max_def)
  show "\<exists>w. \<forall>e\<in>set es. weight_of e = w" if "equal_weight b"
    using wrr_collect_checked_fits(4) [OF c(1)] that by (auto simp: b)
  show "2 \<le> length es \<and> 0 < total_weight_of weight_of es" if neq: "\<not> equal_weight b"
  proof -
    have "\<not> (\<forall>x\<in>set ?xs. weight x = w)" for w
      using collect_step_all_equal [of ?xs w None 0] c(1) neq
      by (auto simp: wrr_collect_checked_def b split: prod.splits)
    then have differ: "\<exists>e\<in>set es. weight_of e \<noteq> w" for w by auto
    then obtain e where "e \<in> set es" "weight_of e \<noteq> 0" by blast
    then have "0 < total_weight_of weight_of es"
      using member_le_sum_list [of "unat (weight_of e)" "map (\<lambda>e. unat (weight_of e)) es"]
      by (auto simp: word_unat_eq_iff)
    moreover have "2 \<le> length es"
      using differ [of "weight_of (hd es)"] by (cases es; cases "tl es") auto
    ultimately show ?thesis by simp
  qed
qed

text \<open>The share of every endpoint after any number of selections from a new balancer.\<close>

lemma wrr_share:
  assumes "distinct es" "int (length es) * int (total_weight_of weight_of es) \<le> i32_MAX"
    and pos: "0 < total_weight_of weight_of es"
    and run: "next_items wrr_next_item hs (wrr_from_iter weight_of es) = (rs, b')"
  defines "W \<equiv> total_weight_of weight_of es"
  shows "\<forall>i<length es. count_list rs (Some (es ! i)) * W < length hs * unat (weight_of (es ! i)) + W"
    "(\<Sum>i<length es. count_list rs (Some (es ! i))) = length hs"
    "length hs = W \<Longrightarrow> (\<forall>i<length es. count_list rs (Some (es ! i)) = unat (weight_of (es ! i))) \<Longrightarrow>
      b' = wrr_from_iter weight_of es"
proof -
  define b where "b = wrr_from_iter weight_of es"
  have ne: "es \<noteq> []" using pos by auto
  have Wmax: "int W \<le> i32_MAX"
    using assms(2) ne mult_right_mono [of 1 "int (length es)" "int W"] by (cases es) (auto simp: W_def)
  then have fits: "total_weight_of weight_of es < 2 ^ 32" by (simp add: W_def i32_MAX_def)
  note init = wrr_from_iter_all [OF fits, folded b_def W_def]
  have len: "length (items b) = length es" "items b \<noteq> []" using ne by (auto simp: init)
  have item: "item (items b ! i) = es ! i" "weight (items b ! i) = weight_of (es ! i)"
    if "i < length es" for i using that by (simp_all add: init)
  have "(\<forall>i<length es. count_list rs (Some (es ! i)) * W < length hs * unat (weight_of (es ! i)) + W) \<and>
    (\<Sum>i<length es. count_list rs (Some (es ! i))) = length hs \<and>
    (length hs = W \<longrightarrow> (\<forall>i<length es. count_list rs (Some (es ! i)) = unat (weight_of (es ! i))) \<longrightarrow> b' = b)"
  proof (cases "equal_weight b")
    case True
    let ?n = "length es"
    obtain w where w: "\<forall>e\<in>set es. weight_of e = w" using init(4) [OF True] by blast
    have W: "W = ?n * unat w" using total_weight_equal [OF w] by (simp add: W_def)
    have rs: "rs = map (\<lambda>j. Some (es ! j)) (map (\<lambda>j. j mod ?n) [0..<length hs])"
      and b': "b' = b\<lparr>current_index := length hs mod ?n\<rparr>"
      using wrr_equal_run [OF True _ _ run [folded b_def]] ne item(1) len init(2)
      by (auto simp: comp_def)
    have inj: "inj_on (\<lambda>j. Some (es ! j)) {..<?n}"
      using assms(1) by (auto simp: inj_on_def nth_eq_iff_index_eq)
    have cnt: "count_list rs (Some (es ! i)) = count_list (map (\<lambda>j. j mod ?n) [0..<length hs]) i"
      if "i < ?n" for i
      unfolding rs using ne that
      by (intro count_list_map_inj [OF inj, of "map (\<lambda>j. j mod ?n) [0..<length hs]"]) auto
    have "count_list rs (Some (es ! i)) * W < length hs * unat (weight_of (es ! i)) + W"
      if i: "i < ?n" for i
    proof -
      have "count_list rs (Some (es ! i)) * ?n \<le> length hs + ?n - 1 - i"
        unfolding cnt [OF i] count_mod [OF i] by (rule div_times_less_eq_dividend)
      then have "count_list rs (Some (es ! i)) * ?n < length hs + ?n" using i by simp
      moreover have "0 < unat w" using pos W by (auto simp: W_def)
      ultimately have "count_list rs (Some (es ! i)) * ?n * unat w < (length hs + ?n) * unat w" by simp
      moreover have "weight_of (es ! i) = w" using w i by simp
      ultimately show ?thesis by (simp add: W algebra_simps)
    qed
    moreover have "(\<Sum>i<?n. count_list rs (Some (es ! i))) = length hs"
      using sum_count_set [of "map (\<lambda>j. j mod ?n) [0..<length hs]" "{..<?n}"] ne by (simp add: cnt image_subset_iff)
    moreover have "b' = b" if "length hs = W"
      using b' init(2) W that by simp
    ultimately show ?thesis by blast
  next
    case False
    note neq = init(5) [OF False]
    have start: "wrr_exact W 0 (\<lambda>_. 0) (items b)"
      using neq by (simp add: wrr_exact_def init W_def comp_def)
    have "map item (items b) = es" by (simp add: init comp_def)
    then have ex: "wrr_exact W (length hs) (\<lambda>i. count_list rs (Some (item (items b ! i)))) (items b')"
      and b': "b' = b\<lparr>items := items b'\<rparr>" "map item (items b') = map item (items b)"
        "map weight (items b') = map weight (items b)"
      using wrr_weighted_run [OF False _ init(3) start _ _ _ run [folded b_def]] neq assms(1,2) Wmax len
      by (auto simp: W_def)
    have len': "length (items b') = length es" using b'(2) len by (metis length_map)
    have wt: "weight (items b' ! i) = weight_of (es ! i)" if "i < length es" for i
      using b'(3) that item(2) len len' by (metis nth_map)
    have cw: "current_weight (items b' ! i) =
        int (length hs) * int (unat (weight_of (es ! i))) - int (count_list rs (Some (es ! i))) * int W"
      "- int W < current_weight (items b' ! i)" if "i < length es" for i
      using wrr_exactD(3,4) [OF ex, of i] that len' wt [OF that] item(1) [OF that] by simp_all
    have "count_list rs (Some (es ! i)) * W < length hs * unat (weight_of (es ! i)) + W"
      if "i < length es" for i
    proof -
      have "int (count_list rs (Some (es ! i)) * W) < int (length hs * unat (weight_of (es ! i)) + W)"
        using cw [OF that] by simp
      then show ?thesis by linarith
    qed
    moreover have "(\<Sum>i<length es. count_list rs (Some (es ! i))) = length hs"
      using wrr_exactD(2) [OF ex] len' item(1) by simp
    moreover have "b' = b" if "length hs = W"
      "\<forall>i<length es. count_list rs (Some (es ! i)) = unat (weight_of (es ! i))"
    proof -
      have "items b' ! i = items b ! i" if "i < length es" for i
      proof (rule LbItem.equality)
        have "count_list rs (Some (es ! i)) = unat (weight_of (es ! i))"
          using \<open>\<forall>i<length es. count_list rs (Some (es ! i)) = unat (weight_of (es ! i))\<close> that by blast
        then have "current_weight (items b' ! i) = 0"
          using cw(1) [OF that] by (simp only: \<open>length hs = W\<close> mult.commute diff_self)
        then show "current_weight (items b' ! i) = current_weight (items b ! i)"
          using that by (simp add: init(1))
        show "item (items b' ! i) = item (items b ! i)"
          using b'(2) that len len' by (metis nth_map)
      qed (use wt item(2) that in simp_all)
      then have "items b' = items b" using len(1) len' by (metis nth_equalityI)
      then have "b' = b\<lparr>items := items b\<rparr>" using b'(1) by metis
      then show ?thesis by simp
    qed
    ultimately show ?thesis by blast
  qed
  then show "\<forall>i<length es. count_list rs (Some (es ! i)) * W < length hs * unat (weight_of (es ! i)) + W"
    "(\<Sum>i<length es. count_list rs (Some (es ! i))) = length hs"
    "length hs = W \<Longrightarrow> (\<forall>i<length es. count_list rs (Some (es ! i)) = unat (weight_of (es ! i))) \<Longrightarrow>
      b' = wrr_from_iter weight_of es"
    by (auto simp: b_def)
qed

section \<open>The balancer implements the interface\<close>

definition wrr_members :: "'e WeightedRoundRobinBalancer \<Rightarrow> 'e list" where
  "wrr_members b = map item (items b)"

definition wrr_inv :: "'e WeightedRoundRobinBalancer \<Rightarrow> bool" where
  "wrr_inv b \<longleftrightarrow> items b = [] \<or> current_index b < length (items b)"

lemma wrr_from_iter_prefix:
  "\<exists>k. wrr_members (wrr_from_iter weight_of es) = take k es \<and> (es \<noteq> [] \<longrightarrow> 0 < k)"
proof -
  let ?xs = "map (\<lambda>e. LbItem_new (weight_of e) e) es"
  obtain ys tot eq where c: "wrr_collect_checked ?xs = (ys, tot, eq)"
    by (metis prod_cases3)
  note fits = wrr_collect_checked_fits [OF c]
  have "wrr_members (wrr_from_iter weight_of es) = map item ys"
    by (simp add: wrr_members_def wrr_from_iter_def WeightedRoundRobinBalancer_new_def c)
  also have "\<dots> = take (length ys) es"
    using arg_cong [OF fits(1), of "map item"] by (simp add: take_map comp_def)
  finally have "wrr_members (wrr_from_iter weight_of es) = take (length ys) es" .
  moreover have "0 < length ys" if "es \<noteq> []"
  proof (rule ccontr)
    assume "\<not> 0 < length ys"
    then have "2 ^ 32 \<le> total_weight_of weight (take 1 ?xs)" using fits(3) that by simp
    moreover obtain e es' where "es = e # es'" using \<open>es \<noteq> []\<close> by (cases es) auto
    moreover have "unat (weight_of e) < 2 ^ LENGTH(32)" for e by (rule unsigned_less)
    ultimately show False by simp (meson linorder_not_less)
  qed
  ultimately show ?thesis by blast
qed

lemma wrr_next_item_keeps:
  "wrr_inv b \<Longrightarrow> wrr_inv (snd (wrr_next_item h b)) \<and>
     wrr_members (snd (wrr_next_item h b)) = wrr_members b"
proof -
  assume "wrr_inv b"
  obtain ys p where scan: "wrr_scan 0 0 i32_MIN (items b) = (ys, p)"
    by (cases "wrr_scan 0 0 i32_MIN (items b)")
  have ys: "ys = map increase_current_weight (items b)"
    using wrr_scan_items [of 0 0 i32_MIN "items b"] scan by simp
  have same: "map item (ys[p := adjust_current_weight v (ys ! p)]) = map item (items b)" for v
    by (cases "p < length ys") (auto simp: ys list_eq_iff_nth_eq nth_list_update)
  have md: "Suc (current_index b) mod length (items b) < length (items b) \<longleftrightarrow> items b \<noteq> []"
    using mod_less_divisor [of "length (items b)" "Suc (current_index b)"] by (cases "items b = []") auto
  then show ?thesis
    using \<open>wrr_inv b\<close> same arg_cong [OF same, of length]
    by (auto simp: wrr_next_item_def wrr_inv_def wrr_members_def scan ys md Let_def slice_get_def)
qed

lemma wrr_next_item_selects:
  assumes "wrr_inv b"
  shows "items b \<noteq> [] \<Longrightarrow> \<exists>x\<in>set (items b). fst (wrr_next_item h b) = Some (item x)"
    "items b = [] \<Longrightarrow> fst (wrr_next_item h b) = None"
proof -
  show "\<exists>x\<in>set (items b). fst (wrr_next_item h b) = Some (item x)" if ne: "items b \<noteq> []"
  proof -
    obtain ys p where scan: "wrr_scan 0 0 i32_MIN (items b) = (ys, p)"
      by (cases "wrr_scan 0 0 i32_MIN (items b)")
    note best = wrr_scan_first_max(1,2) [OF scan ne]
    have "current_index b < length (items b)" using assms ne by (simp add: wrr_inv_def)
    then have "\<exists>i<length (items b). fst (wrr_next_item h b) = Some (item (items b ! i))"
      using best ne by (auto simp: wrr_next_item_def scan slice_get_def Let_def)
    then show ?thesis using nth_mem by blast
  qed
qed (simp add: wrr_next_item_def slice_get_def)

interpretation wrr: serving_balancer "wrr_from_iter weight_of" wrr_next_item wrr_members wrr_inv
  for weight_of :: "'e \<Rightarrow> u32"
proof unfold_locales
  fix es :: "'e list" and b :: "'e WeightedRoundRobinBalancer" and h e
  show "wrr_inv (wrr_from_iter weight_of es)"
    by (auto simp: wrr_inv_def wrr_from_iter_def WeightedRoundRobinBalancer_new_def split: prod.splits)
  show "set (wrr_members (wrr_from_iter weight_of es)) \<subseteq> set es"
    using wrr_from_iter_prefix [of weight_of es] by (metis set_take_subset)
  show "es \<noteq> [] \<Longrightarrow> wrr_members (wrr_from_iter weight_of es) \<noteq> []"
    using wrr_from_iter_prefix [of weight_of es] by auto
  assume inv: "wrr_inv b"
  show "wrr_inv (snd (wrr_next_item h b))" "set (wrr_members (snd (wrr_next_item h b))) = set (wrr_members b)"
    using wrr_next_item_keeps [OF inv] by simp_all
  show "fst (wrr_next_item h b) = Some e \<Longrightarrow> e \<in> set (wrr_members b)"
    "wrr_members b \<noteq> [] \<Longrightarrow> fst (wrr_next_item h b) \<noteq> None"
    using wrr_next_item_selects [OF inv, of h] by (cases "items b = []"; force simp: wrr_members_def)+
qed

section \<open>Properties\<close>

text \<open>C11: Smooth weighted round robin is exactly fair. Take a balancer built from distinct endpoints
  whose running weights cannot saturate (number of endpoints times total weight fits an
  \<^verbatim>\<open>i32\<close>). As many calls as the total weight select every endpoint exactly as often as its
  weight says, and leave the balancer in its initial state, so that the same holds for every
  further round.\<close>

theorem wrr_exact_share:
  assumes "distinct es"
    and "int (length es) * int (total_weight_of weight_of es) \<le> i32_MAX"
    and "length hs = total_weight_of weight_of es"
    and "next_items wrr_next_item hs (wrr_from_iter weight_of es) = (selected, after)"
  shows "(\<forall>e\<in>set es. count_list selected (Some e) = unat (weight_of e)) \<and>
    after = wrr_from_iter weight_of es"
proof (cases "total_weight_of weight_of es = 0")
  case True
  then have "hs = []" using assms(3) by (simp only: length_0_conv)
  then have "selected = []" "after = wrr_from_iter weight_of es" using assms(4) by auto
  moreover have "unat (weight_of e) = 0" if "e \<in> set es" for e
    using member_le_sum_list [of "unat (weight_of e)" "map (\<lambda>e. unat (weight_of e)) es"] True that by auto
  ultimately show ?thesis by simp
next
  case False
  note share = wrr_share [OF assms(1,2) _ assms(4)]
  have le: "count_list selected (Some (es ! i)) \<le> unat (weight_of (es ! i))" if "i < length es" for i
  proof -
    have "count_list selected (Some (es ! i)) * total_weight_of weight_of es <
        Suc (unat (weight_of (es ! i))) * total_weight_of weight_of es"
      using share(1) False that assms(3) by (simp add: algebra_simps)
    then show ?thesis using mult_less_cancel2 less_Suc_eq_le by blast
  qed
  have "(\<Sum>i<length es. unat (weight_of (es ! i))) = total_weight_of weight_of es"
    by (simp add: sum_list_sum_nth atLeast0LessThan)
  then have eq: "\<forall>i<length es. count_list selected (Some (es ! i)) = unat (weight_of (es ! i))"
    using wrr_exact_full_cycle [where s = "\<lambda>i. count_list selected (Some (es ! i))" and n = "length es"
        and w = "\<lambda>i. unat (weight_of (es ! i))"] share(2) False le assms(3) by simp
  then show ?thesis
    using share(3) False assms(3) by (metis bot_nat_0.not_eq_extremum in_set_conv_nth)
qed

theorem wrr_exact_share_witness:
  "let weight_of = (\<lambda>e. if e = ''a'' then 5 else 1); es = [''a'', ''b'', ''c''];
       (selected, after) = next_items wrr_next_item (replicate 7 None) (wrr_from_iter weight_of es)
   in (\<forall>e\<in>set es. count_list selected (Some e) = unat (weight_of e)) \<and>
      after = wrr_from_iter weight_of es"
  using wrr_exact_share [of "[''a'', ''b'', ''c'']" "\<lambda>e. if e = ''a'' then 5 else 1" "replicate 7 None"]
  by (cases "next_items wrr_next_item (replicate 7 None)
        (wrr_from_iter (\<lambda>e. if e = ''a'' then 5 else 1) [''a'', ''b'', ''c''])")
     (simp add: i32_MAX_def)



text \<open>C33: Whatever the weights, saturating or overflowing included, a round robin balancer built from
  at least one endpoint answers every call, and always with one of these endpoints.\<close>

theorem wrr_always_serves:
  assumes "es \<noteq> []"
    and "r \<in> set (fst (next_items wrr_next_item hs (wrr_from_iter weight_of es)))"
  shows "\<exists>e\<in>set es. r = Some e"
proof (cases r)
  case None
  then show ?thesis using wrr.from_iter_next_items_serve [OF assms(1)] assms(2) by metis
next
  case (Some e)
  then show ?thesis using wrr.selected_from_iter [of e hs weight_of es] assms(2) by blast
qed

theorem wrr_always_serves_witness:
  "let r = fst (wrr_next_item None (wrr_from_iter (\<lambda>_. 0xFFFFFFFF) [1 :: nat, 2])) in
   \<exists>e\<in>set [1, 2]. r = Some e"
  using wrr_always_serves [of "[1 :: nat, 2]"
      "fst (wrr_next_item None (wrr_from_iter (\<lambda>_. 0xFFFFFFFF) [1 :: nat, 2]))" "[None]" "\<lambda>_. 0xFFFFFFFF"]
  by (auto simp: Let_def case_prod_beta)

end
