(* ===== verification/Float64.thy ===== *)
theory Float64
  imports Complex_Main Prelude
begin

text \<open>
  IEEE 754 binary floating point as the sources use it (\<^verbatim>\<open>f64\<close>, and \<^verbatim>\<open>f32\<close> for
  configured percentages): a finite value is the rational number it denotes, and every operation
  rounds its exact result to the nearest representable number, ties to even. The two zeros are
  identified; none of the modelled code divides by a zero whose sign could matter. The lemmas give
  what the balancers rely on: rounding is monotone and exact on representable numbers.
\<close>

section \<open>Rounding to an integer\<close>

definition round_half_even :: "rat \<Rightarrow> int" where
  "round_half_even x =
     (let n = \<lfloor>x\<rfloor>; d = x - of_int n
      in if d < 1 / 2 then n else if 1 / 2 < d then n + 1 else if even n then n else n + 1)"

lemma round_half_even_of_int [simp]: "round_half_even (of_int n) = n"
  by (simp add: round_half_even_def)

lemma round_half_even_bounds: "\<lfloor>x\<rfloor> \<le> round_half_even x" "round_half_even x \<le> \<lfloor>x\<rfloor> + 1"
  by (auto simp: round_half_even_def Let_def)

lemma round_half_even_mono: "x \<le> y \<Longrightarrow> round_half_even x \<le> round_half_even y"
proof -
  assume le: "x \<le> y"
  show ?thesis
  proof (cases "\<lfloor>x\<rfloor> = \<lfloor>y\<rfloor>")
    case True
    then show ?thesis using le by (auto simp: round_half_even_def Let_def)
  next
    case False
    then have "\<lfloor>x\<rfloor> + 1 \<le> \<lfloor>y\<rfloor>" using floor_mono [OF le] by simp
    then show ?thesis using round_half_even_bounds [of x] round_half_even_bounds [of y] by linarith
  qed
qed

section \<open>Binary logarithm\<close>

fun log2_nat :: "nat \<Rightarrow> nat" where
  "log2_nat n = (if n < 2 then 0 else Suc (log2_nat (n div 2)))"

declare log2_nat.simps [simp del]

lemma log2_nat_bounds: "0 < n \<Longrightarrow> 2 ^ log2_nat n \<le> n \<and> n < 2 ^ Suc (log2_nat n)"
proof (induction n rule: log2_nat.induct)
  case (1 n)
  show ?case
  proof (cases "n < 2")
    case True
    then show ?thesis using 1 by (simp add: log2_nat.simps)
  next
    case False
    then have "2 ^ log2_nat (n div 2) \<le> n div 2 \<and> n div 2 < 2 ^ Suc (log2_nat (n div 2))"
      using 1 by simp
    then show ?thesis using False by (subst (1 2) log2_nat.simps) auto
  qed
qed

text \<open>The exponent of a positive rational: the \<open>e\<close> with \<open>2\<^sup>e \<le> x < 2\<^sup>e\<^sup>+\<^sup>1\<close>.\<close>

definition log2_rat :: "rat \<Rightarrow> int" where
  "log2_rat x =
     (if 1 \<le> x then int (log2_nat (nat \<lfloor>x\<rfloor>))
      else let m = nat \<lceil>1 / x\<rceil> in - int (Suc (log2_nat (m - 1))))"

lemma log2_rat_bounds:
  assumes "0 < x"
  shows "2 powi log2_rat x \<le> x" "x < 2 powi (log2_rat x + 1)"
proof -
  have "2 powi log2_rat x \<le> x \<and> x < 2 powi (log2_rat x + 1)"
  proof (cases "1 \<le> x")
    case True
    define n where "n = nat \<lfloor>x\<rfloor>"
    have n: "0 < n" "of_nat n \<le> x" "x < of_nat n + 1"
      using True floor_correct [of x] by (auto simp: n_def le_floor_iff)
    note b = log2_nat_bounds [OF n(1)]
    have "(2 :: rat) ^ log2_nat n \<le> of_nat n"
      using b by (metis of_nat_le_iff of_nat_numeral of_nat_power)
    moreover have "of_nat n + 1 \<le> (2 :: rat) ^ Suc (log2_nat n)"
    proof -
      have "Suc n \<le> 2 ^ Suc (log2_nat n)" using b by simp
      then have "(of_nat (Suc n) :: rat) \<le> of_nat (2 ^ Suc (log2_nat n))" by (simp only: of_nat_le_iff)
      then show ?thesis by simp
    qed
    moreover have "log2_rat x = int (log2_nat n)" using True by (simp add: log2_rat_def n_def)
    moreover have "(2 :: rat) powi (int (log2_nat n) + 1) = 2 ^ Suc (log2_nat n)"
      by (metis of_nat_Suc power_int_of_nat add.commute)
    ultimately show ?thesis using n by (metis order_trans less_le_trans power_int_of_nat)
  next
    case False
    define m where "m = nat \<lceil>1 / x\<rceil>"
    have y: "1 < 1 / x" using assms False by simp
    then have "1 < \<lceil>1 / x\<rceil>" by (simp add: less_ceiling_iff)
    then have m: "2 \<le> m" unfolding m_def by linarith
    have "(of_nat m :: rat) = of_int \<lceil>1 / x\<rceil>" using \<open>1 < \<lceil>1 / x\<rceil>\<close> by (simp add: m_def)
    then have m: "2 \<le> m" "1 / x \<le> of_nat m" "of_nat (m - 1) < 1 / x"
      using ceiling_correct [of "1 / x"] m by (simp_all add: of_nat_diff)
    define k where "k = log2_nat (m - 1)"
    have b: "2 ^ k \<le> m - 1" "m - 1 < 2 ^ Suc k"
      using log2_nat_bounds [of "m - 1"] m(1) by (auto simp: k_def)
    have "(2 :: rat) ^ k \<le> of_nat (m - 1)"
      using b(1) by (metis of_nat_le_iff of_nat_numeral of_nat_power)
    then have lo: "(2 :: rat) ^ k < 1 / x" using m(3) by (rule le_less_trans)
    have "m \<le> 2 ^ Suc k" using b(2) m(1) by simp
    then have "(of_nat m :: rat) \<le> of_nat (2 ^ Suc k)" by (simp only: of_nat_le_iff)
    then have "(of_nat m :: rat) \<le> 2 ^ Suc k" by (metis of_nat_numeral of_nat_power)
    with m(2) have hi: "1 / x \<le> (2 :: rat) ^ Suc k" by (rule order_trans)
    have e: "log2_rat x = - int (Suc k)"
      using False by (simp add: log2_rat_def m_def k_def Let_def)
    have "(2 :: rat) powi log2_rat x = 1 / 2 ^ Suc k" "(2 :: rat) powi (log2_rat x + 1) = 1 / 2 ^ k"
      unfolding e by (simp_all add: power_int_minus_divide power_int_def nat_add_distrib power_one_over)
    moreover have "1 / 2 ^ Suc k \<le> x" "x < 1 / 2 ^ k"
      using lo hi assms by (simp_all add: field_simps)
    ultimately show ?thesis by simp
  qed
  then show "2 powi log2_rat x \<le> x" "x < 2 powi (log2_rat x + 1)" by auto
qed

lemma powi_two_less_iff: "(2 :: rat) powi a < 2 powi b \<longleftrightarrow> a < b"
  by (meson linorder_not_less one_less_numeral_iff power_int_increasing power_int_strict_increasing
      order_less_imp_le semiring_norm(76) linorder_le_less_linear)

lemma log2_rat_unique: "2 powi e \<le> x \<Longrightarrow> x < 2 powi (e + 1) \<Longrightarrow> log2_rat x = e"
proof -
  assume *: "2 powi e \<le> x" "x < 2 powi (e + 1)"
  then have pos: "0 < x" by (meson less_le_trans zero_less_power_int zero_less_numeral)
  have "(2 :: rat) powi e < 2 powi (log2_rat x + 1)" "(2 :: rat) powi log2_rat x < 2 powi (e + 1)"
    using * log2_rat_bounds [OF pos] by auto
  then show ?thesis by (simp add: powi_two_less_iff)
qed

lemma log2_rat_mono: "0 < x \<Longrightarrow> x \<le> y \<Longrightarrow> log2_rat x \<le> log2_rat y"
proof -
  assume *: "0 < x" "x \<le> y"
  then have "(2 :: rat) powi log2_rat x < 2 powi (log2_rat y + 1)"
    using log2_rat_bounds [of x] log2_rat_bounds [of y] by auto
  then show ?thesis by (simp add: powi_two_less_iff)
qed

section \<open>Rounding to a floating point number\<close>

text \<open>
  A format has \<open>p\<close> significant bits and the largest exponent \<open>emax\<close>; the smallest exponent of a
  normal number is \<open>1 - emax\<close>. Below it the spacing stays constant (subnormal numbers), above
  \<open>2\<^sup>e\<^sup>m\<^sup>a\<^sup>x\<^sup>+\<^sup>1\<close> the result is an infinity.
\<close>

datatype fp = Fin rat | PosInf | NegInf | NaN

definition fp_ulp :: "nat \<Rightarrow> int \<Rightarrow> rat \<Rightarrow> rat" where
  "fp_ulp p emax x = 2 powi (max (log2_rat x) (1 - emax) - int p + 1)"

definition fp_round_pos :: "nat \<Rightarrow> int \<Rightarrow> rat \<Rightarrow> rat" where
  "fp_round_pos p emax x = of_int (round_half_even (x / fp_ulp p emax x)) * fp_ulp p emax x"

definition fp_round :: "nat \<Rightarrow> int \<Rightarrow> rat \<Rightarrow> fp" where
  "fp_round p emax x =
     (if x = 0 then Fin 0
      else let r = fp_round_pos p emax \<bar>x\<bar>
           in if r < 2 powi (emax + 1) then Fin (if x < 0 then - r else r)
              else if 0 < x then PosInf else NegInf)"

definition representable :: "nat \<Rightarrow> int \<Rightarrow> rat \<Rightarrow> bool" where
  "representable p emax x \<longleftrightarrow>
     (\<exists>m k. x = of_int m * 2 powi k \<and> \<bar>m\<bar> \<le> 2 ^ p \<and> 2 - emax - int p \<le> k) \<and> \<bar>x\<bar> < 2 powi (emax + 1)"

lemma fp_ulp_pos: "0 < fp_ulp p emax x"
  by (simp add: fp_ulp_def)

lemma powi_two_add: "(2 :: rat) powi (a + b) = 2 powi a * 2 powi b"
  by (simp add: power_int_add)

lemma powi_two_of_nat: "(2 :: rat) powi int n = of_int (2 ^ n)"
  by simp

text \<open>A number below \<open>2\<^sup>e\<^sup>+\<^sup>1\<close> rounds to at most that, and a power of two in range is kept.\<close>

lemma fp_round_pos_upper:
  assumes "0 < x" "x \<le> 2 powi (max (log2_rat x) (1 - emax) + 1)"
  shows "round_half_even (x / fp_ulp p emax x) \<le> 2 ^ p"
    "fp_round_pos p emax x \<le> 2 powi (max (log2_rat x) (1 - emax) + 1)"
proof -
  let ?e = "max (log2_rat x) (1 - emax)" and ?u = "fp_ulp p emax x"
  have top: "(2 :: rat) powi (?e + 1) = of_int (2 ^ p) * ?u"
    unfolding fp_ulp_def powi_two_of_nat [symmetric] powi_two_add [symmetric] by (simp add: algebra_simps)
  then have "x / ?u \<le> of_int (2 ^ p)"
    using assms(2) fp_ulp_pos [of p emax x] by (simp add: field_simps)
  then show le: "round_half_even (x / ?u) \<le> 2 ^ p"
    using round_half_even_mono round_half_even_of_int by metis
  then have "(of_int (round_half_even (x / ?u)) :: rat) \<le> of_int (2 ^ p)" by (simp only: of_int_le_iff)
  then show "fp_round_pos p emax x \<le> 2 powi (?e + 1)"
    unfolding top fp_round_pos_def using fp_ulp_pos [of p emax x] by (intro mult_right_mono) auto
qed

lemma log2_rat_upper: "0 < x \<Longrightarrow> x \<le> 2 powi (max (log2_rat x) e + 1)"
  using log2_rat_bounds(2) [of x] power_int_increasing [of "log2_rat x + 1" "max (log2_rat x) e + 1" "2 :: rat"]
  by (auto intro: order_trans less_imp_le)

text \<open>A representable number is an integer multiple of the spacing at its exponent.\<close>

lemma representable_multiple:
  assumes "representable p emax x" "0 < x" "0 < p"
  shows "\<exists>n. x = of_int n * fp_ulp p emax x"
proof -
  let ?e = "max (log2_rat x) (1 - emax)"
  obtain m k where mk: "x = of_int m * 2 powi k" "\<bar>m\<bar> \<le> 2 ^ p" "2 - emax - int p \<le> k"
    using assms(1) by (auto simp: representable_def)
  have "0 < (2 :: rat) powi k" by simp
  then have m: "0 < m" using assms(2) mk(1) zero_less_mult_pos2 [of "of_int m :: rat" "2 powi k"] by simp
  have shift: "\<exists>n. x = of_int n * fp_ulp p emax x" if "?e - int p + 1 \<le> k"
  proof -
    have "(2 :: rat) powi k = of_int (2 ^ nat (k - (?e - int p + 1))) * fp_ulp p emax x"
      unfolding fp_ulp_def powi_two_of_nat [symmetric] powi_two_add [symmetric] using that by simp
    then show ?thesis using mk(1) by (intro exI [of _ "m * 2 ^ nat (k - (?e - int p + 1))"]) simp
  qed
  show ?thesis
  proof (cases "m = 2 ^ p")
    case True
    have x: "x = 2 powi (int p + k)"
      using True mk(1) by (simp add: powi_two_add)
    then have e: "log2_rat x = int p + k"
      by (intro log2_rat_unique) (simp_all add: powi_two_less_iff)
    show ?thesis
    proof (cases "1 - emax \<le> int p + k")
      case ge: True
      have "x = of_int (2 ^ (p - 1)) * fp_ulp p emax x"
        unfolding fp_ulp_def e powi_two_of_nat [symmetric] powi_two_add [symmetric]
        using ge assms(3) by (simp add: x of_nat_diff max_def)
      then show ?thesis by blast
    next
      case False
      then show ?thesis using shift mk(3) e by simp
    qed
  next
    case False
    then have "(of_int m :: rat) < of_int (2 ^ p)" using mk(2) m by (simp only: of_int_less_iff)
    then have "x < 2 powi (int p + k)"
      unfolding mk(1) powi_two_add powi_two_of_nat by (intro mult_strict_right_mono) auto
    then have "(2 :: rat) powi log2_rat x < 2 powi (int p + k)"
      using log2_rat_bounds(1) [OF assms(2)] by simp
    then have "log2_rat x < int p + k" by (simp only: powi_two_less_iff)
    then show ?thesis using shift mk(3) by simp
  qed
qed

lemma fp_round_pos_exact:
  assumes "representable p emax x" "0 < x" "0 < p"
  shows "fp_round_pos p emax x = x"
proof -
  obtain n where n: "x = of_int n * fp_ulp p emax x"
    using representable_multiple [OF assms] by blast
  have "x / fp_ulp p emax x = of_int n"
    using fp_ulp_pos [of p emax x] by (subst n) simp
  then show ?thesis using n by (simp add: fp_round_pos_def)
qed

lemma fp_round_pos_mono:
  assumes "0 < x" "x \<le> y" "0 < p"
  shows "fp_round_pos p emax x \<le> fp_round_pos p emax y"
proof -
  let ?ex = "max (log2_rat x) (1 - emax)" and ?ey = "max (log2_rat y) (1 - emax)"
  have le: "?ex \<le> ?ey" using log2_rat_mono [OF assms(1,2)] by simp
  show ?thesis
  proof (cases "?ex = ?ey")
    case True
    then have u: "fp_ulp p emax x = fp_ulp p emax y" by (simp add: fp_ulp_def)
    have "x / fp_ulp p emax y \<le> y / fp_ulp p emax y"
      using assms(2) fp_ulp_pos [of p emax y] by (simp add: divide_right_mono)
    from round_half_even_mono [OF this] show ?thesis
      unfolding fp_round_pos_def u using fp_ulp_pos [of p emax y] by (intro mult_right_mono) auto
  next
    case False
    then have lt: "?ex + 1 \<le> ?ey" using le by simp
    then have ey: "?ey = log2_rat y" by auto
    have "fp_round_pos p emax x \<le> 2 powi (?ex + 1)"
      using fp_round_pos_upper(2) [OF assms(1) log2_rat_upper [OF assms(1)]] .
    also have "\<dots> \<le> 2 powi ?ey" using lt by (intro power_int_increasing) auto
    also have "\<dots> \<le> fp_round_pos p emax y"
    proof -
      let ?u = "fp_ulp p emax y"
      have top: "(2 :: rat) powi ?ey = of_int (2 ^ (p - 1)) * ?u"
        unfolding fp_ulp_def powi_two_of_nat [symmetric] powi_two_add [symmetric]
        using assms(3) by (simp add: of_nat_diff)
      have "2 powi ?ey \<le> y" unfolding ey using log2_rat_bounds(1) [of y] assms by simp
      then have "of_int (2 ^ (p - 1)) \<le> y / ?u"
        unfolding top using fp_ulp_pos [of p emax y] by (simp add: field_simps)
      then have "2 ^ (p - 1) \<le> round_half_even (y / ?u)"
        using round_half_even_mono round_half_even_of_int by metis
      then have "(of_int (2 ^ (p - 1)) :: rat) \<le> of_int (round_half_even (y / ?u))"
        by (simp only: of_int_le_iff)
      then show ?thesis
        unfolding top fp_round_pos_def using fp_ulp_pos [of p emax y] by (intro mult_right_mono) auto
    qed
    finally show ?thesis .
  qed
qed

lemma fp_round_pos_nonneg: "0 < x \<Longrightarrow> 0 \<le> fp_round_pos p emax x"
proof -
  assume "0 < x"
  then have "0 \<le> x / fp_ulp p emax x" using fp_ulp_pos [of p emax x] by simp
  then have "0 \<le> round_half_even (x / fp_ulp p emax x)"
    using round_half_even_mono [of 0] round_half_even_of_int [of 0] by fastforce
  then show ?thesis using fp_ulp_pos [of p emax x] by (simp add: fp_round_pos_def)
qed

text \<open>Rounding is exact on representable numbers, and its finite results are representable.\<close>

lemma fp_round_exact:
  assumes "representable p emax x" "0 < p"
  shows "fp_round p emax x = Fin x"
proof (cases "x = 0")
  case False
  have "representable p emax \<bar>x\<bar>"
  proof -
    obtain m k where mk: "x = of_int m * 2 powi k" "\<bar>m\<bar> \<le> 2 ^ p" "2 - emax - int p \<le> k"
      and lt: "\<bar>x\<bar> < 2 powi (emax + 1)"
      using assms(1) by (auto simp: representable_def)
    have "\<bar>x\<bar> = of_int \<bar>m\<bar> * 2 powi k" by (simp add: mk(1) abs_mult)
    then show ?thesis
      unfolding representable_def using mk(2,3) lt by (metis abs_abs)
  qed
  then have "fp_round_pos p emax \<bar>x\<bar> = \<bar>x\<bar>"
    using fp_round_pos_exact assms(2) False by simp
  then show ?thesis
    using assms(1) False unfolding fp_round_def representable_def by (simp add: Let_def)
qed (simp add: fp_round_def)

lemma fp_round_representable:
  assumes "fp_round p emax x = Fin y" "0 < p" "0 < emax"
  shows "representable p emax y"
proof (cases "x = 0")
  case True
  then show ?thesis using assms by (auto simp: fp_round_def representable_def intro!: exI [of _ 0])
next
  case False
  let ?a = "\<bar>x\<bar>"
  let ?M = "round_half_even (?a / fp_ulp p emax ?a)" and ?k = "max (log2_rat ?a) (1 - emax) - int p + 1"
  have pos: "0 < ?a" using False by simp
  have r: "fp_round_pos p emax ?a < 2 powi (emax + 1)"
    and y: "y = (if x < 0 then - fp_round_pos p emax ?a else fp_round_pos p emax ?a)"
    using assms(1) False by (auto simp: fp_round_def Let_def split: if_splits)
  have M: "?M \<le> 2 ^ p" using fp_round_pos_upper(1) [OF pos log2_rat_upper [OF pos]] .
  have rM: "fp_round_pos p emax ?a = of_int ?M * 2 powi ?k" by (simp add: fp_round_pos_def fp_ulp_def)
  have "0 \<le> ?a / fp_ulp p emax ?a" using fp_ulp_pos [of p emax ?a] by simp
  then have "0 \<le> ?M" using round_half_even_mono [of 0] round_half_even_of_int [of 0] by fastforce
  then have "\<exists>m k. y = of_int m * 2 powi k \<and> \<bar>m\<bar> \<le> 2 ^ p \<and> 2 - emax - int p \<le> k"
    using M rM y by (intro exI [of _ "if x < 0 then - ?M else ?M"] exI [of _ ?k]) auto
  moreover have "\<bar>y\<bar> < 2 powi (emax + 1)"
    using r y fp_round_pos_nonneg [OF pos, of p emax] by auto
  ultimately show ?thesis by (simp add: representable_def)
qed

lemma fp_round_mono:
  assumes "fp_round p emax x = Fin x'" "fp_round p emax y = Fin y'" "x \<le> y" "0 < p"
  shows "x' \<le> y'"
proof -
  have r: "z' = (if z = 0 then 0 else if z < 0 then - fp_round_pos p emax \<bar>z\<bar> else fp_round_pos p emax \<bar>z\<bar>)"
    if "fp_round p emax z = Fin z'" for z z'
    using that by (auto simp: fp_round_def Let_def split: if_splits)
  show ?thesis
    unfolding r [OF assms(1)] r [OF assms(2)]
    using assms(3,4) fp_round_pos_nonneg [of "\<bar>x\<bar>" p emax] fp_round_pos_nonneg [of "\<bar>y\<bar>" p emax]
      fp_round_pos_mono [of x y p emax] fp_round_pos_mono [of "- y" "- x" p emax]
    by auto
qed

section \<open>The operations on f64\<close>

type_synonym f64 = fp

definition f64_round :: "rat \<Rightarrow> f64" where
  "f64_round = fp_round 53 1023"

abbreviation f64_representable :: "rat \<Rightarrow> bool" where
  "f64_representable \<equiv> representable 53 1023"

fun fp_neg :: "fp \<Rightarrow> fp" where
  "fp_neg (Fin x) = Fin (- x)"
| "fp_neg PosInf = NegInf"
| "fp_neg NegInf = PosInf"
| "fp_neg NaN = NaN"

fun f64_add :: "f64 \<Rightarrow> f64 \<Rightarrow> f64" where
  "f64_add (Fin x) (Fin y) = f64_round (x + y)"
| "f64_add NaN y = NaN"
| "f64_add x NaN = NaN"
| "f64_add PosInf NegInf = NaN"
| "f64_add NegInf PosInf = NaN"
| "f64_add PosInf y = PosInf"
| "f64_add x PosInf = PosInf"
| "f64_add NegInf y = NegInf"
| "f64_add x NegInf = NegInf"

definition f64_sub :: "f64 \<Rightarrow> f64 \<Rightarrow> f64" where
  "f64_sub x y = f64_add x (fp_neg y)"

text \<open>The sign of a product or quotient with an infinite operand.\<close>

definition fp_inf :: "bool \<Rightarrow> fp" where
  "fp_inf negative = (if negative then NegInf else PosInf)"

fun f64_mul :: "f64 \<Rightarrow> f64 \<Rightarrow> f64" where
  "f64_mul (Fin x) (Fin y) = f64_round (x * y)"
| "f64_mul NaN y = NaN"
| "f64_mul x NaN = NaN"
| "f64_mul (Fin x) PosInf = (if x = 0 then NaN else fp_inf (x < 0))"
| "f64_mul (Fin x) NegInf = (if x = 0 then NaN else fp_inf (0 < x))"
| "f64_mul PosInf (Fin y) = (if y = 0 then NaN else fp_inf (y < 0))"
| "f64_mul NegInf (Fin y) = (if y = 0 then NaN else fp_inf (0 < y))"
| "f64_mul PosInf PosInf = PosInf"
| "f64_mul PosInf NegInf = NegInf"
| "f64_mul NegInf PosInf = NegInf"
| "f64_mul NegInf NegInf = PosInf"

fun f64_div :: "f64 \<Rightarrow> f64 \<Rightarrow> f64" where
  "f64_div (Fin x) (Fin y) =
     (if y = 0 then (if x = 0 then NaN else fp_inf (x < 0)) else f64_round (x / y))"
| "f64_div NaN y = NaN"
| "f64_div x NaN = NaN"
| "f64_div (Fin x) PosInf = Fin 0"
| "f64_div (Fin x) NegInf = Fin 0"
| "f64_div PosInf (Fin y) = fp_inf (y < 0)"
| "f64_div NegInf (Fin y) = fp_inf (0 \<le> y)"
| "f64_div PosInf PosInf = NaN"
| "f64_div PosInf NegInf = NaN"
| "f64_div NegInf PosInf = NaN"
| "f64_div NegInf NegInf = NaN"

text \<open>The comparison \<^verbatim>\<open><\<close>; every comparison with NaN is false.\<close>

fun fp_less :: "fp \<Rightarrow> fp \<Rightarrow> bool" where
  "fp_less (Fin x) (Fin y) = (x < y)"
| "fp_less NaN y = False"
| "fp_less x NaN = False"
| "fp_less NegInf NegInf = False"
| "fp_less NegInf y = True"
| "fp_less x NegInf = False"
| "fp_less PosInf y = False"
| "fp_less x PosInf = True"

definition fp_less_eq :: "fp \<Rightarrow> fp \<Rightarrow> bool" where
  "fp_less_eq x y \<longleftrightarrow> fp_less x y \<or> (x = y \<and> x \<noteq> NaN)"

text \<open>\<^verbatim>\<open>f64::min\<close> and \<^verbatim>\<open>f64::max\<close> ignore a NaN operand.\<close>

definition fp_min :: "fp \<Rightarrow> fp \<Rightarrow> fp" where
  "fp_min x y = (if x = NaN then y else if y = NaN then x else if fp_less y x then y else x)"

definition fp_max :: "fp \<Rightarrow> fp \<Rightarrow> fp" where
  "fp_max x y = (if x = NaN then y else if y = NaN then x else if fp_less x y then y else x)"

text \<open>\<^verbatim>\<open>f64::from(u32)\<close> is exact; \<^verbatim>\<open>iter.sum::<f64>()\<close> adds from the left.\<close>

definition f64_from_u32 :: "u32 \<Rightarrow> f64" where
  "f64_from_u32 w = Fin (of_int (uint w))"

definition f64_sum :: "f64 list \<Rightarrow> f64" where
  "f64_sum xs = foldl f64_add (Fin 0) xs"

text \<open>\<^verbatim>\<open>round\<close> (half away from zero), \<^verbatim>\<open>ceil\<close> and the saturating casts.\<close>

definition round_half_away :: "rat \<Rightarrow> int" where
  "round_half_away x = (if 0 \<le> x then \<lfloor>x + 1 / 2\<rfloor> else \<lceil>x - 1 / 2\<rceil>)"

fun fp_integral :: "(rat \<Rightarrow> int) \<Rightarrow> fp \<Rightarrow> fp" where
  "fp_integral f (Fin x) = Fin (of_int (f x))"
| "fp_integral f x = x"

fun fp_to_u32 :: "fp \<Rightarrow> u32" where
  "fp_to_u32 (Fin x) =
     (if x < 0 then 0 else if 2 ^ 32 - 1 \<le> x then 0xFFFFFFFF else of_int \<lfloor>x\<rfloor>)"
| "fp_to_u32 PosInf = 0xFFFFFFFF"
| "fp_to_u32 NegInf = 0"
| "fp_to_u32 NaN = 0"

lemmas f64_exact = fp_round_exact [of 53 1023, folded f64_round_def, simplified]
lemmas f64_round_representable = fp_round_representable [of 53 1023, folded f64_round_def, simplified]
lemmas f64_round_mono = fp_round_mono [of 53 1023, folded f64_round_def, simplified]

text \<open>Integers up to \<open>2\<^sup>5\<^sup>3\<close> are representable, and so is the double of a representable number below \<open>2\<^sup>1\<^sup>0\<^sup>2\<^sup>3\<close>.\<close>

lemma f64_representable_int: "\<bar>n\<bar> \<le> 2 ^ 53 \<Longrightarrow> f64_representable (of_int n)"
proof -
  assume n: "\<bar>n\<bar> \<le> 2 ^ 53"
  have "\<bar>of_int n :: rat\<bar> \<le> of_int (2 ^ 53)"
    using n by (simp only: of_int_abs [symmetric] of_int_le_iff)
  also have "\<dots> < 2 powi (1023 + 1)" by (simp add: power_int_def)
  finally show ?thesis
    unfolding representable_def using n by (intro conjI exI [of _ n] exI [of _ 0]) auto
qed

lemma f64_representable_double:
  assumes "f64_representable x" "\<bar>2 * x\<bar> < 2 powi 1024"
  shows "f64_representable (2 * x)"
proof -
  obtain m k where mk: "x = of_int m * 2 powi k" "\<bar>m\<bar> \<le> 2 ^ 53" "2 - 1023 - int 53 \<le> k"
    using assms(1) by (auto simp: representable_def)
  have "2 * x = of_int m * 2 powi (k + 1)" using mk(1) by (simp add: powi_two_add)
  then have "\<exists>m k. 2 * x = of_int m * 2 powi k \<and> \<bar>m\<bar> \<le> 2 ^ 53 \<and> 2 - 1023 - int 53 \<le> k"
    using mk(2,3) by (intro exI [of _ m] exI [of _ "k + 1"]) auto
  then show ?thesis using assms(2) unfolding representable_def by simp
qed

lemma f64_round_int: "\<bar>n\<bar> \<le> 2 ^ 53 \<Longrightarrow> f64_round (of_int n) = Fin (of_int n)"
  by (intro f64_exact f64_representable_int)

lemma f64_round_zero [simp]: "f64_round 0 = Fin 0"
  by (simp add: f64_round_def fp_round_def)

text \<open>Rounding against a representable bound.\<close>

lemma f64_round_ge:
  assumes "f64_representable c" "0 \<le> c" "c \<le> z"
  shows "f64_round z = PosInf \<or> (\<exists>y\<ge>c. f64_round z = Fin y)"
proof (cases "f64_round z")
  case (Fin y)
  then show ?thesis using f64_round_mono [OF f64_exact [OF assms(1)] Fin assms(3)] by blast
next
  case NegInf
  then show ?thesis using assms(2,3) by (auto simp: f64_round_def fp_round_def Let_def split: if_splits)
next
  case NaN
  then show ?thesis by (auto simp: f64_round_def fp_round_def Let_def split: if_splits)
qed simp

lemma f64_round_le:
  assumes "f64_representable c" "0 \<le> z" "z \<le> c"
  shows "\<exists>y. f64_round z = Fin y \<and> 0 \<le> y \<and> y \<le> c"
proof (cases "z = 0")
  case False
  then have pos: "0 < z" "0 < c" using assms by auto
  have "fp_round_pos 53 1023 z \<le> c"
    using fp_round_pos_mono [OF pos(1) assms(3), of 53 1023] fp_round_pos_exact [OF assms(1) pos(2)] by simp
  moreover have "c < 2 powi (1023 + 1)" using assms(1) pos(2) by (simp add: representable_def)
  ultimately have "f64_round z = Fin (fp_round_pos 53 1023 z)" "fp_round_pos 53 1023 z \<le> c"
    using pos(1) by (simp_all add: f64_round_def fp_round_def Let_def)
  then show ?thesis using fp_round_pos_nonneg [OF pos(1)] by simp
qed (use assms in simp)

lemma f64_representable_numeral: "(numeral n :: int) \<le> 2 ^ 53 \<Longrightarrow> f64_representable (numeral n)"
  using f64_representable_int [of "numeral n"] by simp

text \<open>The quotient of a weight and a total that bounds it.\<close>

lemma uint_pos: "t \<noteq> 0 \<Longrightarrow> 0 < uint t"
  using uint_ge_0 [of t] by (simp add: uint_0_iff order_less_le)

lemma f64_div_u32:
  "t \<noteq> 0 \<Longrightarrow> f64_div (f64_from_u32 w) (f64_from_u32 t) = f64_round (of_int (uint w) / of_int (uint t))"
proof -
  assume "t \<noteq> 0"
  then have "(of_int (uint t) :: rat) \<noteq> 0" using uint_pos [of t] by (simp only: of_int_eq_0_iff) simp
  then show ?thesis by (simp only: f64_from_u32_def f64_div.simps if_False)
qed

lemma normalized_weight:
  assumes "uint w \<le> uint t" "t \<noteq> 0"
  shows "\<exists>y. f64_div (f64_from_u32 w) (f64_from_u32 t) = Fin y \<and> 0 \<le> y \<and> y \<le> 1 \<and> f64_representable y"
proof -
  note t = uint_pos [OF assms(2)]
  let ?z = "of_int (uint w) / of_int (uint t) :: rat"
  have "0 \<le> of_int a / (of_int b :: rat) \<and> of_int a / (of_int b :: rat) \<le> 1" if "0 \<le> a" "a \<le> b" "0 < b" for a b :: int
    using that by (simp add: divide_le_eq_1)
  then have z: "0 \<le> ?z" "?z \<le> 1" using assms(1) t uint_ge_0 [of w] by blast+
  obtain y where y: "f64_round ?z = Fin y" "0 \<le> y" "y \<le> 1"
    using f64_round_le [of 1 ?z] z f64_representable_int [of 1] by auto
  then show ?thesis
    using f64_round_representable [OF y(1)] f64_div_u32 [OF assms(2), of w] by auto
qed

end
