(* ===== verification/Health.thy ===== *)
theory Health
  imports Float64
begin

text \<open>
  Active health checking (\<^verbatim>\<open>arion-lib/src/clusters/health\<close>): the health status of an endpoint,
  the counter that turns check results into status changes, the classification of the responses by
  the HTTP, gRPC and TCP checkers, the payload matcher of the TCP checker and the checker loop with
  its intervals. The counter is shown to implement the thresholds over the history of the checks.
\<close>

section \<open>Health status\<close>

datatype HealthStatus = Healthy | Unhealthy

datatype ValueUpdated = Updated | NotUpdated

definition is_healthy :: "HealthStatus \<Rightarrow> bool" where
  "is_healthy s \<longleftrightarrow> s = Healthy"

text \<open>\<^verbatim>\<open>EndpointHealth for HealthStatus\<close>: the first argument is the status that is updated.\<close>

definition HealthStatus_update_health :: "HealthStatus \<Rightarrow> HealthStatus \<Rightarrow> ValueUpdated \<times> HealthStatus" where
  "HealthStatus_update_health self health =
     (if self = health then (NotUpdated, self) else (Updated, health))"

section \<open>The counter\<close>

record HealthStatusCounter =
  status :: "HealthStatus option"
  checks :: int
  healthy_threshold :: int
  unhealthy_threshold :: int

definition HealthStatusCounter_new :: "u16 \<Rightarrow> u16 \<Rightarrow> HealthStatusCounter" where
  "HealthStatusCounter_new h u =
     \<lparr>status = None, checks = 0, healthy_threshold = uint h, unhealthy_threshold = - uint u\<rparr>"

definition counter_update ::
  "HealthStatus \<Rightarrow> HealthStatusCounter \<Rightarrow> HealthStatus option \<times> HealthStatusCounter" where
  "counter_update new_status c =
     (let c = (if Some new_status \<noteq> status c then c\<lparr>status := Some new_status\<rparr> else c)
      in (status c, c))"

definition add_success :: "HealthStatusCounter \<Rightarrow> HealthStatus option \<times> HealthStatusCounter" where
  "add_success c =
     (let c = (if checks c < 0 then c\<lparr>checks := 0\<rparr> else c);
          c = (if checks c < healthy_threshold c then c\<lparr>checks := checks c + 1\<rparr> else c)
      in case status c of
           None \<Rightarrow> counter_update Healthy c
         | Some Healthy \<Rightarrow> (None, c)
         | Some Unhealthy \<Rightarrow>
             if healthy_threshold c \<le> checks c then counter_update Healthy c else (None, c))"

definition add_failure_impl ::
  "bool \<Rightarrow> HealthStatusCounter \<Rightarrow> HealthStatus option \<times> HealthStatusCounter" where
  "add_failure_impl ignore_threshold c =
     (let c = (if 0 < checks c then c\<lparr>checks := 0\<rparr> else c);
          c = (if unhealthy_threshold c < checks c then c\<lparr>checks := checks c - 1\<rparr> else c)
      in case status c of
           None \<Rightarrow> counter_update Unhealthy c
         | Some Unhealthy \<Rightarrow> (None, c)
         | Some Healthy \<Rightarrow>
             if ignore_threshold \<or> checks c \<le> unhealthy_threshold c then counter_update Unhealthy c
             else (None, c))"

definition add_failure :: "HealthStatusCounter \<Rightarrow> HealthStatus option \<times> HealthStatusCounter" where
  "add_failure = add_failure_impl False"

definition add_failure_ignore_threshold ::
  "HealthStatusCounter \<Rightarrow> HealthStatus option \<times> HealthStatusCounter" where
  "add_failure_ignore_threshold = add_failure_impl True"

section \<open>The checkers\<close>

text \<open>A status range is a half-open Rust \<^verbatim>\<open>Range<u16>\<close>.\<close>

definition status_in_ranges :: "(u16 \<times> u16) list \<Rightarrow> u16 \<Rightarrow> bool" where
  "status_in_ranges ranges code = list_ex (\<lambda>(lo, hi). lo \<le> code \<and> code < hi) ranges"

definition http_process_response ::
  "(u16 \<times> u16) list \<Rightarrow> (u16 \<times> u16) list \<Rightarrow> u16 \<Rightarrow> HealthStatusCounter
     \<Rightarrow> HealthStatus option \<times> HealthStatusCounter" where
  "http_process_response expected_statuses retriable_statuses status_code counter =
     (let default_expectation = (expected_statuses = [] \<and> status_code = 200)
      in if default_expectation \<or> status_in_ranges expected_statuses status_code then add_success counter
         else if status_in_ranges retriable_statuses status_code then add_failure counter
         else add_failure_ignore_threshold counter)"

datatype ServingStatus = Unknown | Serving | NotServing | ServiceUnknown

definition grpc_process_response ::
  "ServingStatus \<Rightarrow> HealthStatusCounter \<Rightarrow> HealthStatus option \<times> HealthStatusCounter" where
  "grpc_process_response serving counter =
     (case serving of Serving \<Rightarrow> add_success counter | _ \<Rightarrow> add_failure counter)"

definition tcp_process_response :: "HealthStatusCounter \<Rightarrow> HealthStatus option \<times> HealthStatusCounter" where
  "tcp_process_response counter = add_success counter"

subsection \<open>The payload matcher of the TCP checker\<close>
















section \<open>The checker loop\<close>

text \<open>
  \<^verbatim>\<open>Duration::mul_f32\<close>: the duration in seconds as an \<^verbatim>\<open>f32\<close> (seconds and nanoseconds
  converted separately), multiplied, and converted back to the nearest nanosecond; it panics when
  the product is negative, too big or not a number.
\<close>

definition f32_round :: "rat \<Rightarrow> fp" where
  "f32_round = fp_round 24 127"

definition f32_lift2 :: "(rat \<Rightarrow> rat \<Rightarrow> rat) \<Rightarrow> fp \<Rightarrow> fp \<Rightarrow> fp" where
  "f32_lift2 f a b = (case (a, b) of (Fin x, Fin y) \<Rightarrow> f32_round (f x y) | _ \<Rightarrow> NaN)"

definition as_secs_f32 :: "duration \<Rightarrow> fp" where
  "as_secs_f32 d =
     f32_lift2 (+) (f32_round (of_nat (d div 10 ^ 9)))
       (f32_lift2 (/) (f32_round (of_nat (d mod 10 ^ 9))) (f32_round (10 ^ 9)))"

definition from_secs_f32 :: "fp \<Rightarrow> duration option" where
  "from_secs_f32 x =
     (case x of
        Fin s \<Rightarrow>
          if s < 0 \<or> duration_MAX < nat (round_half_even (s * 10 ^ 9)) then None
          else Some (nat (round_half_even (s * 10 ^ 9)))
      | _ \<Rightarrow> None)"

definition mul_f32 :: "duration \<Rightarrow> rat \<Rightarrow> duration option" where
  [rust_std]: "mul_f32 d percent = from_secs_f32 (f32_lift2 (*) (Fin percent) (as_secs_f32 d))"

record ClusterHealthCheck =
  timeout :: duration
  interval :: duration
  config_unhealthy_threshold :: u16
  config_healthy_threshold :: u16
  initial_jitter :: "duration option"
  interval_jitter :: "duration option"
  interval_jitter_percent :: rat
  unhealthy_interval :: "duration option"
  unhealthy_edge_interval :: "duration option"
  healthy_edge_interval :: "duration option"

datatype CurrentHealthStatus = Unchanged "HealthStatus option" | Edge HealthStatus

definition unwrap_or :: "'a \<Rightarrow> 'a option \<Rightarrow> 'a" where
  [rust_std]: "unwrap_or d x = (case x of None \<Rightarrow> d | Some y \<Rightarrow> y)"

text \<open>The wait of \<^verbatim>\<open>IntervalWaiter\<close> before the next check; \<open>None\<close> is a panic.\<close>

definition wait_interval :: "ClusterHealthCheck \<Rightarrow> CurrentHealthStatus \<Rightarrow> duration option" where
  "wait_interval config health_status =
     (let base = (case health_status of
                    Edge Healthy \<Rightarrow> unwrap_or (interval config) (healthy_edge_interval config)
                  | Edge Unhealthy \<Rightarrow> unwrap_or (interval config) (unhealthy_edge_interval config)
                  | Unchanged (Some Unhealthy) \<Rightarrow> unwrap_or (interval config) (unhealthy_interval config)
                  | Unchanged _ \<Rightarrow> interval config)
      in do {
        jittered \<leftarrow> (case interval_jitter config of
                       Some jitter \<Rightarrow> duration_add base jitter
                     | None \<Rightarrow> Some base);
        extra \<leftarrow> mul_f32 jittered (interval_jitter_percent config);
        duration_add jittered extra
      })"

text \<open>
  One round of the loop of \<^verbatim>\<open>HealthCheckerLoop::run\<close>: the result of the check is counted by the
  protocol checker, the update is sent, and the wait is computed. A round that is cancelled during
  the check ends the loop; so does a wait that is cancelled, which is an input of the model.
\<close>

datatype 'r HealthCheckResult = Response "unit + 'r" | Timeout | Cancelled

record EndpointHealthUpdate =
  health :: HealthStatus
  changed :: bool

definition count_result ::
  "('r \<Rightarrow> HealthStatusCounter \<Rightarrow> HealthStatus option \<times> HealthStatusCounter) \<Rightarrow> 'r HealthCheckResult
     \<Rightarrow> HealthStatusCounter \<Rightarrow> (HealthStatus option \<times> HealthStatusCounter) option" where
  "count_result process_response result c =
     (case result of
        Timeout \<Rightarrow> Some (add_failure c)
      | Response (Inl err) \<Rightarrow> Some (add_failure c)
      | Response (Inr response) \<Rightarrow> Some (process_response response c)
      | Cancelled \<Rightarrow> None)"

fun checker_loop ::
  "('r \<Rightarrow> HealthStatusCounter \<Rightarrow> HealthStatus option \<times> HealthStatusCounter) \<Rightarrow> HealthStatusCounter
     \<Rightarrow> ('r HealthCheckResult \<times> bool) list
     \<Rightarrow> (EndpointHealthUpdate \<times> CurrentHealthStatus) list \<times> HealthStatusCounter" where
  "checker_loop process_response c [] = ([], c)"
| "checker_loop process_response c ((result, wait_cancelled) # rest) =
     (case count_result process_response result c of
        None \<Rightarrow> ([], c)
      | Some (change, c) \<Rightarrow>
          let update = \<lparr>health = unwrap_or Healthy (status c), changed = (change \<noteq> None)\<rparr>;
              wait = (case change of Some s \<Rightarrow> Edge s | None \<Rightarrow> Unchanged (status c))
          in if wait_cancelled then ([(update, wait)], c)
             else let (updates, c) = checker_loop process_response c rest
                  in ((update, wait) # updates, c))"

section \<open>The counter implements the thresholds\<close>

text \<open>
  What the counter is told: a success, a failure, or a failure that is not subject to the threshold.
\<close>

datatype check_outcome = Success | Failure | Failure_Now

definition count_outcome ::
  "check_outcome \<Rightarrow> HealthStatusCounter \<Rightarrow> HealthStatus option \<times> HealthStatusCounter" where
  "count_outcome oc = (case oc of
     Success \<Rightarrow> add_success | Failure \<Rightarrow> add_failure | Failure_Now \<Rightarrow> add_failure_ignore_threshold)"

text \<open>
  The specification looks at the whole history, latest outcome first. The first outcome decides
  alone; afterwards an endpoint becomes healthy with the \<open>h\<close>-th success in a row, and unhealthy
  with the \<open>u\<close>-th failure in a row or with a failure that ignores the threshold.
\<close>

fun threshold_status :: "nat \<Rightarrow> nat \<Rightarrow> check_outcome list \<Rightarrow> HealthStatus option" where
  "threshold_status h u [] = None"
| "threshold_status h u (oc # past) =
     (case threshold_status h u past of
        None \<Rightarrow> Some (if oc = Success then Healthy else Unhealthy)
      | Some Healthy \<Rightarrow>
          if oc = Failure_Now \<or>
             oc = Failure \<and> u \<le> length (takeWhile (\<lambda>q. q \<noteq> Success) (oc # past))
          then Some Unhealthy else Some Healthy
      | Some Unhealthy \<Rightarrow>
          if oc = Success \<and> h \<le> length (takeWhile (\<lambda>q. q = Success) (oc # past))
          then Some Healthy else Some Unhealthy)"

definition count_all :: "check_outcome list \<Rightarrow> HealthStatusCounter \<Rightarrow> HealthStatusCounter" where
  "count_all ocs c = fold (\<lambda>oc c. snd (count_outcome oc c)) ocs c"

text \<open>The counter remembers of the history its current run, up to the threshold.\<close>

definition counter_tracks :: "nat \<Rightarrow> nat \<Rightarrow> check_outcome list \<Rightarrow> HealthStatusCounter \<Rightarrow> bool" where
  "counter_tracks h u past c \<longleftrightarrow>
     healthy_threshold c = int h \<and> unhealthy_threshold c = - int u \<and>
     status c = threshold_status h u past \<and>
     checks c = (case past of
        [] \<Rightarrow> 0
      | oc # _ \<Rightarrow>
          if oc = Success then int (min (length (takeWhile (\<lambda>q. q = Success) past)) h)
          else - int (min (length (takeWhile (\<lambda>q. q \<noteq> Success) past)) u))"

lemma counter_tracks_new: "counter_tracks (unat h) (unat u) [] (HealthStatusCounter_new h u)"
  by (simp add: counter_tracks_def HealthStatusCounter_new_def)

lemmas counter_defs = add_success_def add_failure_def add_failure_ignore_threshold_def
  add_failure_impl_def counter_update_def count_outcome_def

lemma counter_tracks_step:
  assumes "counter_tracks h u past c"
  shows "counter_tracks h u (oc # past) (snd (count_outcome oc c)) \<and>
    fst (count_outcome oc c) =
      (if threshold_status h u (oc # past) = threshold_status h u past
       then None else threshold_status h u (oc # past))"
proof -
  have thr: "healthy_threshold c = int h" "unhealthy_threshold c = - int u"
    and st: "status c = threshold_status h u past"
    using assms by (simp_all add: counter_tracks_def)
  have ch: "checks c = (case past of
        [] \<Rightarrow> 0
      | oc # _ \<Rightarrow>
          if oc = Success then int (min (length (takeWhile (\<lambda>q. q = Success) past)) h)
          else - int (min (length (takeWhile (\<lambda>q. q \<noteq> Success) past)) u))"
    using assms by (simp add: counter_tracks_def)
  define s where "s = length (takeWhile (\<lambda>q. q = Success) past)"
  define f where "f = length (takeWhile (\<lambda>q. q \<noteq> Success) past)"
  have cs: "checks c = (if f = 0 then int (min s h) else - int (min f u))"
    and excl: "s = 0 \<or> f = 0"
    using ch by (auto simp: s_def f_def split: list.splits)
  show ?thesis
  proof (cases "status c")
    case None
    then show ?thesis
      using thr st cs excl
      by (cases oc) (auto simp: counter_tracks_def counter_defs Let_def s_def [symmetric] f_def [symmetric] min_def)
  next
    case (Some hs)
    then show ?thesis
      using thr st cs excl
      by (cases hs; cases oc)
         (auto simp: counter_tracks_def counter_defs Let_def s_def [symmetric] f_def [symmetric] min_def)
  qed
qed

lemma counter_tracks_all:
  "counter_tracks (unat h) (unat u) (rev ocs) (count_all ocs (HealthStatusCounter_new h u))"
proof (induction ocs rule: rev_induct)
  case Nil
  then show ?case by (simp add: count_all_def counter_tracks_new)
next
  case (snoc oc ocs)
  then show ?case using counter_tracks_step by (simp add: count_all_def)
qed

section \<open>The checkers count one outcome per check\<close>

text \<open>
  What the loop relies on: a protocol checker maps every response to one outcome for the counter.
\<close>

locale protocol_checker =
  fixes process_response :: "'r \<Rightarrow> HealthStatusCounter \<Rightarrow> HealthStatus option \<times> HealthStatusCounter"
    and classify :: "'r \<Rightarrow> check_outcome"
  assumes process_response: "process_response r c = count_outcome (classify r) c"
begin

text \<open>A timeout and a failed request count as failures.\<close>

definition outcome :: "'r HealthCheckResult \<Rightarrow> check_outcome" where
  "outcome result = (case result of Response (Inr r) \<Rightarrow> classify r | _ \<Rightarrow> Failure)"

lemma count_result_outcome:
  "result \<noteq> Cancelled \<Longrightarrow> count_result process_response result c = Some (count_outcome (outcome result) c)"
  by (auto simp: count_result_def outcome_def process_response count_outcome_def
      split: HealthCheckResult.splits sum.splits)

text \<open>
  In a run that is not cancelled every check sends one update. The update reports the status that
  the thresholds give for the history so far, and it is marked as a change exactly when that status
  is new.
\<close>

lemma checker_loop_reports:
  assumes "counter_tracks h u past c" "\<forall>(result, cancelled)\<in>set rounds. result \<noteq> Cancelled \<and> \<not> cancelled"
    and "checker_loop process_response c rounds = (updates, c')" "i < length rounds"
  shows "length updates = length rounds"
    "Some (health (fst (updates ! i))) =
       threshold_status h u (rev (map (outcome \<circ> fst) (take (Suc i) rounds)) @ past)"
    "changed (fst (updates ! i)) \<longleftrightarrow>
       threshold_status h u (rev (map (outcome \<circ> fst) (take (Suc i) rounds)) @ past) \<noteq>
       threshold_status h u (rev (map (outcome \<circ> fst) (take i rounds)) @ past)"
proof -
  have "length updates = length rounds \<and>
    Some (health (fst (updates ! i))) =
       threshold_status h u (rev (map (outcome \<circ> fst) (take (Suc i) rounds)) @ past) \<and>
    (changed (fst (updates ! i)) \<longleftrightarrow>
       threshold_status h u (rev (map (outcome \<circ> fst) (take (Suc i) rounds)) @ past) \<noteq>
       threshold_status h u (rev (map (outcome \<circ> fst) (take i rounds)) @ past))"
    using assms
  proof (induction rounds arbitrary: c past updates i)
    case (Cons round rounds)
    obtain result where round: "round = (result, False)" and res: "result \<noteq> Cancelled"
      using Cons.prems(2) by (cases round) auto
    define oc where "oc = outcome result"
    obtain change d where step: "count_outcome oc c = (change, d)" by (cases "count_outcome oc c")
    have cr: "count_result process_response result c = Some (change, d)"
      using count_result_outcome [OF res] step by (simp add: oc_def)
    note tracks = counter_tracks_step [OF Cons.prems(1), of oc, unfolded step fst_conv snd_conv]
    obtain us where rest: "checker_loop process_response d rounds = (us, c')"
      and updates: "updates = (\<lparr>health = unwrap_or Healthy (status d), changed = (change \<noteq> None)\<rparr>,
        case change of Some s \<Rightarrow> Edge s | None \<Rightarrow> Unchanged (status d)) # us"
      using Cons.prems(3) round cr by (auto split: prod.splits)
    have st: "status d = threshold_status h u (oc # past)"
      using tracks by (simp add: counter_tracks_def)
    have some: "\<exists>s. threshold_status h u (oc # past) = Some s"
      by (auto split: option.splits HealthStatus.splits)
    have len: "length us = length rounds"
    proof (cases rounds)
      case Nil
      then show ?thesis using rest by simp
    next
      case (Cons r rs)
      then show ?thesis
        using Cons.IH [of "oc # past" d us 0] tracks rest Cons.prems(2) by simp
    qed
    show ?case
    proof (cases i)
      case 0
      have "changed (fst (updates ! 0)) \<longleftrightarrow> threshold_status h u (oc # past) \<noteq> threshold_status h u past"
        using tracks some updates by (auto simp del: threshold_status.simps)
      then show ?thesis
        using 0 len st some updates round
        by (auto simp: oc_def unwrap_or_def simp del: threshold_status.simps)
    next
      case (Suc j)
      then show ?thesis
        using Cons.IH [of "oc # past" d us j] tracks rest Cons.prems(2,4) len updates round
        by (simp add: oc_def)
    qed
  qed simp
  then show "length updates = length rounds"
    "Some (health (fst (updates ! i))) =
       threshold_status h u (rev (map (outcome \<circ> fst) (take (Suc i) rounds)) @ past)"
    "changed (fst (updates ! i)) \<longleftrightarrow>
       threshold_status h u (rev (map (outcome \<circ> fst) (take (Suc i) rounds)) @ past) \<noteq>
       threshold_status h u (rev (map (outcome \<circ> fst) (take i rounds)) @ past)"
    by auto
qed

end

definition http_outcome :: "(u16 \<times> u16) list \<Rightarrow> (u16 \<times> u16) list \<Rightarrow> u16 \<Rightarrow> check_outcome" where
  "http_outcome expected retriable code =
     (if expected = [] \<and> code = 200 \<or> status_in_ranges expected code then Success
      else if status_in_ranges retriable code then Failure else Failure_Now)"

interpretation http: protocol_checker "http_process_response expected retriable"
  "http_outcome expected retriable" for expected retriable
  by unfold_locales (simp add: http_process_response_def http_outcome_def count_outcome_def Let_def)

interpretation grpc: protocol_checker grpc_process_response
  "\<lambda>s. if s = Serving then Success else Failure"
  by unfold_locales (auto simp: grpc_process_response_def count_outcome_def split: ServingStatus.split)

interpretation tcp: protocol_checker "\<lambda>_. tcp_process_response" "\<lambda>_. Success"
  by unfold_locales (simp add: tcp_process_response_def count_outcome_def)

section \<open>The payload matcher\<close>















section \<open>Properties\<close>

text \<open>C13: The health counter implements the configured thresholds. After any sequence of check outcomes its
  status is the one the specification computes from the whole history: the first check decides alone, the
  configured number of successes in a row makes an unhealthy endpoint healthy, the configured number of
  failures in a row, or one failure that ignores the threshold, makes a healthy one unhealthy. The next outcome
  is reported as a change exactly if the status it leads to is new.\<close>

theorem health_counter_thresholds:
  "status (count_all ocs (HealthStatusCounter_new h u)) = threshold_status (unat h) (unat u) (rev ocs) \<and>
   fst (count_outcome oc (count_all ocs (HealthStatusCounter_new h u))) =
     (let old = threshold_status (unat h) (unat u) (rev ocs);
          new = threshold_status (unat h) (unat u) (oc # rev ocs)
      in if new = old then None else new)"
  using counter_tracks_all [of h u ocs] counter_tracks_step
  unfolding Let_def counter_tracks_def by blast

text \<open>C34: The HTTP health checker reports what the thresholds say. In a run of the checker loop that is not
  cancelled, every check sends an update; the update carries the status the thresholds give for the responses
  received so far (expected codes succeed, retriable codes, errors and timeouts fail, all other codes fail at
  once), and it is marked as a change exactly if that status differs from the one before the check.\<close>

theorem http_checker_reports:
  assumes "\<forall>(result, cancelled)\<in>set rounds. result \<noteq> Cancelled \<and> \<not> cancelled"
    and "checker_loop (http_process_response expected retriable) (HealthStatusCounter_new h u) rounds =
      (updates, c)"
    and "i < length rounds"
  shows "let outcome = (\<lambda>(result, cancelled). case result of
              Response (Inr code) \<Rightarrow> http_outcome expected retriable code | _ \<Rightarrow> Failure);
            status_after = (\<lambda>k. threshold_status (unat h) (unat u) (rev (map outcome (take k rounds))))
    in length updates = length rounds \<and> Some (health (fst (updates ! i))) = status_after (Suc i) \<and>
       (changed (fst (updates ! i)) \<longleftrightarrow> status_after (Suc i) \<noteq> status_after i)"
proof -
  have eq: "(\<lambda>(result, cancelled). case result of
      Response (Inr code) \<Rightarrow> http_outcome expected retriable code | _ \<Rightarrow> Failure) =
    http.outcome expected retriable \<circ> fst"
    by (auto simp: fun_eq_iff http.outcome_def)
  show ?thesis
    unfolding eq Let_def using http.checker_loop_reports [OF counter_tracks_new assms] by simp
qed

theorem http_checker_reports_witness:
  "let rounds = [(Response (Inr 200), False), (Response (Inr 503), False), (Timeout, False)];
       (updates, c) = checker_loop (http_process_response [] [(500, 600)]) (HealthStatusCounter_new 2 2) rounds
   in map (health \<circ> fst) updates = [Healthy, Healthy, Unhealthy] \<and>
      Some (health (fst (updates ! 2))) = threshold_status 2 2 [Failure, Failure, Success]"
  using http_checker_reports [of "[(Response (Inr 200), False), (Response (Inr 503), False), (Timeout, False)]"
      "[]" "[(500, 600)]" 2 2 _ _ 2]
  by (simp add: http_process_response_def http_outcome_def status_in_ranges_def counter_defs count_result_def
      HealthStatusCounter_new_def unwrap_or_def Let_def)


end
