(* ===== verification/Priority_Balancer.thy ===== *)
theory Priority_Balancer
  imports Round_Robin Health "HOL-Library.AList" "HOL-Library.Multiset"
begin

text \<open>
  The wrappers that every balancing policy is used through:
  \<^verbatim>\<open>healthy.rs\<close>, which rebuilds the policy's balancer from the healthy endpoints,
  \<^verbatim>\<open>priority.rs\<close>, which computes the share of every priority from the health of its endpoints
  in floating point, and \<^verbatim>\<open>default_balancer.rs\<close>, which selects a priority by weighted round
  robin and then an endpoint of that priority. The policy is a parameter: its
  \<^verbatim>\<open>FromIterator\<close> and \<^verbatim>\<open>Balancer\<close> implementations are arguments of the definitions.
  The arithmetic is that of the release profile, which wraps on overflow.
\<close>

section \<open>The healthy balancer\<close>

record 'e HealthyLbItem =
  hl_item :: 'e
  hl_health :: HealthStatus

record ('b, 'e) HealthyBalancer =
  hb_items :: "'e HealthyLbItem list"
  hb_balancer :: 'b

definition healthy_items :: "'e HealthyLbItem list \<Rightarrow> 'e list" where
  "healthy_items xs = map hl_item (filter (\<lambda>x. is_healthy (hl_health x)) xs)"

definition HealthyBalancer_reload ::
  "('e list \<Rightarrow> 'b) \<Rightarrow> ('b, 'e) HealthyBalancer \<Rightarrow> ('b, 'e) HealthyBalancer" where
  "HealthyBalancer_reload from_iter b = b\<lparr>hb_balancer := from_iter (healthy_items (hb_items b))\<rparr>"

definition HealthyBalancer_new ::
  "('e list \<Rightarrow> 'b) \<Rightarrow> 'b \<Rightarrow> 'e HealthyLbItem list \<Rightarrow> ('b, 'e) HealthyBalancer" where
  "HealthyBalancer_new from_iter dflt xs =
     HealthyBalancer_reload from_iter \<lparr>hb_items = xs, hb_balancer = dflt\<rparr>"

definition HealthyBalancer_next_item ::
  "(u64 option \<Rightarrow> 'b \<Rightarrow> 'e option \<times> 'b) \<Rightarrow> u64 option \<Rightarrow> ('b, 'e) HealthyBalancer
     \<Rightarrow> 'e option \<times> ('b, 'e) HealthyBalancer" where
  "HealthyBalancer_next_item next_item hash b =
     (let (r, inner) = next_item hash (hb_balancer b) in (r, b\<lparr>hb_balancer := inner\<rparr>))"

text \<open>The error of \<^verbatim>\<open>update_health\<close>: there is no such endpoint.\<close>

datatype lb_error = EndpointNotFound

definition HealthyBalancer_update_health ::
  "('e list \<Rightarrow> 'b) \<Rightarrow> ('e \<Rightarrow> 'e \<Rightarrow> bool) \<Rightarrow> 'e \<Rightarrow> HealthStatus \<Rightarrow> ('b, 'e) HealthyBalancer
     \<Rightarrow> (lb_error + ValueUpdated) \<times> ('b, 'e) HealthyBalancer" where
  "HealthyBalancer_update_health from_iter eq ep new_health b =
     (case find_update (\<lambda>x. eq ep (hl_item x))
             (\<lambda>x. let (updated, h) = HealthStatus_update_health (hl_health x) new_health
                  in (updated, x\<lparr>hl_health := h\<rparr>)) (hb_items b) of
        Some (updated, xs) \<Rightarrow>
          let b = b\<lparr>hb_items := xs\<rparr>;
              b = (if updated = Updated then HealthyBalancer_reload from_iter b else b)
          in (Inr updated, b)
      | None \<Rightarrow> (Inl EndpointNotFound, b))"

definition HealthyBalancer_extend ::
  "('e list \<Rightarrow> 'b) \<Rightarrow> ('e \<Rightarrow> HealthStatus) \<Rightarrow> 'e list \<Rightarrow> ('b, 'e) HealthyBalancer
     \<Rightarrow> ('b, 'e) HealthyBalancer" where
  "HealthyBalancer_extend from_iter health_of es b =
     HealthyBalancer_reload from_iter
       (b\<lparr>hb_items := hb_items b @ map (\<lambda>e. \<lparr>hl_item = e, hl_health = health_of e\<rparr>) es\<rparr>)"

definition HealthyBalancer_from_iter ::
  "('e list \<Rightarrow> 'b) \<Rightarrow> ('e \<Rightarrow> HealthStatus) \<Rightarrow> 'e list \<Rightarrow> ('b, 'e) HealthyBalancer" where
  "HealthyBalancer_from_iter from_iter health_of es =
     HealthyBalancer_new from_iter (from_iter [])
       (map (\<lambda>e. \<lparr>hl_item = e, hl_health = health_of e\<rparr>) es)"

section \<open>Priority loads\<close>

record 'b PriorityInfo =
  pi_balancer :: 'b
  pi_healthy :: u32
  pi_total :: u32

text \<open>\<open>None\<close> is a panic: the division by a total of zero, and \<^verbatim>\<open>remove(0)\<close> on an empty vector.\<close>

definition calculate_priority_health :: "u32 \<Rightarrow> u32 \<Rightarrow> f64 option" where
  "calculate_priority_health healthy tot =
     (if tot = 0 then None
      else let x = f64_from_u32 ((100 * healthy) div tot)
           in Some (fp_min (Fin 100) (f64_mul (f64_round (14 / 10)) x)))"

fun priority_load_loop :: "f64 \<Rightarrow> (u32 \<times> f64) list \<Rightarrow> (u32 \<times> f64) list \<Rightarrow> (u32 \<times> f64) list" where
  "priority_load_loop normalized_total_health p_load [] = p_load"
| "priority_load_loop normalized_total_health p_load ((k, x) # rest) =
     (let load = f64_sub (Fin 100) (f64_sum (map snd p_load));
          normalized_p_x_health = f64_div (f64_mul x (Fin 100)) normalized_total_health;
          p_x_load = fp_min load normalized_p_x_health
      in priority_load_loop normalized_total_health (p_load @ [(k, p_x_load)]) rest)"

fun map_panic :: "('a \<Rightarrow> 'b option) \<Rightarrow> 'a list \<Rightarrow> 'b list option" where
  "map_panic f [] = Some []"
| "map_panic f (x # xs) = do { y \<leftarrow> f x; ys \<leftarrow> map_panic f xs; Some (y # ys) }"

definition calculate_priority_loads :: "(u32 \<times> 'b PriorityInfo) list \<Rightarrow> (u32 \<times> u32) list option" where
  "calculate_priority_loads endpoints = do {
     let sorted_endpoints = sort_key fst endpoints;
     priority_health \<leftarrow> map_panic (\<lambda>(k, v).
       map_option (Pair k) (calculate_priority_health (pi_healthy v) (pi_total v))) sorted_endpoints;
     let normalized_total_health = fp_min (Fin 100) (f64_sum (map snd priority_health));
     (case priority_health of
        [] \<Rightarrow> None
      | (p0_k, p) # rest \<Rightarrow>
          let p_0_load = f64_div (f64_mul p (Fin 100)) normalized_total_health;
              p_load = priority_load_loop normalized_total_health [(p0_k, p_0_load)] rest
          in Some (map (\<lambda>(k, f). (k, fp_to_u32 (fp_integral round_half_away f))) p_load))
   }"

section \<open>The default balancer\<close>

record ('b, 'e) DefaultBalancer =
  priority_level_lb :: "u32 WeightedRoundRobinBalancer"
  priorities :: "(u32 \<times> ('b, 'e) HealthyBalancer PriorityInfo) list"

record 'e LocalityLbEndpoints =
  endpoints :: "'e list"
  priority :: u32
  healthy_endpoints :: u32
  total_endpoints :: u32

definition recalculate_priority_load_factors ::
  "(u32 \<times> ('b, 'e) HealthyBalancer PriorityInfo) list \<Rightarrow> u32 WeightedRoundRobinBalancer option" where
  "recalculate_priority_load_factors ps =
     map_option (\<lambda>loads. WeightedRoundRobinBalancer_new (map (\<lambda>f. LbItem_new (snd f) (fst f)) loads))
       (calculate_priority_loads ps)"

text \<open>
  The loop over \<^verbatim>\<open>priorities.values_mut()\<close>: the first priority that knows the endpoint is
  updated, and its healthy counter with it.
\<close>

fun update_priorities ::
  "('e list \<Rightarrow> 'b) \<Rightarrow> ('e \<Rightarrow> 'e \<Rightarrow> bool) \<Rightarrow> 'e \<Rightarrow> HealthStatus
     \<Rightarrow> (u32 \<times> ('b, 'e) HealthyBalancer PriorityInfo) list
     \<Rightarrow> (ValueUpdated \<times> (u32 \<times> ('b, 'e) HealthyBalancer PriorityInfo) list) option" where
  "update_priorities from_iter eq ep new_health [] = None"
| "update_priorities from_iter eq ep new_health ((k, info) # rest) =
     (case HealthyBalancer_update_health from_iter eq ep new_health (pi_balancer info) of
        (Inr NotUpdated, b) \<Rightarrow> Some (NotUpdated, (k, info\<lparr>pi_balancer := b\<rparr>) # rest)
      | (Inr Updated, b) \<Rightarrow>
          let info = info\<lparr>pi_balancer := b\<rparr>;
              info = (if is_healthy new_health then info\<lparr>pi_healthy := pi_healthy info + 1\<rparr>
                      else info\<lparr>pi_healthy := pi_healthy info - 1\<rparr>)
          in Some (Updated, (k, info) # rest)
      | (Inl _, b) \<Rightarrow>
          map_option (\<lambda>(updated, ps). (updated, (k, info\<lparr>pi_balancer := b\<rparr>) # ps))
            (update_priorities from_iter eq ep new_health rest))"

definition DefaultBalancer_update_health ::
  "('e list \<Rightarrow> 'b) \<Rightarrow> ('e \<Rightarrow> 'e \<Rightarrow> bool) \<Rightarrow> 'e \<Rightarrow> HealthStatus \<Rightarrow> ('b, 'e) DefaultBalancer
     \<Rightarrow> ((lb_error + ValueUpdated) \<times> ('b, 'e) DefaultBalancer) option" where
  "DefaultBalancer_update_health from_iter eq ep new_health b =
     (case update_priorities from_iter eq ep new_health (priorities b) of
        None \<Rightarrow> Some (Inl EndpointNotFound, b)
      | Some (NotUpdated, ps) \<Rightarrow> Some (Inr NotUpdated, b\<lparr>priorities := ps\<rparr>)
      | Some (Updated, ps) \<Rightarrow> do {
          lb \<leftarrow> recalculate_priority_load_factors ps;
          Some (Inr Updated, \<lparr>priority_level_lb = lb, priorities = ps\<rparr>)
        })"

definition DefaultBalancer_next_item ::
  "(u64 option \<Rightarrow> 'b \<Rightarrow> 'e option \<times> 'b) \<Rightarrow> u64 option \<Rightarrow> ('b, 'e) DefaultBalancer
     \<Rightarrow> 'e option \<times> ('b, 'e) DefaultBalancer" where
  "DefaultBalancer_next_item next_item hash b =
     (let (selected, lb) = wrr_next_item None (priority_level_lb b); b = b\<lparr>priority_level_lb := lb\<rparr>
      in case selected of
           None \<Rightarrow> (None, b)
         | Some p \<Rightarrow>
             (case map_of (priorities b) p of
                None \<Rightarrow> (None, b)
              | Some info \<Rightarrow>
                  let (endpoint, hb) = HealthyBalancer_next_item next_item hash (pi_balancer info)
                  in (endpoint, b\<lparr>priorities := AList.update p (info\<lparr>pi_balancer := hb\<rparr>) (priorities b)\<rparr>)))"

definition from_slice_step ::
  "('e list \<Rightarrow> 'b) \<Rightarrow> ('e \<Rightarrow> HealthStatus) \<Rightarrow> 'e LocalityLbEndpoints
     \<Rightarrow> (u32 \<times> ('b, 'e) HealthyBalancer PriorityInfo) list
     \<Rightarrow> (u32 \<times> ('b, 'e) HealthyBalancer PriorityInfo) list" where
  "from_slice_step from_iter health_of loc =
     entry_modify_or_insert
       (\<lambda>info. info\<lparr>pi_healthy := pi_healthy info + healthy_endpoints loc,
                   pi_total := pi_total info + total_endpoints loc,
                   pi_balancer := HealthyBalancer_extend from_iter health_of (endpoints loc) (pi_balancer info)\<rparr>)
       \<lparr>pi_balancer = HealthyBalancer_from_iter from_iter health_of (endpoints loc),
        pi_healthy = healthy_endpoints loc, pi_total = total_endpoints loc\<rparr>
       (priority loc)"

definition DefaultBalancer_from_slice ::
  "('e list \<Rightarrow> 'b) \<Rightarrow> ('e \<Rightarrow> HealthStatus) \<Rightarrow> 'e LocalityLbEndpoints list
     \<Rightarrow> ('b, 'e) DefaultBalancer option" where
  "DefaultBalancer_from_slice from_iter health_of locs = do {
     let ps = fold (from_slice_step from_iter health_of) locs [];
     lb \<leftarrow> recalculate_priority_load_factors ps;
     Some \<lparr>priority_level_lb = lb, priorities = ps\<rparr>
   }"

section \<open>Healthy balancers hold healthy endpoints only\<close>

lemma HealthStatus_update_snd [simp]: "snd (HealthStatus_update_health s h) = h"
  by (simp add: HealthStatus_update_health_def)

text \<open>What \<open>update_health\<close> does to the items: it sets the health of the first endpoint that is equal to the given one.\<close>

lemma HealthyBalancer_update_healthE:
  assumes "HealthyBalancer_update_health from_iter eq ep h b = (r, b')"
  obtains (missing) "r = Inl EndpointNotFound" "b' = b" "\<forall>x\<in>set (hb_items b). \<not> eq ep (hl_item x)"
  | (same) us x vs where "r = Inr NotUpdated" "b' = b" "hb_items b = us @ x # vs" "eq ep (hl_item x)"
      "\<forall>u\<in>set us. \<not> eq ep (hl_item u)" "hl_health x = h"
  | (new) us x vs where "r = Inr Updated" "hb_items b = us @ x # vs" "eq ep (hl_item x)"
      "\<forall>u\<in>set us. \<not> eq ep (hl_item u)" "hl_health x \<noteq> h"
      "b' = HealthyBalancer_reload from_iter (b\<lparr>hb_items := us @ x\<lparr>hl_health := h\<rparr> # vs\<rparr>)"
proof (cases "find_update (\<lambda>x. eq ep (hl_item x))
    (\<lambda>x. let (updated, h') = HealthStatus_update_health (hl_health x) h
         in (updated, x\<lparr>hl_health := h'\<rparr>)) (hb_items b)")
  case None
  then have "r = Inl EndpointNotFound" "b' = b"
    using assms by (simp_all add: HealthyBalancer_update_health_def)
  moreover have "\<forall>x\<in>set (hb_items b). \<not> eq ep (hl_item x)"
    using None by (simp only: find_update_None_iff)
  ultimately show thesis by (rule missing)
next
  case (Some s)
  obtain updated ys where s: "s = (updated, ys)" by (cases s)
  obtain us x vs x' where d: "hb_items b = us @ x # vs" "eq ep (hl_item x)" "\<forall>u\<in>set us. \<not> eq ep (hl_item u)"
    and f: "(let (updated, h') = HealthStatus_update_health (hl_health x) h
         in (updated, x\<lparr>hl_health := h'\<rparr>)) = (updated, x')" and ys: "ys = us @ x' # vs"
    using find_update_Some [OF Some [unfolded s]] by blast
  have up: "updated = (if hl_health x = h then NotUpdated else Updated)" "x' = x\<lparr>hl_health := h\<rparr>"
    using f by (auto simp: HealthStatus_update_health_def split: if_splits)
  note run = assms [unfolded HealthyBalancer_update_health_def Some s]
  show thesis
  proof (cases "hl_health x = h")
    case True
    then have "x\<lparr>hl_health := h\<rparr> = x" by simp
    then have "b\<lparr>hb_items := ys\<rparr> = b" using d(1) ys up(2) by simp
    then show thesis
      using same [OF _ _ d True] run up(1) True by (simp add: Let_def)
  next
    case False
    then show thesis
      using new [OF _ d False] run up ys by (simp add: Let_def)
  qed
qed

context balancer
begin

definition hb_ok :: "('b, 'e) HealthyBalancer \<Rightarrow> bool" where
  "hb_ok b \<longleftrightarrow> inv (hb_balancer b) \<and> set (members (hb_balancer b)) \<subseteq> set (healthy_items (hb_items b))"

lemma hb_ok_reload [simp]: "hb_ok (HealthyBalancer_reload from_iter b)"
  using from_iter_inv from_iter_members by (simp add: hb_ok_def HealthyBalancer_reload_def)

lemma hb_ok_from_iter [simp]: "hb_ok (HealthyBalancer_from_iter from_iter health_of es)"
  by (simp add: HealthyBalancer_from_iter_def HealthyBalancer_new_def)

lemma hb_ok_extend [simp]: "hb_ok (HealthyBalancer_extend from_iter health_of es b)"
  by (simp add: HealthyBalancer_extend_def)

lemma hb_ok_update_health:
  "hb_ok b \<Longrightarrow> HealthyBalancer_update_health from_iter eq ep h b = (r, b') \<Longrightarrow> hb_ok b'"
  by (erule HealthyBalancer_update_healthE) auto

lemma hb_next_item:
  assumes "hb_ok b" "HealthyBalancer_next_item next_item hash b = (r, b')"
  shows "hb_ok b'" "hb_items b' = hb_items b" "r = Some e \<Longrightarrow> e \<in> set (healthy_items (hb_items b))"
  using assms next_item_inv [of "hb_balancer b" hash] next_item_members [of "hb_balancer b" hash]
    next_item_member [of "hb_balancer b" hash e]
  by (auto simp: hb_ok_def HealthyBalancer_next_item_def split: prod.splits)

end

section \<open>Sequences of operations\<close>

text \<open>
  The operations the cluster performs on a balancer, and their sequences; a sequence is undefined
  when the code panics.
\<close>

datatype 'e lb_op = Select "u64 option" | Update_Health 'e HealthStatus

definition lb_step ::
  "('e list \<Rightarrow> 'b) \<Rightarrow> (u64 option \<Rightarrow> 'b \<Rightarrow> 'e option \<times> 'b) \<Rightarrow> ('e \<Rightarrow> 'e \<Rightarrow> bool) \<Rightarrow> 'e lb_op
     \<Rightarrow> ('b, 'e) DefaultBalancer \<Rightarrow> ('b, 'e) DefaultBalancer option" where
  "lb_step from_iter next_item eq lop b =
     (case lop of
        Select hash \<Rightarrow> Some (snd (DefaultBalancer_next_item next_item hash b))
      | Update_Health ep h \<Rightarrow> map_option snd (DefaultBalancer_update_health from_iter eq ep h b))"

fun lb_run ::
  "('e list \<Rightarrow> 'b) \<Rightarrow> (u64 option \<Rightarrow> 'b \<Rightarrow> 'e option \<times> 'b) \<Rightarrow> ('e \<Rightarrow> 'e \<Rightarrow> bool) \<Rightarrow> 'e lb_op list
     \<Rightarrow> ('b, 'e) DefaultBalancer \<Rightarrow> ('b, 'e) DefaultBalancer option" where
  "lb_run from_iter next_item eq [] b = Some b"
| "lb_run from_iter next_item eq (lop # lops) b = do {
     b \<leftarrow> lb_step from_iter next_item eq lop b;
     lb_run from_iter next_item eq lops b
   }"

text \<open>The health an endpoint has after a sequence of operations: the last one it was told, or its initial one.\<close>

definition health_step :: "('e \<Rightarrow> 'a) \<Rightarrow> 'e lb_op \<Rightarrow> ('a \<Rightarrow> HealthStatus) \<Rightarrow> 'a \<Rightarrow> HealthStatus" where
  "health_step key lop hs = (case lop of Select _ \<Rightarrow> hs | Update_Health ep h \<Rightarrow> hs(key ep := h))"

definition ps_items :: "(u32 \<times> ('b, 'e) HealthyBalancer PriorityInfo) list \<Rightarrow> 'e HealthyLbItem list" where
  "ps_items ps = concat (map (\<lambda>(k, info). hb_items (pi_balancer info)) ps)"

lemma ps_items_simps [simp]:
  "ps_items [] = []"
  "ps_items ((k, info) # ps) = hb_items (pi_balancer info) @ ps_items ps"
  "ps_items (ps @ qs) = ps_items ps @ ps_items qs"
  by (simp_all add: ps_items_def)

text \<open>Exactly one priority is touched by an update, the first that has the endpoint.\<close>

lemma update_priorities_Some:
  "update_priorities from_iter eq ep h ps = Some (u, ps') \<Longrightarrow>
     \<exists>as k info bs b'. ps = as @ (k, info) # bs \<and> (\<forall>x\<in>set (ps_items as). \<not> eq ep (hl_item x)) \<and>
       HealthyBalancer_update_health from_iter eq ep h (pi_balancer info) = (Inr u, b') \<and>
       ps' = as @ (k, info\<lparr>pi_balancer := b', pi_healthy :=
               (if u = Updated then if is_healthy h then pi_healthy info + 1 else pi_healthy info - 1
                else pi_healthy info)\<rparr>) # bs"
proof (induction ps arbitrary: ps')
  case (Cons p ps)
  obtain k info where p: "p = (k, info)" by (cases p)
  obtain r b' where upd: "HealthyBalancer_update_health from_iter eq ep h (pi_balancer info) = (r, b')"
    by (cases "HealthyBalancer_update_health from_iter eq ep h (pi_balancer info)")
  from upd show ?case
  proof (cases rule: HealthyBalancer_update_healthE)
    case missing
    then obtain qs where qs: "update_priorities from_iter eq ep h ps = Some (u, qs)" "ps' = p # qs"
      using Cons.prems by (auto simp: p upd missing(1,2))
    obtain as k' info' bs b'' where "ps = as @ (k', info') # bs" "\<forall>x\<in>set (ps_items as). \<not> eq ep (hl_item x)"
       "HealthyBalancer_update_health from_iter eq ep h (pi_balancer info') = (Inr u, b'')"
       "qs = as @ (k', info'\<lparr>pi_balancer := b'', pi_healthy :=
               (if u = Updated then if is_healthy h then pi_healthy info' + 1 else pi_healthy info' - 1
                else pi_healthy info')\<rparr>) # bs"
      using Cons.IH [OF qs(1)] by blast
    then show ?thesis
      using qs(2) missing(3) p
      by (intro exI [of _ "p # as"] exI [of _ k'] exI [of _ info'] exI [of _ bs] exI [of _ b''])
         (simp add: ball_Un)
  next
    case same
    then have "u = NotUpdated" "ps' = (k, info\<lparr>pi_balancer := b'\<rparr>) # ps"
      using Cons.prems p upd by auto
    then show ?thesis
      using upd same(1) p by (intro exI [of _ "[]"] exI [of _ k] exI [of _ info] exI [of _ ps] exI [of _ b']) simp
  next
    case new
    then have "u = Updated" "ps' = (k, info\<lparr>pi_balancer := b', pi_healthy :=
        (if is_healthy h then pi_healthy info + 1 else pi_healthy info - 1)\<rparr>) # ps"
      using Cons.prems p upd by (auto simp: Let_def split: if_splits)
    then show ?thesis
      using upd new(1) p by (intro exI [of _ "[]"] exI [of _ k] exI [of _ info] exI [of _ ps] exI [of _ b']) simp
  qed
qed simp

lemma update_priorities_None:
  "update_priorities from_iter eq ep h ps = None \<Longrightarrow> \<forall>x\<in>set (ps_items ps). \<not> eq ep (hl_item x)"
proof (induction ps)
  case (Cons p ps)
  obtain k info where p: "p = (k, info)" by (cases p)
  obtain r b' where upd: "HealthyBalancer_update_health from_iter eq ep h (pi_balancer info) = (r, b')"
    by (cases "HealthyBalancer_update_health from_iter eq ep h (pi_balancer info)")
  from upd show ?case
    by (cases rule: HealthyBalancer_update_healthE)
       (use Cons p upd in \<open>auto simp: Let_def split: if_splits\<close>)
qed simp

text \<open>Calls of \<open>next_item\<close> leave the items and their order untouched.\<close>

lemma set_alist_update: "set (AList.update k v ps) \<subseteq> insert (k, v) (set ps)"
  by (induction ps) auto

lemma ps_items_update:
  "map_of ps p = Some info \<Longrightarrow> hb_items (pi_balancer info') = hb_items (pi_balancer info) \<Longrightarrow>
     ps_items (AList.update p info' ps) = ps_items ps"
  by (induction ps) (auto split: if_splits)

section \<open>The endpoints and their health\<close>

text \<open>
  The state of a balancer follows the operations: its items are the endpoints it was built from,
  and every item has the health of its endpoint.
\<close>

definition ps_tracks :: "('e \<Rightarrow> 'a) \<Rightarrow> ('a \<Rightarrow> HealthStatus) \<Rightarrow> (u32 \<times> ('b, 'e) HealthyBalancer PriorityInfo) list \<Rightarrow> bool" where
  "ps_tracks key hs ps \<longleftrightarrow> distinct (map (\<lambda>x. key (hl_item x)) (ps_items ps)) \<and>
     (\<forall>x\<in>set (ps_items ps). hl_health x = hs (key (hl_item x)))"

lemma hb_items_update_health:
  assumes "HealthyBalancer_update_health from_iter eq ep h b = (Inr u, b')"
  obtains us x vs where "hb_items b = us @ x # vs" "hb_items b' = us @ x\<lparr>hl_health := h\<rparr> # vs"
    "eq ep (hl_item x)" "u = (if hl_health x = h then NotUpdated else Updated)"
  using assms
proof (cases rule: HealthyBalancer_update_healthE)
  case (same us x vs)
  then show ?thesis using that [of us x vs] by simp
next
  case (new us x vs)
  then show ?thesis using that [of us x vs] by (simp add: HealthyBalancer_reload_def)
qed simp

lemma update_priorities_tracks:
  assumes "update_priorities from_iter (\<lambda>a b. key a = key b) ep h ps = Some (u, ps')" "ps_tracks key hs ps"
  shows "ps_tracks key (hs(key ep := h)) ps'" "map hl_item (ps_items ps') = map hl_item (ps_items ps)"
    "map fst ps' = map fst ps"
proof -
  obtain as k info bs b' where d: "ps = as @ (k, info) # bs"
    "HealthyBalancer_update_health from_iter (\<lambda>a b. key a = key b) ep h (pi_balancer info) = (Inr u, b')"
    "ps' = as @ (k, info\<lparr>pi_balancer := b', pi_healthy :=
               (if u = Updated then if is_healthy h then pi_healthy info + 1 else pi_healthy info - 1
                else pi_healthy info)\<rparr>) # bs"
    using update_priorities_Some [OF assms(1)] by blast
  obtain us x vs where i: "hb_items (pi_balancer info) = us @ x # vs"
    "hb_items b' = us @ x\<lparr>hl_health := h\<rparr> # vs" "key ep = key (hl_item x)"
    "u = (if hl_health x = h then NotUpdated else Updated)"
    by (rule hb_items_update_health [OF d(2)])
  have old: "ps_items ps = (ps_items as @ us) @ x # (vs @ ps_items bs)"
    and new: "ps_items ps' = (ps_items as @ us) @ x\<lparr>hl_health := h\<rparr> # (vs @ ps_items bs)"
    by (simp_all add: d(1,3) i(1,2))
  show "map hl_item (ps_items ps') = map hl_item (ps_items ps)" "map fst ps' = map fst ps"
    by (simp_all add: old new d(1,3) i(1,2))
  show "ps_tracks key (hs(key ep := h)) ps'"
    unfolding ps_tracks_def
  proof
    show "distinct (map (\<lambda>x. key (hl_item x)) (ps_items ps'))"
      using assms(2) by (simp add: ps_tracks_def old new)
    let ?rest = "set (ps_items as @ us) \<union> set (vs @ ps_items bs)"
    have other: "key (hl_item y) \<noteq> key (hl_item x)" if "y \<in> ?rest" for y
    proof -
      have "key (hl_item x) \<notin> (\<lambda>x. key (hl_item x)) ` ?rest"
        using assms(2) unfolding ps_tracks_def old by (simp add: image_Un)
      moreover have "key (hl_item y) \<in> (\<lambda>x. key (hl_item x)) ` ?rest"
        using that by (rule imageI)
      ultimately show ?thesis by metis
    qed
    show "\<forall>y\<in>set (ps_items ps'). hl_health y = (hs(key ep := h)) (key (hl_item y))"
    proof
      fix y
      assume "y \<in> set (ps_items ps')"
      then consider "y = x\<lparr>hl_health := h\<rparr>" | "y \<in> ?rest" unfolding new by auto
      then show "hl_health y = (hs(key ep := h)) (key (hl_item y))"
      proof cases
        case 1
        then show ?thesis using i(3) by simp
      next
        case 2
        then have "y \<in> set (ps_items ps)" unfolding old by auto
        then show ?thesis using assms(2) other [OF 2] i(3) by (simp add: ps_tracks_def)
      qed
    qed
  qed
qed

text \<open>Building: the items are the endpoints of all localities, with their configured health.\<close>

abbreviation new_items :: "('e \<Rightarrow> HealthStatus) \<Rightarrow> 'e list \<Rightarrow> 'e HealthyLbItem list" where
  "new_items health_of es \<equiv> map (\<lambda>e. \<lparr>hl_item = e, hl_health = health_of e\<rparr>) es"

lemma hb_items_simps [simp]:
  "hb_items (HealthyBalancer_reload from_iter b) = hb_items b"
  "hb_items (HealthyBalancer_extend from_iter health_of es b) = hb_items b @ new_items health_of es"
  "hb_items (HealthyBalancer_from_iter from_iter health_of es) = new_items health_of es"
  by (simp_all add: HealthyBalancer_reload_def HealthyBalancer_extend_def HealthyBalancer_from_iter_def
      HealthyBalancer_new_def)

lemma from_slice_step_items:
  "mset (ps_items (from_slice_step from_iter health_of loc ps)) =
     mset (ps_items ps) + mset (new_items health_of (endpoints loc))"
  unfolding from_slice_step_def by (induction ps) auto

lemma from_slice_items:
  "mset (ps_items (fold (from_slice_step from_iter health_of) locs ps)) =
     mset (ps_items ps) + mset (new_items health_of (concat (map endpoints locs)))"
  by (induction locs arbitrary: ps) (simp_all add: from_slice_step_items)

lemma from_slice_distinct:
  "distinct (map fst ps) \<Longrightarrow> distinct (map fst (fold (from_slice_step from_iter health_of) locs ps))"
  by (induction locs arbitrary: ps) (simp_all add: from_slice_step_def distinct_entry_modify)

lemma from_slice_tracks:
  assumes "distinct (map key (concat (map endpoints locs)))"
    and "\<forall>e\<in>set (concat (map endpoints locs)). health_of e = hs (key e)"
  shows "ps_tracks key hs (fold (from_slice_step from_iter health_of) locs [])"
proof -
  let ?ps = "fold (from_slice_step from_iter health_of) locs []"
  let ?new = "new_items health_of (concat (map endpoints locs))"
  have m: "mset (ps_items ?ps) = mset ?new"
    by (simp add: from_slice_items)
  have "mset (map (\<lambda>x. key (hl_item x)) (ps_items ?ps)) = mset (map (\<lambda>x. key (hl_item x)) ?new)"
    by (simp only: mset_map m)
  then have "distinct (map (\<lambda>x. key (hl_item x)) (ps_items ?ps)) \<longleftrightarrow>
      distinct (map (\<lambda>x. key (hl_item x)) ?new)"
    by (rule mset_eq_imp_distinct_iff)
  also have "map (\<lambda>x. key (hl_item x)) ?new = map key (concat (map endpoints locs))"
    by (simp add: comp_def)
  finally have "distinct (map (\<lambda>x. key (hl_item x)) (ps_items ?ps))"
    using assms(1) by blast
  moreover have "set (ps_items ?ps) = set ?new"
    using arg_cong [OF m, of set_mset] by (simp only: set_mset_mset)
  moreover have "\<forall>x\<in>set ?new. hl_health x = hs (key (hl_item x))"
    using assms(2) by auto
  ultimately show ?thesis by (simp only: ps_tracks_def)
qed

context balancer
begin

definition db_ok :: "('b, 'e) DefaultBalancer \<Rightarrow> bool" where
  "db_ok b \<longleftrightarrow> (\<forall>(k, info)\<in>set (priorities b). hb_ok (pi_balancer info))"

lemma db_ok_from_slice:
  assumes "DefaultBalancer_from_slice from_iter health_of locs = Some b"
  shows "db_ok b" "priorities b = fold (from_slice_step from_iter health_of) locs []"
proof -
  show ps: "priorities b = fold (from_slice_step from_iter health_of) locs []"
    using assms by (auto simp: DefaultBalancer_from_slice_def Let_def split: bind_splits)
  have "\<forall>(k, info)\<in>set (fold (from_slice_step from_iter health_of) locs ps). hb_ok (pi_balancer info)"
    if "\<forall>(k, info)\<in>set ps. hb_ok (pi_balancer info)" for ps
    using that
  proof (induction locs arbitrary: ps)
    case (Cons loc locs)
    have "\<forall>(k, info)\<in>set (from_slice_step from_iter health_of loc ps). hb_ok (pi_balancer info)"
      using Cons.prems unfolding from_slice_step_def by (auto dest!: entry_modify_elem)
    then show ?case using Cons.IH by simp
  qed simp
  from this [of "[]"] show "db_ok b" by (simp add: db_ok_def ps)
qed

lemma db_next_item:
  assumes "db_ok b" "DefaultBalancer_next_item next_item hash b = (r, b')"
  shows "db_ok b'" "ps_items (priorities b') = ps_items (priorities b)"
    "r = Some e \<Longrightarrow> e \<in> set (healthy_items (ps_items (priorities b)))"
proof -
  obtain selected lb where w: "wrr_next_item None (priority_level_lb b) = (selected, lb)"
    by (cases "wrr_next_item None (priority_level_lb b)")
  show "db_ok b'" "ps_items (priorities b') = ps_items (priorities b)"
    "r = Some e \<Longrightarrow> e \<in> set (healthy_items (ps_items (priorities b)))"
  proof (atomize (full), cases "\<exists>p info. selected = Some p \<and> map_of (priorities b) p = Some info")
    case True
    then obtain p info where sel: "selected = Some p" "map_of (priorities b) p = Some info" by blast
    obtain hb where h: "HealthyBalancer_next_item next_item hash (pi_balancer info) = (r, hb)"
      and b': "b' = b\<lparr>priority_level_lb := lb, priorities := AList.update p (info\<lparr>pi_balancer := hb\<rparr>) (priorities b)\<rparr>"
      using assms(2) w sel by (auto simp: DefaultBalancer_next_item_def split: prod.splits)
    have mem: "(p, info) \<in> set (priorities b)" using sel(2) by (rule map_of_SomeD)
    then have "hb_ok (pi_balancer info)" using assms(1) by (auto simp: db_ok_def)
    note hb = hb_next_item [OF this h]
    have "db_ok b'"
      using assms(1) hb(1) set_alist_update [of p "info\<lparr>pi_balancer := hb\<rparr>" "priorities b"]
      by (auto simp: db_ok_def b')
    moreover have "ps_items (priorities b') = ps_items (priorities b)"
      using ps_items_update [OF sel(2)] hb(2) by (simp add: b')
    moreover have "e \<in> set (healthy_items (ps_items (priorities b)))" if "r = Some e"
      using hb(3) [OF that] mem by (auto simp: healthy_items_def ps_items_def)
    ultimately show "db_ok b' \<and> ps_items (priorities b') = ps_items (priorities b) \<and>
        (r = Some e \<longrightarrow> e \<in> set (healthy_items (ps_items (priorities b))))" by blast
  next
    case False
    then have "selected = None \<or> (\<exists>p. selected = Some p \<and> map_of (priorities b) p = None)"
      by (cases selected) auto
    then have "r = None \<and> b' = b\<lparr>priority_level_lb := lb\<rparr>"
      using assms(2) w by (auto simp: DefaultBalancer_next_item_def)
    then show "db_ok b' \<and> ps_items (priorities b') = ps_items (priorities b) \<and>
        (r = Some e \<longrightarrow> e \<in> set (healthy_items (ps_items (priorities b))))"
      using assms(1) by (simp add: db_ok_def)
  qed
qed

lemma db_update_health:
  assumes "db_ok b" "DefaultBalancer_update_health from_iter eq ep h b = Some (r, b')"
  shows "db_ok b'"
proof (cases "update_priorities from_iter eq ep h (priorities b)")
  case None
  then show ?thesis using assms by (simp add: DefaultBalancer_update_health_def)
next
  case (Some s)
  obtain u ps where s: "s = (u, ps)" by (cases s)
  obtain as k info bs hb where d: "priorities b = as @ (k, info) # bs"
    "HealthyBalancer_update_health from_iter eq ep h (pi_balancer info) = (Inr u, hb)"
    "ps = as @ (k, info\<lparr>pi_balancer := hb, pi_healthy :=
               (if u = Updated then if is_healthy h then pi_healthy info + 1 else pi_healthy info - 1
                else pi_healthy info)\<rparr>) # bs"
    using update_priorities_Some [OF Some [unfolded s]] by blast
  have "hb_ok hb" using hb_ok_update_health d assms(1) by (fastforce simp: db_ok_def)
  then have "\<forall>(k, info)\<in>set ps. hb_ok (pi_balancer info)"
    using assms(1) d by (auto simp: db_ok_def)
  moreover have "priorities b' = ps"
    using assms(2) Some s
    by (auto simp: DefaultBalancer_update_health_def split: ValueUpdated.splits bind_splits)
  ultimately show ?thesis by (simp add: db_ok_def)
qed

text \<open>
  The balancer follows what is known: its endpoints are \<open>E\<close> and their health is \<open>hs\<close>. Every
  operation keeps that, and a selection returns a healthy one of them.
\<close>

definition db_tracks :: "('e \<Rightarrow> 'a) \<Rightarrow> 'e set \<Rightarrow> ('a \<Rightarrow> HealthStatus) \<Rightarrow> ('b, 'e) DefaultBalancer \<Rightarrow> bool" where
  "db_tracks key E hs b \<longleftrightarrow> db_ok b \<and> ps_tracks key hs (priorities b) \<and>
     hl_item ` set (ps_items (priorities b)) = E"

lemma db_tracks_from_slice:
  assumes "DefaultBalancer_from_slice from_iter health_of locs = Some b"
    and "distinct (map key (concat (map endpoints locs)))"
    and "\<forall>e\<in>set (concat (map endpoints locs)). health_of e = hs (key e)"
  shows "db_tracks key (set (concat (map endpoints locs))) hs b"
proof -
  have "ps_tracks key hs (priorities b)"
    using from_slice_tracks [OF assms(2,3)] db_ok_from_slice(2) [OF assms(1)] by simp
  moreover have "mset (ps_items (priorities b)) = mset (new_items health_of (concat (map endpoints locs)))"
    by (simp add: db_ok_from_slice(2) [OF assms(1)] from_slice_items)
  then have "set (ps_items (priorities b)) = set (new_items health_of (concat (map endpoints locs)))"
    by (metis set_mset_mset)
  then have "hl_item ` set (ps_items (priorities b)) = set (concat (map endpoints locs))"
    by (simp add: image_image)
  ultimately show ?thesis using db_ok_from_slice(1) [OF assms(1)] by (simp add: db_tracks_def)
qed

lemma db_tracks_next_item:
  assumes "db_tracks key E hs b"
  shows "db_tracks key E hs (snd (DefaultBalancer_next_item next_item hash b))"
    "fst (DefaultBalancer_next_item next_item hash b) = Some e \<Longrightarrow> e \<in> E \<and> hs (key e) = Healthy"
proof -
  obtain r b' where n: "DefaultBalancer_next_item next_item hash b = (r, b')" by fastforce
  note nx = db_next_item [OF _ n]
  show "db_tracks key E hs (snd (DefaultBalancer_next_item next_item hash b))"
    using assms nx(1,2) by (simp add: db_tracks_def ps_tracks_def n)
  assume "fst (DefaultBalancer_next_item next_item hash b) = Some e"
  then have "e \<in> set (healthy_items (ps_items (priorities b)))"
    using assms nx(3) by (simp add: db_tracks_def n)
  then show "e \<in> E \<and> hs (key e) = Healthy"
    using assms by (auto simp: db_tracks_def ps_tracks_def healthy_items_def is_healthy_def)
qed

lemma db_tracks_update_health:
  assumes "db_tracks key E hs b" "DefaultBalancer_update_health from_iter (\<lambda>a b. key a = key b) ep h b = Some (r, c)"
  shows "db_tracks key E (hs(key ep := h)) c"
proof -
  have tr: "ps_tracks key hs (priorities b)" and ok: "db_ok b" using assms(1) by (simp_all add: db_tracks_def)
  have "ps_tracks key (hs(key ep := h)) (priorities c) \<and>
    map hl_item (ps_items (priorities c)) = map hl_item (ps_items (priorities b))"
  proof (cases "update_priorities from_iter (\<lambda>a b. key a = key b) ep h (priorities b)")
    case None
    have "\<forall>x\<in>set (ps_items (priorities b)). key ep \<noteq> key (hl_item x)"
      using update_priorities_None [OF None] .
    then show ?thesis
      using assms(2) None tr by (auto simp: DefaultBalancer_update_health_def ps_tracks_def)
  next
    case (Some s)
    obtain u ps where s: "s = (u, ps)" by (cases s)
    have "priorities c = ps"
      using assms(2) Some s
      by (auto simp: DefaultBalancer_update_health_def split: ValueUpdated.splits bind_splits)
    then show ?thesis
      using update_priorities_tracks(1,2) [OF Some [unfolded s] tr] by simp
  qed
  then show ?thesis
    using assms(1) db_update_health [OF ok assms(2)] by (auto simp: db_tracks_def simp flip: set_map)
qed

text \<open>The operations of a sequence keep the invariant and what is known about the health.\<close>

lemma lb_run_tracks:
  assumes "db_tracks key E hs b" "lb_run from_iter next_item (\<lambda>a b. key a = key b) lops b = Some b'"
  shows "db_tracks key E (fold (health_step key) lops hs) b'"
  using assms
proof (induction lops arbitrary: b hs)
  case (Cons lop lops)
  obtain c where c: "lb_step from_iter next_item (\<lambda>a b. key a = key b) lop b = Some c"
    "lb_run from_iter next_item (\<lambda>a b. key a = key b) lops c = Some b'"
    using Cons.prems(2) by (auto split: bind_splits)
  have "db_tracks key E (health_step key lop hs) c"
    using c(1) db_tracks_next_item(1) [OF Cons.prems(1)] db_tracks_update_health [OF Cons.prems(1)]
    by (cases lop) (auto simp: lb_step_def health_step_def)
  then show ?case using Cons.IH c(2) by simp
qed simp

lemma selected_is_healthy:
  assumes "DefaultBalancer_from_slice from_iter health_of locs = Some b0"
    and "distinct (map key (concat (map endpoints locs)))"
    and "\<forall>e\<in>set (concat (map endpoints locs)). health_of e = hs (key e)"
    and "lb_run from_iter next_item (\<lambda>a b. key a = key b) lops b0 = Some b"
    and "fst (DefaultBalancer_next_item next_item hash b) = Some e"
  shows "e \<in> set (concat (map endpoints locs)) \<and> fold (health_step key) lops hs (key e) = Healthy"
  using db_tracks_next_item(2) [OF lb_run_tracks [OF db_tracks_from_slice [OF assms(1-3)] assms(4)] assms(5)] .

end

section \<open>The counters of the priorities\<close>

definition info_counts :: "('b, 'e) HealthyBalancer PriorityInfo \<Rightarrow> bool" where
  "info_counts info \<longleftrightarrow>
     unat (pi_total info) = length (hb_items (pi_balancer info)) \<and> hb_items (pi_balancer info) \<noteq> [] \<and>
     unat (pi_healthy info) = length (healthy_items (hb_items (pi_balancer info)))"

definition ps_counts :: "(u32 \<times> ('b, 'e) HealthyBalancer PriorityInfo) list \<Rightarrow> bool" where
  "ps_counts ps \<longleftrightarrow> (\<forall>(k, info)\<in>set ps. info_counts info)"

text \<open>What \<^verbatim>\<open>LocalityLbEndpointsBuilder::build\<close> establishes for a locality with endpoints.\<close>

definition locality_ok :: "('e \<Rightarrow> HealthStatus) \<Rightarrow> 'e LocalityLbEndpoints \<Rightarrow> bool" where
  "locality_ok health_of loc \<longleftrightarrow>
     endpoints loc \<noteq> [] \<and> unat (total_endpoints loc) = length (endpoints loc) \<and>
     unat (healthy_endpoints loc) = length (filter (\<lambda>e. is_healthy (health_of e)) (endpoints loc))"

lemma length_healthy_items: "length (healthy_items xs) \<le> length xs"
  by (simp add: healthy_items_def)

lemma healthy_items_simps [simp]:
  "healthy_items [] = []"
  "healthy_items (x # xs) = (if is_healthy (hl_health x) then hl_item x # healthy_items xs else healthy_items xs)"
  "healthy_items (xs @ ys) = healthy_items xs @ healthy_items ys"
  "length (healthy_items (new_items health_of es)) = length (filter (\<lambda>e. is_healthy (health_of e)) es)"
  by (simp_all add: healthy_items_def filter_map comp_def)

lemma from_slice_step_counts:
  assumes "ps_counts ps" "locality_ok health_of loc" "length (ps_items ps) + length (endpoints loc) < 2 ^ 32"
  shows "ps_counts (from_slice_step from_iter health_of loc ps)"
  using assms
proof (induction ps)
  case Nil
  then show ?case by (simp add: from_slice_step_def ps_counts_def info_counts_def locality_ok_def)
next
  case (Cons p ps)
  obtain k info where p: "p = (k, info)" by (cases p)
  show ?case
  proof (cases "k = priority loc")
    case True
    have lt: "length (hb_items (pi_balancer info)) + length (endpoints loc) < 2 ^ 32"
      using Cons.prems(3) p by simp
    have "length (healthy_items (hb_items (pi_balancer info))) +
        length (filter (\<lambda>e. is_healthy (health_of e)) (endpoints loc)) < 2 ^ 32"
      using lt length_healthy_items [of "hb_items (pi_balancer info)"]
        length_filter_le [of "\<lambda>e. is_healthy (health_of e)" "endpoints loc"] by linarith
    then have "unat (pi_total info + total_endpoints loc) = unat (pi_total info) + unat (total_endpoints loc)"
      "unat (pi_healthy info + healthy_endpoints loc) = unat (pi_healthy info) + unat (healthy_endpoints loc)"
      using lt Cons.prems p by (auto simp: ps_counts_def info_counts_def locality_ok_def unat_word_ariths)
    then show ?thesis
      using True Cons.prems p
      by (auto simp: from_slice_step_def ps_counts_def info_counts_def locality_ok_def)
  next
    case False
    then show ?thesis
      using Cons p by (auto simp: from_slice_step_def ps_counts_def)
  qed
qed

lemma from_slice_counts:
  assumes "ps_counts ps" "\<forall>loc\<in>set locs. locality_ok health_of loc"
    and "length (ps_items ps) + length (concat (map endpoints locs)) < 2 ^ 32"
  shows "ps_counts (fold (from_slice_step from_iter health_of) locs ps)"
  using assms
proof (induction locs arbitrary: ps)
  case (Cons loc locs)
  have "length (ps_items (from_slice_step from_iter health_of loc ps)) =
      length (ps_items ps) + length (endpoints loc)"
    using arg_cong [OF from_slice_step_items, of size] by simp
  then show ?case
    using Cons.IH [of "from_slice_step from_iter health_of loc ps"]
      from_slice_step_counts [of ps health_of loc from_iter] Cons.prems by simp
qed simp

lemma update_priorities_counts:
  assumes "update_priorities from_iter eq ep h ps = Some (u, ps')" "ps_counts ps"
  shows "ps_counts ps'"
proof -
  obtain as k info bs b' where d: "ps = as @ (k, info) # bs"
    "HealthyBalancer_update_health from_iter eq ep h (pi_balancer info) = (Inr u, b')"
    "ps' = as @ (k, info\<lparr>pi_balancer := b', pi_healthy :=
               (if u = Updated then if is_healthy h then pi_healthy info + 1 else pi_healthy info - 1
                else pi_healthy info)\<rparr>) # bs"
    using update_priorities_Some [OF assms(1)] by blast
  obtain us x vs where i: "hb_items (pi_balancer info) = us @ x # vs"
    "hb_items b' = us @ x\<lparr>hl_health := h\<rparr> # vs" "eq ep (hl_item x)"
    "u = (if hl_health x = h then NotUpdated else Updated)"
    by (rule hb_items_update_health [OF d(2)])
  have info: "unat (pi_total info) = length us + 1 + length vs"
    "unat (pi_healthy info) = length (healthy_items us) + (if is_healthy (hl_health x) then 1 else 0)
       + length (healthy_items vs)"
    using assms(2) d(1) i(1) by (auto simp: ps_counts_def info_counts_def)
  have "unat (pi_total info) < 2 ^ 32" by (rule unat_u32_less)
  then have bound: "length (healthy_items us) + 1 + length (healthy_items vs) < 2 ^ 32"
    using info(1) length_healthy_items [of us] length_healthy_items [of vs] by linarith
  have "unat (if u = Updated then if is_healthy h then pi_healthy info + 1 else pi_healthy info - 1
      else pi_healthy info) =
    length (healthy_items us) + (if is_healthy h then 1 else 0) + length (healthy_items vs)"
  proof (cases "hl_health x = h")
    case False
    then have flip: "is_healthy h \<longleftrightarrow> \<not> is_healthy (hl_health x)"
      by (cases h; cases "hl_health x") (auto simp: is_healthy_def)
    show ?thesis
    proof (cases "is_healthy h")
      case True
      then show ?thesis using False flip info(2) bound i(4) by (simp add: unat_word_ariths)
    next
      case no: False
      then have "pi_healthy info \<noteq> 0" using flip info(2) by auto
      then have "unat (pi_healthy info - 1) = unat (pi_healthy info) - 1"
        by (rule unat_minus_one)
      then show ?thesis using False no flip info(2) i(4) by simp
    qed
  qed (use info(2) i(4) in auto)
  then have "info_counts (info\<lparr>pi_balancer := b', pi_healthy :=
               (if u = Updated then if is_healthy h then pi_healthy info + 1 else pi_healthy info - 1
                else pi_healthy info)\<rparr>)"
    using info(1) i(2) by (simp add: info_counts_def)
  then show ?thesis
    using assms(2) by (simp add: ps_counts_def d(1,3))
qed

lemma map_panic_Some: "\<forall>x\<in>set xs. f x \<noteq> None \<Longrightarrow> map_panic f xs = Some (map (the \<circ> f) xs)"
  by (induction xs) auto

lemma calculate_priority_loads_defined:
  assumes "ps \<noteq> []" "ps_counts ps"
  shows "\<exists>loads. calculate_priority_loads ps = Some loads"
proof -
  let ?f = "\<lambda>(k, v). map_option (Pair k) (calculate_priority_health (pi_healthy v) (pi_total v))"
  have "\<forall>x\<in>set (sort_key fst ps). ?f x \<noteq> None"
    using assms(2) by (fastforce simp: ps_counts_def info_counts_def calculate_priority_health_def)
  then have "map_panic ?f (sort_key fst ps) = Some (map (the \<circ> ?f) (sort_key fst ps))"
    by (rule map_panic_Some)
  moreover have "sort_key fst ps \<noteq> []"
    using assms(1) by (metis length_0_conv length_sort)
  ultimately show ?thesis
    unfolding calculate_priority_loads_def by (cases "sort_key fst ps") (auto simp: Let_def split: prod.splits)
qed

lemma next_item_counts:
  assumes "ps_counts (priorities b)" "DefaultBalancer_next_item next_item hash b = (r, b')"
  shows "ps_counts (priorities b')" "priorities b \<noteq> [] \<Longrightarrow> priorities b' \<noteq> []"
proof -
  obtain selected lb where w: "wrr_next_item None (priority_level_lb b) = (selected, lb)"
    by (cases "wrr_next_item None (priority_level_lb b)")
  show "ps_counts (priorities b')" "priorities b \<noteq> [] \<Longrightarrow> priorities b' \<noteq> []"
  proof (atomize (full), cases "\<exists>p info. selected = Some p \<and> map_of (priorities b) p = Some info")
    case True
    then obtain p info where sel: "selected = Some p" "map_of (priorities b) p = Some info" by blast
    obtain hb where h: "HealthyBalancer_next_item next_item hash (pi_balancer info) = (r, hb)"
      and b': "priorities b' = AList.update p (info\<lparr>pi_balancer := hb\<rparr>) (priorities b)"
      using assms(2) w sel by (auto simp: DefaultBalancer_next_item_def split: prod.splits)
    have "info_counts info" using map_of_SomeD [OF sel(2)] assms(1) by (auto simp: ps_counts_def)
    moreover have "hb_items hb = hb_items (pi_balancer info)"
      using h by (auto simp: HealthyBalancer_next_item_def split: prod.splits)
    ultimately have "info_counts (info\<lparr>pi_balancer := hb\<rparr>)" by (simp add: info_counts_def)
    then show "ps_counts (priorities b') \<and> (priorities b \<noteq> [] \<longrightarrow> priorities b' \<noteq> [])"
      using assms(1) set_alist_update [of p "info\<lparr>pi_balancer := hb\<rparr>" "priorities b"]
      by (auto simp: ps_counts_def b' update_nonempty)
  next
    case False
    then have "selected = None \<or> (\<exists>p. selected = Some p \<and> map_of (priorities b) p = None)"
      by (cases selected) auto
    then show "ps_counts (priorities b') \<and> (priorities b \<noteq> [] \<longrightarrow> priorities b' \<noteq> [])"
      using assms w by (auto simp: DefaultBalancer_next_item_def)
  qed
qed

lemma lb_step_counts:
  assumes "ps_counts (priorities b)" "priorities b \<noteq> []"
  shows "\<exists>b'. lb_step from_iter next_item eq lop b = Some b' \<and> ps_counts (priorities b') \<and> priorities b' \<noteq> []"
proof (cases lop)
  case (Select hash)
  then show ?thesis
    using next_item_counts [OF assms(1)] assms(2)
    by (cases "DefaultBalancer_next_item next_item hash b") (auto simp: lb_step_def)
next
  case (Update_Health ep h)
  show ?thesis
  proof (cases "update_priorities from_iter eq ep h (priorities b)")
    case None
    then show ?thesis
      using Update_Health assms by (simp add: lb_step_def DefaultBalancer_update_health_def)
  next
    case (Some s)
    obtain u ps where s: "s = (u, ps)" by (cases s)
    have counts: "ps_counts ps" by (rule update_priorities_counts [OF Some [unfolded s] assms(1)])
    have ne: "ps \<noteq> []" using update_priorities_Some [OF Some [unfolded s]] by auto
    obtain loads where "calculate_priority_loads ps = Some loads"
      using calculate_priority_loads_defined [OF ne counts] by blast
    then show ?thesis
      using Update_Health Some s counts ne
      by (cases u) (auto simp: lb_step_def DefaultBalancer_update_health_def recalculate_priority_load_factors_def)
  qed
qed

lemma lb_run_counts:
  assumes "ps_counts (priorities b)" "priorities b \<noteq> []"
  shows "\<exists>b'. lb_run from_iter next_item eq lops b = Some b' \<and> ps_counts (priorities b')"
  using assms
proof (induction lops arbitrary: b)
  case (Cons lop lops)
  obtain c where "lb_step from_iter next_item eq lop b = Some c" "ps_counts (priorities c)" "priorities c \<noteq> []"
    using lb_step_counts [OF Cons.prems] by blast
  then show ?case using Cons.IH by simp
qed simp

lemma from_slice_defined:
  assumes "locs \<noteq> []" "\<forall>loc\<in>set locs. locality_ok health_of loc"
    and "length (concat (map endpoints locs)) < 2 ^ 32"
  shows "\<exists>b. DefaultBalancer_from_slice from_iter health_of locs = Some b \<and>
    ps_counts (priorities b) \<and> priorities b \<noteq> []"
proof -
  let ?ps = "fold (from_slice_step from_iter health_of) locs []"
  have counts: "ps_counts ?ps"
    using from_slice_counts [of "[]" locs health_of from_iter] assms(2,3) by (simp add: ps_counts_def)
  have "size (ps_items ?ps) = length (concat (map endpoints locs))"
    using arg_cong [OF from_slice_items [of from_iter health_of locs "[]"], of size] by simp
  moreover have "concat (map endpoints locs) \<noteq> []"
    using assms(1,2) by (cases locs) (auto simp: locality_ok_def)
  ultimately have ne: "?ps \<noteq> []" by (metis length_0_conv ps_items_simps(1))
  obtain loads where "calculate_priority_loads ?ps = Some loads"
    using calculate_priority_loads_defined [OF ne counts] by blast
  then show ?thesis
    using counts ne by (simp add: DefaultBalancer_from_slice_def recalculate_priority_load_factors_def Let_def)
qed

end
