(* ===== verification/Priority_Load.thy ===== *)
theory Priority_Load
  imports Priority_Balancer
begin

text \<open>
  The floating point computation of the priority loads
  (\<^verbatim>\<open>clusters/balancers/priority.rs\<close>) when the first priority is healthy enough to take all
  the traffic, the properties of the wrapped balancers, and their witnesses.
\<close>

section \<open>The loads when the first priority is healthy\<close>

lemma f64_one_point_four: "f64_round (14 / 10) = Fin (3152519739159347 / 2251799813685248)"
  by code_simp

lemma priority_health_range:
  "tot \<noteq> 0 \<Longrightarrow> \<exists>y. calculate_priority_health healthy tot = Some (Fin y) \<and> 0 \<le> y \<and> y \<le> 100"
proof -
  assume "tot \<noteq> 0"
  define n where "n = uint ((100 * healthy) div tot)"
  let ?z = "3152519739159347 / 2251799813685248 * of_int n :: rat"
  have "0 \<le> n" by (simp add: n_def)
  then have n: "0 \<le> ?z" by simp
  have "f64_round ?z = PosInf \<or> (\<exists>y\<ge>0. f64_round ?z = Fin y)"
    using f64_round_ge [of 0 ?z] n f64_representable_int [of 0] by simp
  then have "\<exists>y. fp_min (Fin 100) (f64_round ?z) = Fin y \<and> 0 \<le> y \<and> y \<le> 100"
    by (auto simp: fp_min_def)
  then show ?thesis
    unfolding calculate_priority_health_def f64_from_u32_def f64_one_point_four n_def [symmetric] Let_def
    using \<open>tot \<noteq> 0\<close> by simp
qed

lemma priority_health_full:
  assumes "tot \<noteq> 0" "72 * unat tot \<le> 100 * unat healthy" "100 * unat healthy < 2 ^ 32"
  shows "calculate_priority_health healthy tot = Some (Fin 100)"
proof -
  define n where "n = uint ((100 * healthy) div tot)"
  let ?z = "3152519739159347 / 2251799813685248 * of_int n :: rat"
  have "unat (100 * healthy) = 100 * unat healthy"
    using assms(3) by (simp add: unat_word_ariths)
  then have "unat ((100 * healthy) div tot) = (100 * unat healthy) div unat tot"
    by (simp add: unat_div)
  then have "n = int ((100 * unat healthy) div unat tot)"
    unfolding n_def by (metis uint_nat)
  moreover have "72 \<le> (100 * unat healthy) div unat tot"
    using assms(1,2) by (simp add: less_eq_div_iff_mult_less_eq word_unat_eq_iff)
  ultimately have "(72 :: rat) \<le> of_int n" by simp
  then have z: "100 \<le> ?z" by simp
  have "f64_round ?z = PosInf \<or> (\<exists>y\<ge>100. f64_round ?z = Fin y)"
    using f64_round_ge [of 100 ?z] z f64_representable_numeral by simp
  then have "fp_min (Fin 100) (f64_round ?z) = Fin 100"
    by (auto simp: fp_min_def)
  then show ?thesis
    unfolding calculate_priority_health_def f64_from_u32_def f64_one_point_four n_def [symmetric] Let_def
    using assms(1) by simp
qed

lemma f64_sum_ge_100:
  assumes "\<forall>x\<in>set xs. \<exists>y\<ge>0. x = Fin y" "s = PosInf \<or> (\<exists>y\<ge>100. s = Fin y)"
  shows "foldl f64_add s xs = PosInf \<or> (\<exists>y\<ge>100. foldl f64_add s xs = Fin y)"
  using assms
proof (induction xs arbitrary: s)
  case (Cons x xs)
  obtain y where y: "x = Fin y" "0 \<le> y" using Cons.prems(1) by auto
  have "f64_add s x = PosInf \<or> (\<exists>y\<ge>100. f64_add s x = Fin y)"
    using Cons.prems(2)
  proof
    assume "\<exists>y\<ge>100. s = Fin y"
    then obtain z where "s = Fin z" "100 \<le> z" by blast
    then show ?thesis
      using f64_round_ge [of 100 "z + y"] y f64_representable_numeral by simp
  qed (simp add: y)
  then show ?case using Cons by simp
qed simp

lemma priority_load_loop_zero:
  assumes "f64_sum (map snd p_load) = Fin 100" "\<forall>(k, x)\<in>set rest. \<exists>y. x = Fin y \<and> 0 \<le> y \<and> y \<le> 100"
  shows "priority_load_loop (Fin 100) p_load rest = p_load @ map (\<lambda>(k, x). (k, Fin 0)) rest"
  using assms
proof (induction rest arbitrary: p_load)
  case (Cons r rest)
  obtain k y where r: "r = (k, Fin y)" "0 \<le> y" "y \<le> 100" using Cons.prems(2) by (cases r) auto
  obtain v where v: "f64_round (y * 100) = Fin v" "0 \<le> v" "v \<le> 10000"
    using f64_round_le [of 10000 "y * 100"] r(2,3) f64_representable_numeral by auto
  obtain w where w: "f64_round (v / 100) = Fin w" "0 \<le> w"
    using f64_round_le [of 100 "v / 100"] v(2,3) f64_representable_numeral by auto
  have min0: "fp_min (f64_sub (Fin 100) (f64_sum (map snd p_load)))
      (f64_div (f64_mul (Fin y) (Fin 100)) (Fin 100)) = Fin 0"
    using Cons.prems(1) v w by (simp add: f64_sub_def fp_min_def)
  have "f64_sum (map snd (p_load @ [(k, Fin 0)])) = f64_add (f64_sum (map snd p_load)) (Fin 0)"
    by (simp add: f64_sum_def)
  also have "\<dots> = Fin 100"
    using Cons.prems(1) f64_round_int [of 100] by simp
  finally have "f64_sum (map snd (p_load @ [(k, Fin 0)])) = Fin 100" .
  then show ?case using Cons min0 r(1) by (simp add: Let_def)
qed simp

lemma sort_key_head:
  assumes "distinct (map fst ps)" "map_of ps p = Some v" "\<forall>k\<in>fst ` set ps. p \<le> k"
  shows "\<exists>rest. sort_key fst ps = (p, v) # rest \<and> set rest \<subseteq> set ps \<and> p \<notin> fst ` set rest"
proof -
  have mem: "(p, v) \<in> set (sort_key fst ps)" using map_of_SomeD [OF assms(2)] by simp
  then obtain k w rest where s: "sort_key fst ps = (k, w) # rest"
    by (cases "sort_key fst ps") auto
  have "sorted (map fst (sort_key fst ps))" by simp
  then have "k \<le> p" using mem unfolding s by auto
  moreover have "(k, w) \<in> set ps" using s by (metis list.set_intros(1) set_sort)
  ultimately have "k = p" using assms(3) by force
  then have "w = v" using assms(1,2) \<open>(k, w) \<in> set ps\<close> by (metis map_of_is_SomeI option.inject)
  have "distinct (map fst (sort_key fst ps))"
    using assms(1) by (metis mset_map mset_sort mset_eq_imp_distinct_iff)
  then have "p \<notin> fst ` set rest" unfolding s using \<open>k = p\<close> by simp
  moreover have "set rest \<subseteq> set ps" using s by (metis set_subset_Cons set_sort)
  ultimately show ?thesis using s \<open>k = p\<close> \<open>w = v\<close> by blast
qed

lemma loads_first_full:
  assumes "distinct (map fst ps)" "map_of ps p = Some info" "\<forall>k\<in>fst ` set ps. p \<le> k"
    and "\<forall>(k, info)\<in>set ps. pi_total info \<noteq> 0"
    and "calculate_priority_health (pi_healthy info) (pi_total info) = Some (Fin 100)"
  shows "\<exists>ks. calculate_priority_loads ps = Some ((p, 100) # map (\<lambda>k. (k, 0)) ks) \<and> p \<notin> set ks"
proof -
  obtain rest where s: "sort_key fst ps = (p, info) # rest" "set rest \<subseteq> set ps" "p \<notin> fst ` set rest"
    using sort_key_head [OF assms(1-3)] by blast
  define f where "f = (\<lambda>(k, v :: 'a PriorityInfo).
    map_option (Pair (k :: u32)) (calculate_priority_health (pi_healthy v) (pi_total v)))"
  have rng: "\<exists>y. f x = Some (fst x, Fin y) \<and> 0 \<le> y \<and> y \<le> 100" if "x \<in> set rest" for x
  proof -
    obtain k v where x: "x = (k, v)" by (cases x)
    then have "pi_total v \<noteq> 0" using that s(2) assms(4) by auto
    then obtain y where "calculate_priority_health (pi_healthy v) (pi_total v) = Some (Fin y)" "0 \<le> y" "y \<le> 100"
      using priority_health_range by blast
    then show ?thesis using x by (simp add: f_def)
  qed
  let ?hs = "map (the \<circ> f) rest"
  have "map_panic f rest = Some ?hs"
    using rng by (intro map_panic_Some ballI) fastforce
  then have panic: "map_panic f (sort_key fst ps) = Some ((p, Fin 100) # ?hs)"
    using assms(5) by (simp add: s(1) f_def)
  have the_f: "\<exists>y. (the \<circ> f) x = (fst x, Fin y) \<and> 0 \<le> y \<and> y \<le> 100" if "x \<in> set rest" for x
    using rng [OF that] by (metis comp_apply option.sel)
  have hs: "\<forall>(k, x)\<in>set ?hs. \<exists>y. x = Fin y \<and> 0 \<le> y \<and> y \<le> 100"
  proof
    fix q
    assume "q \<in> set ?hs"
    then obtain x where "x \<in> set rest" "q = (the \<circ> f) x" by auto
    then show "case q of (k, x) \<Rightarrow> \<exists>y. x = Fin y \<and> 0 \<le> y \<and> y \<le> 100"
      using the_f [of x] by auto
  qed
  have "foldl f64_add (Fin 100) (map snd ?hs) = PosInf \<or>
      (\<exists>y\<ge>100. foldl f64_add (Fin 100) (map snd ?hs) = Fin y)"
    using hs by (intro f64_sum_ge_100) fastforce+
  then have norm: "fp_min (Fin 100) (f64_sum (map snd ((p, Fin 100) # ?hs))) = Fin 100"
    using f64_round_int [of 100] by (auto simp: f64_sum_def fp_min_def)
  have load0: "f64_div (f64_mul (Fin 100) (Fin 100)) (Fin 100) = Fin 100"
    using f64_round_int [of 10000] f64_round_int [of 100] by simp
  have "f64_sum (map snd [(p, Fin 100)]) = Fin 100"
    using f64_round_int [of 100] by (simp add: f64_sum_def)
  note loop = priority_load_loop_zero [OF this hs]
  have loads: "calculate_priority_loads ps = Some (map (\<lambda>(k, f). (k, fp_to_u32 (fp_integral round_half_away f)))
      ((p, Fin 100) # map (\<lambda>(k, x). (k, Fin 0)) ?hs))"
    unfolding calculate_priority_loads_def Let_def f_def [symmetric] panic bind.bind_lunit norm
    by (simp only: list.case prod.case load0 loop append.simps)
  have "fp_to_u32 (fp_integral round_half_away (Fin 100)) = 100" by code_simp
  moreover have "fp_to_u32 (fp_integral round_half_away (Fin 0)) = 0" by code_simp
  ultimately have "calculate_priority_loads ps = Some ((p, 100) # map (\<lambda>k. (k, 0)) (map fst ?hs))"
    using loads by (simp add: case_prod_beta)
  moreover have "map fst ?hs = map fst rest"
  proof -
    have "(fst \<circ> (the \<circ> f)) x = fst x" if "x \<in> set rest" for x
      using the_f [OF that] by (metis comp_apply fst_conv)
    then show ?thesis unfolding list.map_comp by (intro map_cong refl)
  qed
  ultimately show ?thesis using s(3) by (metis list.set_map)
qed



lemma recalculate_single:
  assumes "pi_total info \<noteq> 0" "72 * unat (pi_total info) \<le> 100 * unat (pi_healthy info)"
    and "100 * unat (pi_healthy info) < 2 ^ 32"
  shows "recalculate_priority_load_factors [(p, info)] =
    Some (WeightedRoundRobinBalancer_new [LbItem_new 100 p])"
proof -
  obtain ks where ks: "calculate_priority_loads [(p, info)] = Some ((p, 100) # map (\<lambda>k. (k, 0)) ks)"
    using loads_first_full [of "[(p, info)]" p info] priority_health_full [OF assms] assms(1) by auto
  then have "length (the (calculate_priority_loads [(p, info)])) = Suc (length ks)" by simp
  moreover have "length (the (calculate_priority_loads [(p, info)])) = 1"
    using priority_health_full [OF assms] by (simp add: calculate_priority_loads_def Let_def)
  ultimately have "ks = []" by simp
  then show ?thesis using ks by (simp add: recalculate_priority_load_factors_def)
qed

text \<open>The items of a priority are the endpoints of its localities.\<close>

definition items_of :: "(u32 \<times> ('b, 'e) HealthyBalancer PriorityInfo) list \<Rightarrow> u32 \<Rightarrow> 'e HealthyLbItem list" where
  "items_of ps p = (case map_of ps p of None \<Rightarrow> [] | Some info \<Rightarrow> hb_items (pi_balancer info))"




text \<open>With one priority that takes every selection, the endpoints come from that priority.\<close>

context balancer
begin

lemma one_priority_selected:
  assumes "db_ok b" "\<And>h. wrr_next_item h (priority_level_lb b) = (Some p, priority_level_lb b)"
    and "Some e \<in> set (fst (next_items (DefaultBalancer_next_item next_item) hashes b))"
  shows "e \<in> set (healthy_items (items_of (priorities b) p))"
  using assms
proof (induction hashes arbitrary: b)
  case (Cons h hs)
  obtain r c where step: "DefaultBalancer_next_item next_item h b = (r, c)"
    by (cases "DefaultBalancer_next_item next_item h b")
  have same: "priority_level_lb c = priority_level_lb b \<and> items_of (priorities c) p = items_of (priorities b) p \<and>
    (r = Some e \<longrightarrow> e \<in> set (healthy_items (items_of (priorities b) p)))"
  proof (cases "map_of (priorities b) p")
    case None
    then show ?thesis using step Cons.prems(2) by (auto simp: DefaultBalancer_next_item_def)
  next
    case (Some info)
    obtain hb where h: "HealthyBalancer_next_item next_item h (pi_balancer info) = (r, hb)"
      and c: "c = b\<lparr>priorities := AList.update p (info\<lparr>pi_balancer := hb\<rparr>) (priorities b)\<rparr>"
      using step Some Cons.prems(2) by (auto simp: DefaultBalancer_next_item_def split: prod.splits)
    have "hb_ok (pi_balancer info)"
      using Cons.prems(1) map_of_SomeD [OF Some] by (auto simp: db_ok_def)
    note hb = hb_next_item [OF this h]
    have "items_of (priorities c) p = items_of (priorities b) p"
      using hb(2) Some by (simp add: c items_of_def update_conv')
    then show ?thesis using hb(3) c Some by (auto simp: items_of_def)
  qed
  have "db_ok c" by (rule db_next_item(1) [OF Cons.prems(1) step])
  then show ?case
    using Cons.IH [of c] Cons.prems(2,3) same step by (auto simp: Let_def case_prod_beta)
qed simp

end

section \<open>Properties\<close>

lemmas lb_eval = DefaultBalancer_from_slice_def from_slice_step_def HealthyBalancer_from_iter_def
  HealthyBalancer_new_def HealthyBalancer_reload_def recalculate_single lb_step_def
  DefaultBalancer_update_health_def HealthyBalancer_update_health_def HealthStatus_update_health_def
  DefaultBalancer_next_item_def HealthyBalancer_next_item_def wrr_from_iter_def
  WeightedRoundRobinBalancer_new_def wrr_collect_checked_def collect_step_def checked_add_u32_def
  wrr_next_item_def slice_get_def is_healthy_def

text \<open>C8: Only healthy endpoints are selected. Build the balancer of a cluster from its localities, with any
  balancing policy that keeps the interface of \<^verbatim>\<open>Balancer\<close>, and apply any sequence of selections and
  health updates to it. The endpoint that the next selection returns is one of the configured endpoints, and its
  last known health is healthy (endpoints are compared by their authority, and the authorities are distinct).\<close>

theorem default_balancer_selects_healthy:
  assumes "balancer from_iter next_item members ok"
    and "DefaultBalancer_from_slice from_iter health_of locs = Some b0"
    and "distinct (map key (concat (map endpoints locs)))"
    and "\<forall>e\<in>set (concat (map endpoints locs)). health_of e = hs (key e)"
    and "lb_run from_iter next_item (\<lambda>a b. key a = key b) lops b0 = Some b"
    and "fst (DefaultBalancer_next_item next_item hash b) = Some e"
  shows "e \<in> set (concat (map endpoints locs)) \<and> fold (health_step key) lops hs (key e) = Healthy"
  by (rule balancer.selected_is_healthy [OF assms])

theorem default_balancer_selects_healthy_witness:
  "let from_iter = wrr_from_iter (\<lambda>_ :: nat. 1); health_of = (\<lambda>_. Healthy);
       locs = [\<lparr>endpoints = [1 :: nat, 2, 3, 4], priority = 0, healthy_endpoints = 4, total_endpoints = 4\<rparr>];
       lops = [Update_Health 1 Unhealthy];
       b0 = the (DefaultBalancer_from_slice from_iter health_of locs);
       b = the (lb_run from_iter wrr_next_item (\<lambda>a b. id a = id b) lops b0)
   in fst (DefaultBalancer_next_item wrr_next_item None b) = Some 2 \<and>
      fold (health_step id) lops health_of (id 2) = Healthy"
proof -
  let ?fi = "wrr_from_iter (\<lambda>_ :: nat. 1)" and ?ho = "\<lambda>_ :: nat. Healthy"
  let ?locs = "[\<lparr>endpoints = [1 :: nat, 2, 3, 4], priority = 0, healthy_endpoints = 4, total_endpoints = 4\<rparr>]"
  let ?start = "the (DefaultBalancer_from_slice ?fi ?ho ?locs)"
  let ?b = "the (lb_run ?fi wrr_next_item (\<lambda>a b. id a = id b) [Update_Health 1 Unhealthy] ?start)"
  have b0: "DefaultBalancer_from_slice ?fi ?ho ?locs = Some ?start"
    by (rule option.collapse [symmetric]) (simp add: lb_eval)
  have b: "lb_run ?fi wrr_next_item (\<lambda>a b. id a = id b) [Update_Health 1 Unhealthy] ?start = Some ?b"
    by (rule option.collapse [symmetric]) (simp add: lb_eval)
  have sel: "fst (DefaultBalancer_next_item wrr_next_item None ?b) = Some 2" by (simp add: lb_eval)
  have "2 \<in> set (concat (map endpoints ?locs)) \<and>
      fold (health_step id) [Update_Health 1 Unhealthy] ?ho (id 2) = Healthy"
    by (rule default_balancer_selects_healthy [OF wrr.balancer_axioms b0 _ _ b sel]) simp_all
  then show ?thesis unfolding Let_def using sel by blast
qed

text \<open>C17: The balancer of a cluster never panics and its counters are exact. If every locality has an endpoint and
  the counters its builder computed, then the balancer is built, every sequence of selections and health updates
  runs through, and afterwards the counters of every priority are the number of its endpoints and the number of
  those that are healthy.\<close>

theorem priority_counters_exact:
  assumes "locs \<noteq> []" "\<forall>loc\<in>set locs. locality_ok health_of loc"
    and "length (concat (map endpoints locs)) < 2 ^ 32"
  shows "\<exists>b0. DefaultBalancer_from_slice from_iter health_of locs = Some b0 \<and>
    (\<forall>lops. \<exists>b. lb_run from_iter next_item eq lops b0 = Some b \<and>
       (\<forall>(k, info)\<in>set (priorities b).
          unat (pi_total info) = length (hb_items (pi_balancer info)) \<and>
          unat (pi_healthy info) = length (healthy_items (hb_items (pi_balancer info)))))"
proof -
  obtain b0 where b0: "DefaultBalancer_from_slice from_iter health_of locs = Some b0"
    "ps_counts (priorities b0)" "priorities b0 \<noteq> []"
    using from_slice_defined [OF assms] by blast
  have "\<exists>b. lb_run from_iter next_item eq lops b0 = Some b \<and>
       (\<forall>(k, info)\<in>set (priorities b).
          unat (pi_total info) = length (hb_items (pi_balancer info)) \<and>
          unat (pi_healthy info) = length (healthy_items (hb_items (pi_balancer info))))" for lops
    using lb_run_counts [OF b0(2,3), of from_iter next_item eq lops]
    by (auto simp: ps_counts_def info_counts_def)
  then show ?thesis using b0(1) by blast
qed

theorem priority_counters_exact_witness:
  "let locs = [\<lparr>endpoints = [True, False], priority = 0, healthy_endpoints = 1, total_endpoints = 2\<rparr>];
       health_of = (\<lambda>e. if e then Healthy else Unhealthy)
   in \<exists>b0. DefaultBalancer_from_slice id health_of locs = Some b0 \<and>
        (\<exists>b. lb_run id (\<lambda>h b. (None, b)) (=) [Update_Health False Healthy] b0 = Some b \<and>
          (\<forall>(k, info)\<in>set (priorities b). unat (pi_total info) = length (hb_items (pi_balancer info)) \<and>
            unat (pi_healthy info) = length (healthy_items (hb_items (pi_balancer info)))))"
proof -
  let ?locs = "[\<lparr>endpoints = [True, False], priority = 0, healthy_endpoints = 1, total_endpoints = 2\<rparr>]"
  let ?health = "\<lambda>e. if e then Healthy else Unhealthy"
  have "?locs \<noteq> []" "\<forall>loc\<in>set ?locs. locality_ok ?health loc" "length (concat (map endpoints ?locs)) < 2 ^ 32"
    by (simp_all add: locality_ok_def is_healthy_def)
  note priority_counters_exact [OF this, of id "\<lambda>h b. (None, b)" "(=)"]
  then show ?thesis unfolding Let_def by blast
qed



end
