(* ===== verification/Circuit_Breaker.thy ===== *)
theory Circuit_Breaker
  imports Prelude "HOL-Library.Multiset"
begin

text \<open>
  The circuit breakers of a cluster (\<^verbatim>\<open>clusters/circuit_breaker.rs\<close>), the cluster map
  operations that reach them (\<^verbatim>\<open>clusters/clusters_manager.rs\<close>) and the code that takes and
  gives back connections (\<^verbatim>\<open>transport/tcp_channel.rs\<close>, \<^verbatim>\<open>transport/connector.rs\<close>).
  The counters are shared between the versions of a cluster through \<^verbatim>\<open>Arc\<close>s, so they
  live in a heap; the concurrent use of the breakers is a step relation whose steps are the single
  atomic operations.
\<close>

section \<open>Configuration and state\<close>

datatype RoutingPriority = Default | High

record CircuitBreakerThresholds =
  cb_priority :: RoutingPriority
  max_connections :: u32
  max_requests :: u32
  max_retries :: u32
  track_remaining :: bool

definition default_thresholds :: CircuitBreakerThresholds where
  "default_thresholds = \<lparr>cb_priority = Default, max_connections = 1024, max_requests = 1024,
     max_retries = 3, track_remaining = False\<rparr>"

datatype CircuitBreakerDenial = MaxConnections | MaxRequests | MaxRetries

record CircuitBreakerCounters =
  active_requests :: u32
  active_retries :: u32
  active_connections :: u32

definition CircuitBreakerCounters_new :: CircuitBreakerCounters where
  "CircuitBreakerCounters_new = \<lparr>active_requests = 0, active_retries = 0, active_connections = 0\<rparr>"

text \<open>The heap of counters; an \<^verbatim>\<open>Arc\<close> is an index into it.\<close>

type_synonym heap = "CircuitBreakerCounters list"
type_synonym counters_arc = nat

definition arc_new :: "heap \<Rightarrow> counters_arc \<times> heap" where
  "arc_new h = (length h, h @ [CircuitBreakerCounters_new])"

record PriorityCircuitBreakerState =
  thresholds :: CircuitBreakerThresholds
  counters :: counters_arc

record ClusterCircuitBreaker =
  default_priority :: PriorityCircuitBreakerState
  high_priority :: PriorityCircuitBreakerState

definition unwrap_or_new :: "counters_arc option \<Rightarrow> heap \<Rightarrow> counters_arc \<times> heap" where
  "unwrap_or_new a h = (case a of Some x \<Rightarrow> (x, h) | None \<Rightarrow> arc_new h)"

definition with_counters ::
  "ClusterCircuitBreaker \<Rightarrow> counters_arc option \<Rightarrow> counters_arc option \<Rightarrow> heap \<Rightarrow> ClusterCircuitBreaker \<times> heap" where
  "with_counters cb def_counters high_counters h =
     (let (d, h1) = unwrap_or_new def_counters h;
          (g, h2) = unwrap_or_new high_counters h1
      in (\<lparr>default_priority = \<lparr>thresholds = thresholds (default_priority cb), counters = d\<rparr>,
           high_priority = \<lparr>thresholds = thresholds (high_priority cb), counters = g\<rparr>\<rparr>, h2))"

primrec get_state :: "RoutingPriority \<Rightarrow> ClusterCircuitBreaker \<Rightarrow> PriorityCircuitBreakerState" where
  "get_state Default cb = default_priority cb"
| "get_state High cb = high_priority cb"

text \<open>\<^verbatim>\<open>From<&CircuitBreakers>\<close>: the last thresholds of a priority win.\<close>

definition find_thresholds :: "CircuitBreakerThresholds list \<Rightarrow> RoutingPriority \<Rightarrow> CircuitBreakerThresholds" where
  "find_thresholds ts p =
     (case List.find (\<lambda>t. cb_priority t = p) (rev ts) of Some t \<Rightarrow> t | None \<Rightarrow> default_thresholds)"

definition ClusterCircuitBreaker_from ::
  "CircuitBreakerThresholds list \<Rightarrow> heap \<Rightarrow> ClusterCircuitBreaker \<times> heap" where
  "ClusterCircuitBreaker_from ts h =
     (let (d, h1) = arc_new h; (g, h2) = arc_new h1
      in (\<lparr>default_priority = \<lparr>thresholds = find_thresholds ts Default, counters = d\<rparr>,
           high_priority = \<lparr>thresholds = find_thresholds ts High, counters = g\<rparr>\<rparr>, h2))"

section \<open>The atomic counters\<close>

datatype counter_kind = Connections | Requests | Retries

primrec counter :: "counter_kind \<Rightarrow> CircuitBreakerCounters \<Rightarrow> u32" where
  "counter Connections c = active_connections c"
| "counter Requests c = active_requests c"
| "counter Retries c = active_retries c"

primrec counter_put :: "counter_kind \<Rightarrow> u32 \<Rightarrow> CircuitBreakerCounters \<Rightarrow> CircuitBreakerCounters" where
  "counter_put Connections v c = c\<lparr>active_connections := v\<rparr>"
| "counter_put Requests v c = c\<lparr>active_requests := v\<rparr>"
| "counter_put Retries v c = c\<lparr>active_retries := v\<rparr>"

primrec limit :: "counter_kind \<Rightarrow> CircuitBreakerThresholds \<Rightarrow> u32" where
  "limit Connections t = max_connections t"
| "limit Requests t = max_requests t"
| "limit Retries t = max_retries t"

primrec denial :: "counter_kind \<Rightarrow> CircuitBreakerDenial" where
  "denial Connections = MaxConnections"
| "denial Requests = MaxRequests"
| "denial Retries = MaxRetries"

lemma counter_put_simps [simp]:
  "counter k (counter_put k' v c) = (if k = k' then v else counter k c)"
  by (cases k; cases k') simp_all

definition fetch_add :: "counter_kind \<Rightarrow> counters_arc \<Rightarrow> heap \<Rightarrow> u32 \<times> heap" where
  "fetch_add k a h = (counter k (h ! a), h[a := counter_put k (counter k (h ! a) + 1) (h ! a)])"

definition fetch_sub :: "counter_kind \<Rightarrow> counters_arc \<Rightarrow> heap \<Rightarrow> heap" where
  "fetch_sub k a h = h[a := counter_put k (counter k (h ! a) - 1) (h ! a)]"

lemma length_fetch [simp]: "length (snd (fetch_add k a h)) = length h" "length (fetch_sub k a h) = length h"
  by (simp_all add: fetch_add_def fetch_sub_def)

lemma counter_fetch_add:
  "a < length h \<Longrightarrow> counter k (snd (fetch_add k' a' h) ! a) =
     (if k = k' \<and> a = a' then counter k (h ! a) + 1 else counter k (h ! a))"
  by (cases "a = a'") (auto simp: fetch_add_def)

lemma counter_fetch_sub:
  "a < length h \<Longrightarrow> counter k (fetch_sub k' a' h ! a) =
     (if k = k' \<and> a = a' then counter k (h ! a) - 1 else counter k (h ! a))"
  by (cases "a = a'") (auto simp: fetch_sub_def)

text \<open>
  The three \<^verbatim>\<open>try_increment_*\<close> share one shape: count, compare the previous value with
  the threshold, and take the count back on a denial.
\<close>

definition try_increment ::
  "counter_kind \<Rightarrow> PriorityCircuitBreakerState \<Rightarrow> heap \<Rightarrow> (CircuitBreakerDenial + unit) \<times> heap" where
  "try_increment k st h =
     (let (prev, h1) = fetch_add k (counters st) h in
      if prev \<ge> limit k (thresholds st) then (Inl (denial k), fetch_sub k (counters st) h1)
      else (Inr (), h1))"

definition try_increment_connections ::
  "RoutingPriority \<Rightarrow> ClusterCircuitBreaker \<Rightarrow> heap \<Rightarrow> (CircuitBreakerDenial + unit) \<times> heap" where
  "try_increment_connections p cb = try_increment Connections (get_state p cb)"

definition increment_connections :: "RoutingPriority \<Rightarrow> ClusterCircuitBreaker \<Rightarrow> heap \<Rightarrow> heap" where
  "increment_connections p cb h = snd (fetch_add Connections (counters (get_state p cb)) h)"

definition decrement_connections :: "RoutingPriority \<Rightarrow> ClusterCircuitBreaker \<Rightarrow> heap \<Rightarrow> heap" where
  "decrement_connections p cb = fetch_sub Connections (counters (get_state p cb))"

definition try_increment_requests ::
  "RoutingPriority \<Rightarrow> ClusterCircuitBreaker \<Rightarrow> heap \<Rightarrow> (CircuitBreakerDenial + unit) \<times> heap" where
  "try_increment_requests p cb = try_increment Requests (get_state p cb)"

definition decrement_requests :: "RoutingPriority \<Rightarrow> ClusterCircuitBreaker \<Rightarrow> heap \<Rightarrow> heap" where
  "decrement_requests p cb = fetch_sub Requests (counters (get_state p cb))"

definition try_increment_retries ::
  "RoutingPriority \<Rightarrow> ClusterCircuitBreaker \<Rightarrow> heap \<Rightarrow> (CircuitBreakerDenial + unit) \<times> heap" where
  "try_increment_retries p cb = try_increment Retries (get_state p cb)"

definition decrement_retries :: "RoutingPriority \<Rightarrow> ClusterCircuitBreaker \<Rightarrow> heap \<Rightarrow> heap" where
  "decrement_retries p cb = fetch_sub Retries (counters (get_state p cb))"

primrec cb_try_increment ::
  "counter_kind \<Rightarrow> RoutingPriority \<Rightarrow> ClusterCircuitBreaker \<Rightarrow> heap \<Rightarrow> (CircuitBreakerDenial + unit) \<times> heap" where
  "cb_try_increment Connections = try_increment_connections"
| "cb_try_increment Requests = try_increment_requests"
| "cb_try_increment Retries = try_increment_retries"

primrec cb_decrement :: "counter_kind \<Rightarrow> RoutingPriority \<Rightarrow> ClusterCircuitBreaker \<Rightarrow> heap \<Rightarrow> heap" where
  "cb_decrement Connections = decrement_connections"
| "cb_decrement Requests = decrement_requests"
| "cb_decrement Retries = decrement_retries"

lemma cb_try_increment_eq: "cb_try_increment k p cb = try_increment k (get_state p cb)"
  by (cases k) (simp_all add: try_increment_connections_def try_increment_requests_def
      try_increment_retries_def fun_eq_iff)

lemma cb_decrement_eq: "cb_decrement k p cb = fetch_sub k (counters (get_state p cb))"
  by (cases k) (simp_all add: decrement_connections_def decrement_requests_def
      decrement_retries_def fun_eq_iff)

section \<open>The cluster map\<close>

text \<open>
  Of a cluster only the breaker matters here; \<open>'r\<close> is everything else a cluster holds. A builder
  (\<^verbatim>\<open>PartialClusterType\<close>) has a name, the breaker made from its configuration and the
  rest, whose own construction \<open>build_rest\<close> may fail.
\<close>

record 'r ClusterType =
  circuit_breaker :: "ClusterCircuitBreaker option"
  cluster_rest :: 'r

record 'p PartialClusterType =
  partial_name :: str
  partial_breaker :: "ClusterCircuitBreaker option"
  partial_rest :: 'p

type_synonym 'r ClustersMap = "str \<rightharpoonup> 'r ClusterType"

definition PartialClusterType_build ::
  "('p \<Rightarrow> str + 'r) \<Rightarrow> 'p PartialClusterType \<Rightarrow> counters_arc option \<Rightarrow> counters_arc option \<Rightarrow> heap
     \<Rightarrow> (str + 'r ClusterType) \<times> heap" where
  "PartialClusterType_build build_rest pc def_counters high_counters h =
     (let (cb, h1) = (case partial_breaker pc of
           None \<Rightarrow> (None, h)
         | Some cb \<Rightarrow> (let (cb', h') = with_counters cb def_counters high_counters h in (Some cb', h')))
      in (case build_rest (partial_rest pc) of
            Inl e \<Rightarrow> (Inl e, h1)
          | Inr r \<Rightarrow> (Inr \<lparr>circuit_breaker = cb, cluster_rest = r\<rparr>, h1)))"

definition add_cluster ::
  "('p \<Rightarrow> str + 'r) \<Rightarrow> 'p PartialClusterType \<Rightarrow> 'r ClustersMap \<Rightarrow> heap
     \<Rightarrow> (str + 'r ClusterType) \<times> 'r ClustersMap \<times> heap" where
  "add_cluster build_rest pc m h =
     (let old = (case m (partial_name pc) of None \<Rightarrow> None | Some cl \<Rightarrow> circuit_breaker cl);
          dc = map_option (\<lambda>cb. counters (default_priority cb)) old;
          hc = map_option (\<lambda>cb. counters (high_priority cb)) old;
          (r, h1) = PartialClusterType_build build_rest pc dc hc h
      in (case r of Inl e \<Rightarrow> (Inl e, m, h1) | Inr cl \<Rightarrow> (Inr cl, m(partial_name pc \<mapsto> cl), h1)))"

definition remove_cluster :: "str \<Rightarrow> 'r ClustersMap \<Rightarrow> (str + unit) \<times> 'r ClustersMap" where
  "remove_cluster c m =
     (case m c of None \<Rightarrow> (Inl ''No such cluster'', m) | Some _ \<Rightarrow> (Inr (), m(c := None)))"

definition breaker_of :: "'r ClustersMap \<Rightarrow> str \<Rightarrow> ClusterCircuitBreaker option" where
  "breaker_of m c = (case m c of None \<Rightarrow> None | Some cl \<Rightarrow> circuit_breaker cl)"

definition manager_try_increment ::
  "counter_kind \<Rightarrow> str \<Rightarrow> RoutingPriority \<Rightarrow> 'r ClustersMap \<Rightarrow> heap \<Rightarrow> (CircuitBreakerDenial + unit) \<times> heap" where
  "manager_try_increment k c p m h =
     (case breaker_of m c of Some cb \<Rightarrow> cb_try_increment k p cb h | None \<Rightarrow> (Inr (), h))"

definition manager_decrement ::
  "counter_kind \<Rightarrow> str \<Rightarrow> RoutingPriority \<Rightarrow> 'r ClustersMap \<Rightarrow> heap \<Rightarrow> heap" where
  "manager_decrement k c p m h =
     (case breaker_of m c of Some cb \<Rightarrow> cb_decrement k p cb h | None \<Rightarrow> h)"

section \<open>Taking and giving back connections\<close>





section \<open>Concurrent use\<close>

text \<open>
  The state of all threads: the heap, the versions of the cluster map published so far (the latest
  first; a thread's cached copy is one of them), the permits that are held and the denials that
  have not yet taken their count back.
\<close>

type_synonym permit = "str \<times> RoutingPriority \<times> counter_kind"

record 'r cb_state =
  cb_heap :: heap
  versions :: "'r ClustersMap list"
  permits :: "permit multiset"
  undos :: "(counters_arc \<times> counter_kind) multiset"

definition addr_of :: "'r ClustersMap \<Rightarrow> str \<Rightarrow> RoutingPriority \<Rightarrow> counters_arc option" where
  "addr_of m c p = map_option (\<lambda>cb. counters (get_state p cb)) (breaker_of m c)"

definition limit_of :: "'r ClustersMap \<Rightarrow> str \<Rightarrow> RoutingPriority \<Rightarrow> counter_kind \<Rightarrow> u32 option" where
  "limit_of m c p k = map_option (\<lambda>cb. limit k (thresholds (get_state p cb))) (breaker_of m c)"

text \<open>
  The steps: a thread counts itself and is granted or denied, a denied thread takes its count
  back, a permit is given back, and a new version of a cluster is published. Every thread uses the
  version its cache holds. A cluster keeps having, or keeps not having, a circuit breaker.
\<close>

inductive cb_step :: "('p \<Rightarrow> str + 'r) \<Rightarrow> 'r cb_state \<Rightarrow> 'r cb_state \<Rightarrow> bool" for build_rest where
  unlimited: "cb_step build_rest s (s\<lparr>permits := add_mset (c, p, k) (permits s)\<rparr>)"
    if "m \<in> set (versions s)" "m c \<noteq> None" "breaker_of m c = None"
| granted: "cb_step build_rest s (s\<lparr>cb_heap := h, permits := add_mset (c, p, k) (permits s)\<rparr>)"
    if "m \<in> set (versions s)" "addr_of m c p = Some a" "limit_of m c p k = Some l"
      "fetch_add k a (cb_heap s) = (prev, h)" "\<not> prev \<ge> l"
| denied: "cb_step build_rest s (s\<lparr>cb_heap := h, undos := add_mset (a, k) (undos s)\<rparr>)"
    if "m \<in> set (versions s)" "addr_of m c p = Some a" "limit_of m c p k = Some l"
      "fetch_add k a (cb_heap s) = (prev, h)" "prev \<ge> l"
| undone: "cb_step build_rest s (s\<lparr>cb_heap := fetch_sub k a (cb_heap s), undos := undos s - {#(a, k)#}\<rparr>)"
    if "(a, k) \<in># undos s"
| released: "cb_step build_rest s (s\<lparr>cb_heap := manager_decrement k c p m (cb_heap s),
      permits := permits s - {#(c, p, k)#}\<rparr>)"
    if "(c, p, k) \<in># permits s" "m \<in> set (versions s)" "m c \<noteq> None"
| updated: "cb_step build_rest s (s\<lparr>cb_heap := h, versions := m' # versions s\<rparr>)"
    if "add_cluster build_rest pc (hd (versions s)) (cb_heap s) = (Inr cl, m', h)"
      "hd (versions s) (partial_name pc) \<noteq> None \<longrightarrow>
         (breaker_of (hd (versions s)) (partial_name pc) = None \<longleftrightarrow> partial_breaker pc = None)"

text \<open>Fewer than \<open>2 ^ 32\<close> threads use the breakers at once.\<close>

definition in_flight :: "'r cb_state \<Rightarrow> nat" where
  "in_flight s = size (permits s) + size (undos s)"

definition cb_init :: "'r cb_state" where
  "cb_init = \<lparr>cb_heap = [], versions = [Map.empty], permits = {#}, undos = {#}\<rparr>"

inductive cb_reachable :: "('p \<Rightarrow> str + 'r) \<Rightarrow> 'r cb_state \<Rightarrow> bool" for build_rest where
  start: "cb_reachable build_rest cb_init"
| step: "cb_reachable build_rest s \<Longrightarrow> cb_step build_rest s s' \<Longrightarrow> in_flight s' < 2 ^ 32 \<Longrightarrow> cb_reachable build_rest s'"

text \<open>The atomic halves of the steps compose to the sequential operations.\<close>

lemma manager_try_increment_eq:
  assumes "addr_of m c p = Some a" "limit_of m c p k = Some l"
  shows "manager_try_increment k c p m h =
    (if fst (fetch_add k a h) \<ge> l then (Inl (denial k), fetch_sub k a (snd (fetch_add k a h)))
     else (Inr (), snd (fetch_add k a h)))"
  using assms by (auto simp: manager_try_increment_def addr_of_def limit_of_def cb_try_increment_eq
      try_increment_def case_prod_beta)

lemma manager_decrement_eq:
  "manager_decrement k c p m h = (case addr_of m c p of Some a \<Rightarrow> fetch_sub k a h | None \<Rightarrow> h)"
  by (auto simp: manager_decrement_def addr_of_def cb_decrement_eq split: option.splits)

lemma addr_limit_None: "addr_of m c p = None \<longleftrightarrow> breaker_of m c = None"
  "limit_of m c p k = None \<longleftrightarrow> breaker_of m c = None"
  by (simp_all add: addr_of_def limit_of_def)

text \<open>A decrement undoes a granted increment, and a denied one changes nothing.\<close>

lemma counter_put_undo: "counter_put k (counter k c) (counter_put k v c) = c"
  by (cases k) simp_all

lemma fetch_sub_add: "fetch_sub k a (snd (fetch_add k a h)) = h"
  by (cases "a < length h") (simp_all add: fetch_sub_def fetch_add_def counter_put_undo list_update_beyond)

lemma manager_try_increment_outcome:
  assumes "manager_try_increment k c p m h = (r, h')"
  shows "case r of
      Inl d \<Rightarrow> h' = h \<and> (\<exists>a l. addr_of m c p = Some a \<and> limit_of m c p k = Some l \<and> l \<le> counter k (h ! a))
    | Inr _ \<Rightarrow> h' = (case addr_of m c p of Some a \<Rightarrow> snd (fetch_add k a h) | None \<Rightarrow> h) \<and>
        (\<forall>l. limit_of m c p k = Some l \<longrightarrow> counter k (h ! the (addr_of m c p)) < l)"
proof (cases "breaker_of m c")
  case None
  then show ?thesis
    using assms by (auto simp: manager_try_increment_def addr_of_def limit_of_def split: sum.splits)
next
  case (Some cb)
  then have al: "addr_of m c p = Some (counters (get_state p cb))"
    "limit_of m c p k = Some (limit k (thresholds (get_state p cb)))"
    by (simp_all add: addr_of_def limit_of_def)
  have "fst (fetch_add k a h) = counter k (h ! a)" for a
    by (simp add: fetch_add_def)
  then show ?thesis
    using assms unfolding manager_try_increment_eq [OF al] fetch_sub_add
    by (auto simp: al split: if_splits)
qed

lemma manager_decrement_undoes:
  assumes "manager_try_increment k c p m h = (Inr u, h')" "addr_of m' c p = addr_of m c p"
  shows "manager_decrement k c p m' h' = h"
  using manager_try_increment_outcome [OF assms(1)] assms(2)
  by (auto simp: manager_decrement_eq fetch_sub_add split: option.splits)

section \<open>The counters are exact\<close>

definition used :: "'r cb_state \<Rightarrow> str \<Rightarrow> RoutingPriority \<Rightarrow> counter_kind \<Rightarrow> counters_arc \<Rightarrow> nat" where
  "used s c p k a = count (permits s) (c, p, k) + count (undos s) (a, k)"

definition versions_ok :: "'r ClustersMap list \<Rightarrow> bool" where
  "versions_ok ms \<longleftrightarrow> ms \<noteq> [] \<and>
     (\<forall>m\<in>set ms. \<forall>c. m c \<noteq> None \<longrightarrow> hd ms c \<noteq> None \<and> (\<forall>p. addr_of m c p = addr_of (hd ms) c p))"

definition addrs_ok :: "nat \<Rightarrow> 'r ClustersMap \<Rightarrow> bool" where
  "addrs_ok n m \<longleftrightarrow>
     (\<forall>c p a. addr_of m c p = Some a \<longrightarrow> a < n \<and>
       (\<forall>c' p'. addr_of m c' p' = Some a \<longrightarrow> c' = c \<and> p' = p))"

definition counters_ok :: "'r cb_state \<Rightarrow> bool" where
  "counters_ok s \<longleftrightarrow>
     (\<forall>c p k a. addr_of (hd (versions s)) c p = Some a \<longrightarrow>
        counter k (cb_heap s ! a) = of_nat (used s c p k a))"

definition users_ok :: "'r cb_state \<Rightarrow> bool" where
  "users_ok s \<longleftrightarrow> (\<forall>(c, p, k)\<in>#permits s. hd (versions s) c \<noteq> None) \<and>
     (\<forall>(a, k)\<in>#undos s. a < length (cb_heap s))"

definition cb_inv :: "'r cb_state \<Rightarrow> bool" where
  "cb_inv s \<longleftrightarrow> versions_ok (versions s) \<and> addrs_ok (length (cb_heap s)) (hd (versions s)) \<and>
     counters_ok s \<and> users_ok s"

lemma versions_okD:
  "versions_ok ms \<Longrightarrow> m \<in> set ms \<Longrightarrow> m c \<noteq> None \<Longrightarrow> addr_of (hd ms) c p = addr_of m c p"
  "versions_ok ms \<Longrightarrow> m \<in> set ms \<Longrightarrow> m c \<noteq> None \<Longrightarrow> hd ms c \<noteq> None"
  unfolding versions_ok_def by metis+

lemma addr_of_dom: "addr_of m c p = Some a \<Longrightarrow> m c \<noteq> None"
  by (auto simp: addr_of_def breaker_of_def split: option.splits)

lemma addrs_okD:
  assumes "addrs_ok n m" "addr_of m c p = Some a"
  shows "a < n" "addr_of m c' p' = Some a \<Longrightarrow> c' = c \<and> p' = p"
  using assms unfolding addrs_ok_def by blast+

lemma addr_inj:
  assumes "addrs_ok n m" "addr_of m c p = Some a" "addr_of m c' p' = Some b"
  shows "(c' = c \<and> p' = p) \<longleftrightarrow> b = a"
proof
  assume "c' = c \<and> p' = p"
  then show "b = a" using assms(2,3) by simp
next
  assume "b = a"
  then show "c' = c \<and> p' = p" using addrs_okD(2) [OF assms(1,2)] assms(3) by simp
qed

lemma counters_okD:
  "counters_ok s \<Longrightarrow> addr_of (hd (versions s)) c p = Some a \<Longrightarrow>
     counter k (cb_heap s ! a) = of_nat (used s c p k a)"
  by (simp add: counters_ok_def)

text \<open>Publishing a version keeps the addresses of the clusters that were there.\<close>

lemma with_counters_addr:
  assumes "with_counters cb dc hc h = (cb', h')"
  shows "\<exists>news. h' = h @ news \<and> set news \<subseteq> {CircuitBreakerCounters_new}"
    "counters (default_priority cb') = (case dc of Some a \<Rightarrow> a | None \<Rightarrow> length h)"
    "counters (high_priority cb') = (case hc of Some a \<Rightarrow> a | None \<Rightarrow> length h + (if dc = None then 1 else 0))"
    "length h' = length h + (if dc = None then 1 else 0) + (if hc = None then 1 else 0)"
  using assms
  by (auto simp: with_counters_def unwrap_or_new_def arc_new_def split: option.splits prod.splits)

lemma nth_append_news:
  assumes "set news \<subseteq> {CircuitBreakerCounters_new}" "length h \<le> a" "a < length (h @ news)"
  shows "(h @ news) ! a = CircuitBreakerCounters_new"
proof -
  have "(h @ news) ! a = news ! (a - length h)" using assms(2) by (simp add: nth_append)
  moreover have "news ! (a - length h) \<in> set news" using assms(2,3) by simp
  ultimately show ?thesis using assms(1) by auto
qed

lemma add_cluster_Inr:
  assumes "add_cluster build_rest pc m h = (Inr cl, m', h')"
  defines "old \<equiv> breaker_of m (partial_name pc)"
  shows "m' = m(partial_name pc \<mapsto> cl)"
    "partial_breaker pc = None \<Longrightarrow> circuit_breaker cl = None \<and> h' = h"
    "partial_breaker pc = Some cb \<Longrightarrow> \<exists>cb'. circuit_breaker cl = Some cb' \<and>
       with_counters cb (map_option (\<lambda>cb. counters (default_priority cb)) old)
         (map_option (\<lambda>cb. counters (high_priority cb)) old) h = (cb', h')"
  using assms
  by (auto simp: add_cluster_def PartialClusterType_build_def breaker_of_def Let_def
      split: sum.splits prod.splits option.splits)

lemma add_cluster_heap:
  assumes "add_cluster build_rest pc m h = (Inr cl, m', h')"
  shows "\<exists>news. h' = h @ news \<and> set news \<subseteq> {CircuitBreakerCounters_new}"
proof (cases "partial_breaker pc")
  case None
  then show ?thesis using add_cluster_Inr(2) [OF assms None] by simp
next
  case (Some cb)
  then show ?thesis using add_cluster_Inr(3) [OF assms Some] with_counters_addr(1) by blast
qed

lemma add_cluster_keeps_addr:
  assumes add: "add_cluster build_rest pc m h = (Inr cl, m', h')"
    and same: "breaker_of m (partial_name pc) = None \<longleftrightarrow> partial_breaker pc = None"
  shows "addr_of m' (partial_name pc) p = addr_of m (partial_name pc) p"
proof (cases "partial_breaker pc")
  case None
  then show ?thesis
    using same add_cluster_Inr(1,2) [OF add] by (simp add: addr_of_def breaker_of_def)
next
  case (Some cb)
  then obtain old where old: "breaker_of m (partial_name pc) = Some old" using same by auto
  obtain cb' where cb': "circuit_breaker cl = Some cb'"
    and w: "with_counters cb (Some (counters (default_priority old)))
      (Some (counters (high_priority old))) h = (cb', h')"
    using add_cluster_Inr(3) [OF add Some] old by auto
  have "breaker_of m' (partial_name pc) = Some cb'"
    using add_cluster_Inr(1) [OF add] cb' by (simp add: breaker_of_def)
  then show ?thesis
    using with_counters_addr(2,3) [OF w] old by (cases p) (simp_all add: addr_of_def)
qed

lemma add_cluster_new_addr:
  assumes add: "add_cluster build_rest pc m h = (Inr cl, m', h')"
    and new: "m (partial_name pc) = None" and a: "addr_of m' (partial_name pc) p = Some a"
  shows "a = length h + (if p = Default then 0 else 1)" "a < length h'"
proof -
  obtain cb' where cb': "circuit_breaker cl = Some cb'" "a = counters (get_state p cb')"
    using a add_cluster_Inr(1) [OF add] by (auto simp: addr_of_def breaker_of_def)
  then obtain cb where cb: "partial_breaker pc = Some cb"
    using add_cluster_Inr(2) [OF add] by (cases "partial_breaker pc") auto
  have w: "with_counters cb None None h = (cb', h')"
    using add_cluster_Inr(3) [OF add cb] cb' new by (auto simp: breaker_of_def)
  show "a = length h + (if p = Default then 0 else 1)" "a < length h'"
    using with_counters_addr(2-4) [OF w] cb'(2) by (cases p; simp)+
qed

lemma add_cluster_other_addr:
  "add_cluster build_rest pc m h = (Inr cl, m', h') \<Longrightarrow> c \<noteq> partial_name pc \<Longrightarrow> addr_of m' c p = addr_of m c p"
  using add_cluster_Inr(1) [of build_rest pc m h cl m' h'] by (simp add: addr_of_def breaker_of_def)

text \<open>The invariant is kept by every step.\<close>

lemma inv_unlimited:
  assumes inv: "cb_inv s" and m: "m \<in> set (versions s)" "m c \<noteq> None" "breaker_of m c = None"
  shows "cb_inv (s\<lparr>permits := add_mset (c, p, k) (permits s)\<rparr>)"
proof -
  have vs: "versions_ok (versions s)" using inv by (simp add: cb_inv_def)
  have none: "addr_of (hd (versions s)) c q = None" for q
    using versions_okD(1) [OF vs m(1,2), of q] m(3) addr_limit_None(1) [of m c q] by simp
  have "counters_ok (s\<lparr>permits := add_mset (c, p, k) (permits s)\<rparr>)"
    using inv none unfolding cb_inv_def counters_ok_def used_def by auto
  moreover have "users_ok (s\<lparr>permits := add_mset (c, p, k) (permits s)\<rparr>)"
    using inv versions_okD(2) [OF vs m(1,2)] unfolding cb_inv_def users_ok_def by auto
  ultimately show ?thesis using inv by (simp add: cb_inv_def)
qed

text \<open>
  A step that moves one counter together with one use of it keeps the counters exact; \<open>d\<close> is the
  change of the use count.
\<close>

lemma counters_ok_move:
  assumes inv: "cb_inv s" and vs: "versions s' = versions s"
    and heap: "\<And>k' b. b < length (cb_heap s) \<Longrightarrow> counter k' (cb_heap s' ! b) =
      (if k' = k \<and> b = a then counter k' (cb_heap s ! b) + d else counter k' (cb_heap s ! b))"
    and use: "\<And>c' p' k' b. addr_of (hd (versions s)) c' p' = Some b \<Longrightarrow>
      of_nat (used s' c' p' k' b) = (if k' = k \<and> b = a then of_nat (used s c' p' k' b) + d
        else (of_nat (used s c' p' k' b) :: u32))"
  shows "counters_ok s'"
  unfolding counters_ok_def vs
proof (intro allI impI)
  fix c' p' k' b assume b: "addr_of (hd (versions s)) c' p' = Some b"
  have "b < length (cb_heap s)" using inv addrs_okD(1) [OF _ b] by (simp add: cb_inv_def)
  moreover have "counter k' (cb_heap s ! b) = of_nat (used s c' p' k' b)"
    using inv counters_okD [OF _ b] by (simp add: cb_inv_def)
  ultimately show "counter k' (cb_heap s' ! b) = of_nat (used s' c' p' k' b)"
    using heap [of b k'] use [OF b, of k'] by (cases "k' = k \<and> b = a") auto
qed

lemma inv_keep:
  assumes "cb_inv s" "versions s' = versions s" "length (cb_heap s') = length (cb_heap s)"
    "counters_ok s'" "users_ok s'"
  shows "cb_inv s'"
  using assms by (simp add: cb_inv_def)

lemma of_nat_diff_1: "0 < n \<Longrightarrow> of_nat (n - 1) = (of_nat n - 1 :: u32)"
  by (simp add: of_nat_diff)

lemma inv_granted:
  assumes inv: "cb_inv s" and m: "m \<in> set (versions s)" and a: "addr_of m c p = Some a"
    and h: "fetch_add k a (cb_heap s) = (prev, h)"
  shows "cb_inv (s\<lparr>cb_heap := h, permits := add_mset (c, p, k) (permits s)\<rparr>)" (is "cb_inv ?s'")
proof -
  have vs: "versions_ok (versions s)" and ad: "addrs_ok (length (cb_heap s)) (hd (versions s))"
    using inv by (simp_all add: cb_inv_def)
  have hd_a: "addr_of (hd (versions s)) c p = Some a" and hd_c: "hd (versions s) c \<noteq> None"
    using versions_okD [OF vs m addr_of_dom [OF a]] a by simp_all
  have heq: "h = snd (fetch_add k a (cb_heap s))" using h by simp
  have "counters_ok ?s'"
  proof (rule counters_ok_move [OF inv, where k = k and a = a and d = 1])
    fix c' p' k' b assume b: "addr_of (hd (versions s)) c' p' = Some b"
    show "of_nat (used ?s' c' p' k' b) = (if k' = k \<and> b = a then of_nat (used s c' p' k' b) + 1
        else (of_nat (used s c' p' k' b) :: u32))"
      using addr_inj [OF ad hd_a b] by (auto simp: used_def)
  qed (simp_all add: heq counter_fetch_add)
  moreover have "users_ok ?s'" using inv hd_c by (auto simp: cb_inv_def users_ok_def heq)
  ultimately show ?thesis by (intro inv_keep [OF inv]) (simp_all add: heq)
qed

lemma inv_denied:
  assumes inv: "cb_inv s" and m: "m \<in> set (versions s)" and a: "addr_of m c p = Some a"
    and h: "fetch_add k a (cb_heap s) = (prev, h)"
  shows "cb_inv (s\<lparr>cb_heap := h, undos := add_mset (a, k) (undos s)\<rparr>)" (is "cb_inv ?s'")
proof -
  have vs: "versions_ok (versions s)" and ad: "addrs_ok (length (cb_heap s)) (hd (versions s))"
    using inv by (simp_all add: cb_inv_def)
  have len: "a < length (cb_heap s)"
    using versions_okD(1) [OF vs m addr_of_dom [OF a], of p] a addrs_okD(1) [OF ad] by simp
  have heq: "h = snd (fetch_add k a (cb_heap s))" using h by simp
  have "counters_ok ?s'"
    by (rule counters_ok_move [OF inv, where k = k and a = a and d = 1])
       (auto simp: heq counter_fetch_add used_def)
  moreover have "users_ok ?s'" using inv len by (auto simp: cb_inv_def users_ok_def heq)
  ultimately show ?thesis by (intro inv_keep [OF inv]) (simp_all add: heq)
qed

lemma inv_undone:
  assumes inv: "cb_inv s" and u: "(a, k) \<in># undos s"
  shows "cb_inv (s\<lparr>cb_heap := fetch_sub k a (cb_heap s), undos := undos s - {#(a, k)#}\<rparr>)" (is "cb_inv ?s'")
proof -
  have pos: "0 < count (undos s) (a, k)" using u by simp
  have "counters_ok ?s'"
  proof (rule counters_ok_move [OF inv, where k = k and a = a and d = "- 1"])
    fix c' p' k' b
    show "of_nat (used ?s' c' p' k' b) = (if k' = k \<and> b = a then of_nat (used s c' p' k' b) + - 1
        else (of_nat (used s c' p' k' b) :: u32))"
      using pos of_nat_diff_1 [OF pos] by (auto simp: used_def)
  qed (simp_all add: counter_fetch_sub)
  moreover have "users_ok ?s'" using inv by (auto simp: cb_inv_def users_ok_def dest: in_diffD)
  ultimately show ?thesis by (intro inv_keep [OF inv]) simp_all
qed

lemma inv_released:
  assumes inv: "cb_inv s" and p: "(c, p, k) \<in># permits s" and m: "m \<in> set (versions s)" "m c \<noteq> None"
  shows "cb_inv (s\<lparr>cb_heap := manager_decrement k c p m (cb_heap s), permits := permits s - {#(c, p, k)#}\<rparr>)"
    (is "cb_inv ?s'")
proof -
  have pos: "0 < count (permits s) (c, p, k)" using p by simp
  have vs: "versions_ok (versions s)" and ad: "addrs_ok (length (cb_heap s)) (hd (versions s))"
    using inv by (simp_all add: cb_inv_def)
  have hd_a: "addr_of (hd (versions s)) c p = addr_of m c p" by (rule versions_okD(1) [OF vs m])
  have users: "users_ok ?s'" using inv by (auto simp: cb_inv_def users_ok_def manager_decrement_eq
        dest: in_diffD split: option.splits)
  show ?thesis
  proof (cases "addr_of m c p")
    case None
    then have "used ?s' c' p' k' b = used s c' p' k' b" if "addr_of (hd (versions s)) c' p' = Some b" for c' p' k' b
      using that hd_a by (auto simp: used_def)
    then have "counters_ok ?s'"
      using inv None by (simp add: cb_inv_def counters_ok_def manager_decrement_eq)
    then show ?thesis using users None by (intro inv_keep [OF inv]) (simp_all add: manager_decrement_eq)
  next
    case (Some a)
    have "counters_ok ?s'"
    proof (rule counters_ok_move [OF inv, where k = k and a = a and d = "- 1"])
      fix c' p' k' b assume b: "addr_of (hd (versions s)) c' p' = Some b"
      have "(c' = c \<and> p' = p) \<longleftrightarrow> b = a" using addr_inj [OF ad _ b] hd_a Some by simp
      then show "of_nat (used ?s' c' p' k' b) = (if k' = k \<and> b = a then of_nat (used s c' p' k' b) + - 1
          else (of_nat (used s c' p' k' b) :: u32))"
        using pos of_nat_diff_1 [OF pos] by (auto simp: used_def)
    qed (simp_all add: counter_fetch_sub manager_decrement_eq Some)
    then show ?thesis using users Some by (intro inv_keep [OF inv]) (simp_all add: manager_decrement_eq)
  qed
qed

lemma add_cluster_addr_cases:
  assumes add: "add_cluster build_rest pc m h = (Inr cl, m', h')"
    and same: "m (partial_name pc) \<noteq> None \<longrightarrow>
      (breaker_of m (partial_name pc) = None \<longleftrightarrow> partial_breaker pc = None)"
  shows "m c \<noteq> None \<Longrightarrow> addr_of m' c p = addr_of m c p"
    "addr_of m' c p = Some a \<Longrightarrow> addr_of m c p = Some a \<or>
       (c = partial_name pc \<and> m c = None \<and> a = length h + (if p = Default then 0 else 1) \<and> a < length h')"
proof -
  show kept: "addr_of m' c p = addr_of m c p" if "m c \<noteq> None" for c p
    using that add_cluster_other_addr [OF add] add_cluster_keeps_addr [OF add] same
    by (cases "c = partial_name pc") auto
  show "addr_of m c p = Some a \<or>
       (c = partial_name pc \<and> m c = None \<and> a = length h + (if p = Default then 0 else 1) \<and> a < length h')"
    if "addr_of m' c p = Some a"
    using that kept [of c p] add_cluster_other_addr [OF add, of c p]
      add_cluster_new_addr [OF add, of p a]
    by (cases "m c = None"; cases "c = partial_name pc") simp_all
qed

lemma inv_updated:
  assumes inv: "cb_inv s" and add: "add_cluster build_rest pc (hd (versions s)) (cb_heap s) = (Inr cl, m', h)"
    and same: "hd (versions s) (partial_name pc) \<noteq> None \<longrightarrow>
      (breaker_of (hd (versions s)) (partial_name pc) = None \<longleftrightarrow> partial_breaker pc = None)"
  shows "cb_inv (s\<lparr>cb_heap := h, versions := m' # versions s\<rparr>)" (is "cb_inv ?s'")
proof -
  let ?m = "hd (versions s)"
  have vs: "versions_ok (versions s)" and ad: "addrs_ok (length (cb_heap s)) ?m"
    and cs: "counters_ok s" and us: "users_ok s"
    using inv by (simp_all add: cb_inv_def)
  obtain news where h: "h = cb_heap s @ news" "set news \<subseteq> {CircuitBreakerCounters_new}"
    using add_cluster_heap [OF add] by blast
  have len: "length (cb_heap s) \<le> length h" using h by simp
  note kept = add_cluster_addr_cases(1) [OF add same]
  note cases = add_cluster_addr_cases(2) [OF add same]
  have dom: "m' c \<noteq> None" if "?m c \<noteq> None" for c
    using that add_cluster_Inr(1) [OF add] by simp
  have "versions_ok (m' # versions s)"
    unfolding versions_ok_def
  proof (intro conjI ballI allI impI)
    fix m c assume m: "m \<in> set (m' # versions s)" "m c \<noteq> None"
    show "hd (m' # versions s) c \<noteq> None" using m versions_okD(2) [OF vs] dom by auto
    fix p
    show "addr_of m c p = addr_of (hd (m' # versions s)) c p"
    proof (cases "m = m'")
      case False
      then have mem: "m \<in> set (versions s)" using m(1) by simp
      show ?thesis
        using versions_okD [OF vs mem m(2)] kept by simp
    qed simp
  qed simp
  moreover have "addrs_ok (length h) m'"
    unfolding addrs_ok_def
  proof (intro allI impI conjI)
    fix c p a assume a: "addr_of m' c p = Some a"
    show "a < length h" using cases [OF a] addrs_okD(1) [OF ad] len by fastforce
    fix c' p' assume a': "addr_of m' c' p' = Some a"
    show "c' = c" "p' = p"
      using cases [OF a] cases [OF a'] addr_inj [OF ad] addrs_okD(1) [OF ad]
      by (cases p; cases p'; fastforce)+
  qed
  moreover have "counters_ok ?s'"
    unfolding counters_ok_def
  proof (intro allI impI)
    fix c p k a assume "addr_of (hd (versions ?s')) c p = Some a"
    then consider "addr_of ?m c p = Some a" |
      "?m c = None" "length (cb_heap s) \<le> a" "a < length h"
      using cases [of c p a] by auto
    then show "counter k (cb_heap ?s' ! a) = of_nat (used ?s' c p k a)"
    proof cases
      case 1
      then show ?thesis
        using counters_okD [OF cs 1, of k] addrs_okD(1) [OF ad 1] by (simp add: used_def h(1) nth_append)
    next
      case 2
      have "count (permits s) (c, p, k) = 0" "count (undos s) (a, k) = 0"
        using us 2(1,2) by (auto simp: users_ok_def count_eq_zero_iff)
      then show ?thesis
        using nth_append_news [OF h(2) 2(2)] 2(3) h(1)
        by (cases k) (simp_all add: used_def CircuitBreakerCounters_new_def)
    qed
  qed
  moreover have "users_ok ?s'"
    using us dom len by (fastforce simp: users_ok_def)
  ultimately show ?thesis by (simp add: cb_inv_def)
qed

lemma cb_step_inv:
  assumes "cb_step build_rest s s'" "cb_inv s"
  shows "cb_inv s'"
  using assms
proof (cases rule: cb_step.cases)
  case unlimited
  then show ?thesis using inv_unlimited [OF assms(2)] by blast
next
  case granted
  then show ?thesis using inv_granted [OF assms(2)] by blast
next
  case denied
  then show ?thesis using inv_denied [OF assms(2)] by blast
next
  case undone
  then show ?thesis using inv_undone [OF assms(2)] by blast
next
  case released
  then show ?thesis using inv_released [OF assms(2)] by blast
next
  case (updated pc cl m' h)
  then show ?thesis using inv_updated [OF assms(2) updated(2,3)] by simp
qed

lemma cb_reachable_inv: "cb_reachable build_rest s \<Longrightarrow> cb_inv s"
proof (induction rule: cb_reachable.induct)
  case start
  show ?case
    by (simp add: cb_init_def cb_inv_def versions_ok_def addrs_ok_def counters_ok_def users_ok_def
        addr_of_def breaker_of_def)
next
  case (step s s')
  then show ?case using cb_step_inv by blast
qed

lemma count_le_size: "count M x \<le> size M"
  by (metis count_mset_gt_0 count_le_replicate_mset_subset_eq le_refl size_mset_mono size_replicate_mset)

lemma used_le_in_flight: "used s c p k a \<le> in_flight s"
  unfolding used_def in_flight_def by (intro add_mono count_le_size)

lemma in_flight_reachable: "cb_reachable build_rest s \<Longrightarrow> in_flight s < 2 ^ 32"
  by (induction rule: cb_reachable.induct) (simp_all add: in_flight_def cb_init_def)

lemma reachable_counter:
  assumes "cb_reachable build_rest s" "addr_of (hd (versions s)) c p = Some a"
  shows "unat (counter k (cb_heap s ! a)) = used s c p k a"
proof -
  have "counter k (cb_heap s ! a) = of_nat (used s c p k a)"
    using cb_reachable_inv [OF assms(1)] by (intro counters_okD assms(2)) (simp add: cb_inv_def)
  moreover have "used s c p k a < 2 ^ 32"
    using used_le_in_flight [of s c p k a] in_flight_reachable [OF assms(1)] by linarith
  ultimately show ?thesis by (simp add: unsigned_of_nat take_bit_nat_eq_self)
qed




section \<open>Properties\<close>


text \<open>A run of one cluster with a threshold of one request: granted, denied.\<close>

definition demo_thresholds :: CircuitBreakerThresholds where
  "demo_thresholds = default_thresholds\<lparr>max_requests := 1\<rparr>"

definition demo_cluster :: "unit PartialClusterType" where
  "demo_cluster = \<lparr>partial_name = ''a'',
     partial_breaker = Some (fst (ClusterCircuitBreaker_from [demo_thresholds] [])), partial_rest = ()\<rparr>"

lemmas cb_eval = demo_thresholds_def demo_cluster_def default_thresholds_def ClusterCircuitBreaker_from_def
  find_thresholds_def arc_new_def CircuitBreakerCounters_new_def add_cluster_def PartialClusterType_build_def
  with_counters_def unwrap_or_new_def addr_of_def limit_of_def breaker_of_def fetch_add_def fetch_sub_def
  cb_init_def in_flight_def

definition demo_state :: "unit cb_state" where
  "demo_state = (case add_cluster Inr demo_cluster Map.empty [] of
     (_, m, h) \<Rightarrow> \<lparr>cb_heap = snd (fetch_add Requests 0 (snd (fetch_add Requests 0 h))), versions = [m, Map.empty],
        permits = {#(''a'', Default, Requests)#}, undos = {#(0, Requests)#}\<rparr>)"

lemma demo_reachable: "cb_reachable (Inr :: unit \<Rightarrow> str + unit) demo_state"
proof -
  obtain r m h where add: "add_cluster Inr demo_cluster Map.empty [] = (r, m, h)"
    by (cases "add_cluster Inr demo_cluster Map.empty []") auto
  let ?s1 = "cb_init\<lparr>cb_heap := h, versions := [m, Map.empty]\<rparr> :: unit cb_state"
  let ?s2 = "?s1\<lparr>cb_heap := snd (fetch_add Requests 0 h), permits := {#(''a'', Default, Requests)#}\<rparr>"
  have m: "addr_of m ''a'' Default = Some 0" "limit_of m ''a'' Default Requests = Some 1"
    "h = [CircuitBreakerCounters_new, CircuitBreakerCounters_new]" "\<exists>cl. r = Inr cl"
    using add by (auto simp: cb_eval)
  have "cb_step Inr cb_init ?s1"
    using cb_step.updated [of Inr demo_cluster "cb_init :: unit cb_state" _ m h] add m(4)
    by (auto simp: cb_init_def)
  then have r1: "cb_reachable Inr ?s1"
    by (rule cb_reachable.step [OF cb_reachable.start]) (simp add: in_flight_def cb_init_def)
  have "cb_step Inr ?s1 ?s2"
    using cb_step.granted [of m ?s1 "''a''" Default 0 Requests 1 0 "snd (fetch_add Requests 0 h)" Inr] m
    by (simp add: fetch_add_def cb_init_def CircuitBreakerCounters_new_def)
  then have r2: "cb_reachable Inr ?s2"
    by (rule cb_reachable.step [OF r1]) (simp add: in_flight_def cb_init_def)
  have "cb_step Inr ?s2 demo_state"
    using cb_step.denied [of m ?s2 "''a''" Default 0 Requests 1 1 "snd (fetch_add Requests 0 (cb_heap ?s2))" Inr] m add
    by (simp add: fetch_add_def cb_init_def CircuitBreakerCounters_new_def demo_state_def)
  then show ?thesis
    by (rule cb_reachable.step [OF r2]) (use add in \<open>simp add: in_flight_def demo_state_def\<close>)
qed

lemma demo_addr: "addr_of (hd (versions demo_state)) ''a'' Default = Some 0"
  by (simp add: demo_state_def cb_eval)


text \<open>C26: In every reachable state an attempt is granted exactly if fewer permits and pending
  denials than the threshold are counted; a grant adds one to that counter and to no other, and a
  denial reports the resource and leaves every counter unchanged.\<close>

theorem circuit_breaker_attempt:
  assumes "cb_reachable build_rest s" "m \<in> set (versions s)"
    "addr_of m c p = Some a" "limit_of m c p k = Some l"
  shows "let (r, h) = manager_try_increment k c p m (cb_heap s) in
    if count (permits s) (c, p, k) + count (undos s) (a, k) < unat l
    then r = Inr () \<and> (\<forall>k' b. b < length (cb_heap s) \<longrightarrow> counter k' (h ! b) =
      counter k' (cb_heap s ! b) + (if k' = k \<and> b = a then 1 else 0))
    else r = Inl (denial k) \<and> h = cb_heap s"
proof -
  have inv: "cb_inv s" by (rule cb_reachable_inv [OF assms(1)])
  have hd_a: "addr_of (hd (versions s)) c p = Some a"
    using versions_okD(1) [OF _ assms(2) addr_of_dom [OF assms(3)], of p] assms(3) inv
    by (simp add: cb_inv_def)
  have len: "a < length (cb_heap s)" using inv addrs_okD(1) [OF _ hd_a] by (simp add: cb_inv_def)
  have eq: "unat (counter k (cb_heap s ! a)) = count (permits s) (c, p, k) + count (undos s) (a, k)"
    using reachable_counter [OF assms(1) hd_a] by (simp add: used_def)
  have undo: "fetch_sub k a (snd (fetch_add k a (cb_heap s))) = cb_heap s"
    using len by (cases k) (simp_all add: fetch_sub_def fetch_add_def list_update_same_conv)
  show ?thesis
    using undo
    by (simp add: manager_try_increment_eq [OF assms(3,4)] eq [symmetric] word_le_nat_alt Let_def
        counter_fetch_add) (simp add: fetch_add_def)
qed

theorem circuit_breaker_attempt_witness:
  "manager_try_increment Requests ''a'' Default (hd (versions demo_state)) (cb_heap demo_state)
     = (Inl MaxRequests, cb_heap demo_state)"
  using circuit_breaker_attempt [OF demo_reachable _ demo_addr, of Requests 1]
  by (simp add: demo_state_def cb_eval case_prod_beta prod_eq_iff)





end
