(* ===== verification/Rate_Limit.thy ===== *)
theory Rate_Limit
  imports Prelude "HOL-Library.Multiset"
begin

text \<open>
  The token bucket and the filters built on it (\<^verbatim>\<open>listeners/rate_limiter/token_bucket.rs\<close>,
  \<^verbatim>\<open>local_rate_limiter.rs\<close>) and the limit on the connections of a filter chain
  (\<^verbatim>\<open>connection_limit.rs\<close>). The clock readings are arguments; the compare-and-swap loop and
  the connection counter are also modelled with all their interleavings.
\<close>

section \<open>Instants\<close>

text \<open>
  An \<^verbatim>\<open>Instant\<close> is a number of nanoseconds whose seconds fit 64 signed bits.
\<close>

type_synonym instant = int

definition instant_ok :: "instant \<Rightarrow> bool" where
  "instant_ok t \<longleftrightarrow> - (2 ^ 63 * 10 ^ 9) \<le> t \<and> t < 2 ^ 63 * 10 ^ 9"

definition instant_checked_sub :: "instant \<Rightarrow> duration \<Rightarrow> instant option" where
  [rust_std]: "instant_checked_sub t d = (if instant_ok (t - int d) then Some (t - int d) else None)"

definition instant_add :: "instant \<Rightarrow> duration \<Rightarrow> instant option" where
  [rust_std]: "instant_add t d = (if instant_ok (t + int d) then Some (t + int d) else None)"

definition sub_or_self :: "instant \<Rightarrow> duration \<Rightarrow> instant" where
  "sub_or_self now d = (case instant_checked_sub now d of Some t \<Rightarrow> t | None \<Rightarrow> now)"

lemma sub_or_self_ge: "now - int d \<le> sub_or_self now d"
  by (simp add: sub_or_self_def instant_checked_sub_def)

section \<open>The token bucket\<close>

record TokenBucket =
  tb_time :: instant
  time_per_token :: duration
  time_per_bucket :: duration
  max_tokens :: nat

datatype TokenBucketError = ZeroRate | ZeroCapacity

text \<open>The constructors; \<^const>\<open>None\<close> is a panic.\<close>

definition TokenBucket_new :: "u32 \<Rightarrow> u32 \<Rightarrow> duration \<Rightarrow> instant \<Rightarrow> TokenBucket option" where
  "TokenBucket_new capacity tokens_per_fill fill_interval now =
     do { full \<leftarrow> duration_mul fill_interval capacity;
          per_bucket \<leftarrow> duration_div full tokens_per_fill;
          twice \<leftarrow> duration_mul per_bucket 2;
          per_token \<leftarrow> duration_div fill_interval tokens_per_fill;
          Some \<lparr>tb_time = sub_or_self now twice, time_per_token = per_token,
            time_per_bucket = per_bucket, max_tokens = unat capacity\<rparr> }"

definition with_rate_and_capacity :: "u32 \<Rightarrow> u32 \<Rightarrow> instant \<Rightarrow> TokenBucketError + TokenBucket option" where
  "with_rate_and_capacity capacity events_per_second now =
     (if capacity = 0 then Inl ZeroCapacity
      else if events_per_second = 0 then Inl ZeroRate
      else Inr (do { fill_interval \<leftarrow> duration_div (10 ^ 9) events_per_second;
                     TokenBucket_new capacity 1 fill_interval now }))"

text \<open>One round of the loop of \<^verbatim>\<open>consume\<close>: the time the bucket would have.\<close>

definition next_time :: "TokenBucket \<Rightarrow> u32 \<Rightarrow> instant \<Rightarrow> instant \<Rightarrow> instant option" where
  "next_time tb tokens now old_time =
     do { req_fill_period \<leftarrow> duration_mul (time_per_token tb) tokens;
          let min_time = sub_or_self now (time_per_bucket tb);
          instant_add (if min_time > old_time then min_time else old_time) req_fill_period }"

text \<open>A call that is not interrupted: a failed weak swap repeats the round with the same time.\<close>

definition consume :: "u32 \<Rightarrow> instant \<Rightarrow> TokenBucket \<Rightarrow> (bool \<times> TokenBucket) option" where
  "consume tokens now tb =
     do { new_time \<leftarrow> next_time tb tokens now (tb_time tb);
          if new_time > now then Some (False, tb) else Some (True, tb\<lparr>tb_time := new_time\<rparr>) }"


section \<open>The filters\<close>

text \<open>The response of a limited request, by its status and its flag.\<close>

datatype response_flags = RATE_LIMITED

datatype 'r FilterDecision = Continue | Reroute | DirectResponse 'r

record LocalRateLimit =
  lrl_status :: nat
  lrl_bucket :: "TokenBucket option"

definition LocalRateLimit_run ::
  "instant \<Rightarrow> LocalRateLimit \<Rightarrow> ((nat \<times> response_flags) FilterDecision \<times> LocalRateLimit) option" where
  "LocalRateLimit_run now l =
     (case lrl_bucket l of
        None \<Rightarrow> Some (Continue, l)
      | Some tb \<Rightarrow>
          do { (ok, tb') \<leftarrow> consume 1 now tb;
               let l' = l\<lparr>lrl_bucket := Some tb'\<rparr>;
               if ok then Some (Continue, l')
               else Some (DirectResponse (lrl_status l, RATE_LIMITED), l') })"

definition ListenerLocalRateLimit_allow :: "instant \<Rightarrow> TokenBucket \<Rightarrow> (bool \<times> TokenBucket) option" where
  "ListenerLocalRateLimit_allow now tb = consume 1 now tb"

record TokenBucketConfig =
  cfg_max_tokens :: u32
  cfg_tokens_per_fill :: u32
  cfg_fill_interval :: duration

text \<open>Every runtime has its own bucket, filled at its share of the rate.\<close>

definition build_token_bucket :: "u32 \<Rightarrow> TokenBucketConfig \<Rightarrow> instant \<Rightarrow> TokenBucket option" where
  "build_token_bucket num_runtimes conf now =
     (let fill_interval = (case duration_mul (cfg_fill_interval conf) num_runtimes of
            Some v \<Rightarrow> v | None \<Rightarrow> cfg_fill_interval conf)
      in TokenBucket_new (cfg_max_tokens conf) (cfg_tokens_per_fill conf) fill_interval now)"

definition LocalRateLimit_from ::
  "u32 \<Rightarrow> nat \<Rightarrow> TokenBucketConfig option \<Rightarrow> instant \<Rightarrow> LocalRateLimit option" where
  "LocalRateLimit_from num_runtimes status conf now =
     (case conf of
        None \<Rightarrow> Some \<lparr>lrl_status = status, lrl_bucket = None\<rparr>
      | Some c \<Rightarrow> map_option (\<lambda>tb. \<lparr>lrl_status = status, lrl_bucket = Some tb\<rparr>) (build_token_bucket num_runtimes c now))"

section \<open>What a bucket holds\<close>















section \<open>Concurrent consumers\<close>

text \<open>
  The time cell, the calls that are inside the loop (tokens, clock reading, the time they loaded
  last) and the calls that were granted.
\<close>

record tb_state =
  cell :: instant
  callers :: "(u32 \<times> instant \<times> instant) multiset"
  grants :: "(u32 \<times> instant) list"

inductive tb_step :: "TokenBucket \<Rightarrow> tb_state \<Rightarrow> tb_state \<Rightarrow> bool" for tb where
  load: "tb_step tb s (s\<lparr>callers := add_mset (n, now, cell s) (callers s)\<rparr>)"
| refuse: "tb_step tb s (s\<lparr>callers := callers s - {#(n, now, old)#}\<rparr>)"
    if "(n, now, old) \<in># callers s" "next_time tb n now old = Some new" "new > now"
| swap: "tb_step tb s (s\<lparr>cell := new, callers := callers s - {#(n, now, old)#}, grants := (n, now) # grants s\<rparr>)"
    if "(n, now, old) \<in># callers s" "next_time tb n now old = Some new" "\<not> new > now" "cell s = old"
| retry: "tb_step tb s (s\<lparr>callers := add_mset (n, now, cell s) (callers s - {#(n, now, old)#})\<rparr>)"
    if "(n, now, old) \<in># callers s" "next_time tb n now old = Some new" "\<not> new > now"

definition tb_init :: "instant \<Rightarrow> tb_state" where
  "tb_init t = \<lparr>cell = t, callers = {#}, grants = []\<rparr>"

text \<open>The tokens granted to the calls that read the clock within a window.\<close>

definition tokens_in :: "instant \<Rightarrow> instant \<Rightarrow> (u32 \<times> instant) list \<Rightarrow> nat" where
  "tokens_in T1 T2 gs = sum_list (map (\<lambda>(n, now). if T1 \<le> now \<and> now \<le> T2 then unat n else 0) gs)"

lemma next_time_ge:
  assumes "next_time tb n now old = Some new"
  shows "old + int (time_per_token tb * unat n) \<le> new"
    "now - int (time_per_bucket tb) + int (time_per_token tb * unat n) \<le> new"
  using assms sub_or_self_ge [of now "time_per_bucket tb"]
  by (auto simp: next_time_def duration_mul_def instant_add_def Let_def
      simp del: of_nat_mult split: bind_splits if_splits)

definition window_inv :: "TokenBucket \<Rightarrow> instant \<Rightarrow> instant \<Rightarrow> tb_state \<Rightarrow> bool" where
  "window_inv tb T1 T2 s \<longleftrightarrow>
     (let used = int (time_per_token tb * tokens_in T1 T2 (grants s)) in
      used \<le> T2 - T1 + int (time_per_bucket tb) \<and>
      (\<not> (\<forall>(n, now)\<in>set (grants s). \<not> (T1 \<le> now \<and> now \<le> T2)) \<longrightarrow>
         T1 - int (time_per_bucket tb) + used \<le> cell s))"

lemma tokens_in_none:
  "\<forall>(n, now)\<in>set gs. \<not> (T1 \<le> now \<and> now \<le> T2) \<Longrightarrow> tokens_in T1 T2 gs = 0"
  by (induction gs) (auto simp: tokens_in_def)

lemma window_swap:
  assumes inv: "window_inv tb T1 T2 s" and new: "next_time tb n now (cell s) = Some new" "new \<le> now"
  shows "window_inv tb T1 T2 (s\<lparr>cell := new, callers := cs, grants := (n, now) # grants s\<rparr>)"
    (is "window_inv _ _ _ ?s'")
proof -
  let ?q = "time_per_token tb" and ?g = "tokens_in T1 T2 (grants s)"
  have "0 \<le> int (?q * unat n)" by simp
  then have grow: "cell s \<le> new" using next_time_ge(1) [OF new(1)] by linarith
  show ?thesis
  proof (cases "T1 \<le> now \<and> now \<le> T2")
    case False
    then have "tokens_in T1 T2 ((n, now) # grants s) = ?g" by (auto simp: tokens_in_def)
    then show ?thesis using inv False grow by (auto simp: window_inv_def Let_def)
  next
    case True
    then have g: "int (?q * tokens_in T1 T2 ((n, now) # grants s)) = int (?q * ?g) + int (?q * unat n)"
      by (simp add: tokens_in_def distrib_left)
    have "T1 - int (time_per_bucket tb) + (int (?q * ?g) + int (?q * unat n)) \<le> new"
    proof (cases "\<forall>(n, now)\<in>set (grants s). \<not> (T1 \<le> now \<and> now \<le> T2)")
      case none: True
      then have "int (?q * ?g) = 0" using tokens_in_none [OF none] by simp
      then show ?thesis using next_time_ge(2) [OF new(1)] True by linarith
    next
      case False
      then have "T1 - int (time_per_bucket tb) + int (?q * ?g) \<le> cell s"
        using inv unfolding window_inv_def Let_def by blast
      then show ?thesis using next_time_ge(1) [OF new(1)] by linarith
    qed
    moreover have "grants ?s' = (n, now) # grants s" "cell ?s' = new" by simp_all
    ultimately show ?thesis
      using new(2) True unfolding window_inv_def Let_def by (simp only: g simp_thms) linarith
  qed
qed

lemma tb_step_window:
  assumes "tb_step tb s s'" "window_inv tb T1 T2 s"
  shows "window_inv tb T1 T2 s'"
  using assms
proof (cases rule: tb_step.cases)
  case (swap n now old new)
  then show ?thesis using window_swap [OF assms(2)] by simp
qed (simp_all add: window_inv_def)

text \<open>C6: However the calls of any number of threads interleave, and however often a swap fails,
  the tokens granted to the calls whose clock reading lies in a window of time are at most what the
  bucket holds plus what is filled in during the window.\<close>

theorem token_bucket_rate:
  assumes "(tb_step tb)\<^sup>*\<^sup>* (tb_init t) s" "T1 \<le> T2"
  shows "int (time_per_token tb * tokens_in T1 T2 (grants s)) \<le> T2 - T1 + int (time_per_bucket tb)"
proof -
  have "window_inv tb T1 T2 s"
    using assms(1)
  proof (induction rule: rtranclp_induct)
    case base
    then show ?case using assms(2) by (simp add: window_inv_def tb_init_def tokens_in_def)
  next
    case (step s s')
    then show ?case using tb_step_window by blast
  qed
  then show ?thesis by (simp add: window_inv_def Let_def)
qed


text \<open>A bucket of two tokens, filled at one token per ten nanoseconds.\<close>

definition demo_bucket :: TokenBucket where
  "demo_bucket = \<lparr>tb_time = 0, time_per_token = 10, time_per_bucket = 20, max_tokens = 2\<rparr>"

lemma demo_run:
  "(tb_step demo_bucket)\<^sup>*\<^sup>* (tb_init 0) \<lparr>cell = 100, callers = {#}, grants = [(1, 100), (1, 100)]\<rparr>"
proof -
  have t: "next_time demo_bucket 1 100 0 = Some 90" "next_time demo_bucket 1 100 90 = Some 100"
    by (simp_all add: next_time_def demo_bucket_def duration_mul_def duration_MAX_def sub_or_self_def
        instant_checked_sub_def instant_add_def instant_ok_def Let_def)
  let ?s = "\<lambda>c cs gs. \<lparr>cell = c, callers = cs, grants = gs\<rparr> :: tb_state"
  let ?step = "tb_step demo_bucket"
  have "?step (?s 0 {#} []) (?s 0 {#(1, 100, 0)#} [])"
    using tb_step.load [of demo_bucket "?s 0 {#} []" 1 100] by simp
  moreover have "?step (?s 0 {#(1, 100, 0)#} []) (?s 0 {#(1, 100, 0), (1, 100, 0)#} [])"
    using tb_step.load [of demo_bucket "?s 0 {#(1, 100, 0)#} []" 1 100] by simp
  moreover have "?step (?s 0 {#(1, 100, 0), (1, 100, 0)#} []) (?s 90 {#(1, 100, 0)#} [(1, 100)])"
    using tb_step.swap [of 1 100 0 "?s 0 {#(1, 100, 0), (1, 100, 0)#} []" demo_bucket 90] t by simp
  moreover have "?step (?s 90 {#(1, 100, 0)#} [(1, 100)]) (?s 90 {#(1, 100, 90)#} [(1, 100)])"
    using tb_step.retry [of 1 100 0 "?s 90 {#(1, 100, 0)#} [(1, 100)]" demo_bucket 90] t by simp
  moreover have "?step (?s 90 {#(1, 100, 90)#} [(1, 100)]) (?s 100 {#} [(1, 100), (1, 100)])"
    using tb_step.swap [of 1 100 90 "?s 90 {#(1, 100, 90)#} [(1, 100)]" demo_bucket 100] t by simp
  ultimately show ?thesis
    unfolding tb_init_def by (meson converse_rtranclp_into_rtranclp rtranclp.rtrancl_refl)
qed

theorem token_bucket_rate_witness:
  "int (10 * tokens_in 100 100 [(1, 100), (1, 100)]) \<le> 20"
  using token_bucket_rate [OF demo_run, of 100 100] by (simp add: demo_bucket_def)



section \<open>The connection limit\<close>

text \<open>
  The counters are shared by the limiters of one listener and filter chain: the global map gives
  the index of a counter in a heap.
\<close>

record NetworkConnectionLimit =
  active :: nat
  limit_connections :: u64
  limit_delay :: "duration option"

type_synonym connection_counts = "(str \<times> u64 \<rightharpoonup> nat) \<times> u64 list"

definition NetworkConnectionLimit_from ::
  "str \<times> u64 \<Rightarrow> u64 \<Rightarrow> duration option \<Rightarrow> connection_counts \<Rightarrow> NetworkConnectionLimit \<times> connection_counts" where
  "NetworkConnectionLimit_from key max_connections delay counts =
     (let (m, h) = counts;
          (a, m', h') = (case m key of Some a \<Rightarrow> (a, m, h) | None \<Rightarrow> (length h, m(key \<mapsto> length h), h @ [0]))
      in (\<lparr>active = a, limit_connections = max_connections, limit_delay = delay\<rparr>, m', h'))"

text \<open>A check without interference, the delay before a rejection, and the drop of the guard.\<close>

datatype check_result = Accepted | Rejected "duration option"

definition connection_check :: "NetworkConnectionLimit \<Rightarrow> u64 list \<Rightarrow> check_result \<times> u64 list" where
  "connection_check l h =
     (let current = h ! active l in
      if current \<ge> limit_connections l then (Rejected (limit_delay l), h)
      else (Accepted, h[active l := current + 1]))"

definition ConnectionGuard_drop :: "nat \<Rightarrow> u64 list \<Rightarrow> u64 list" where
  "ConnectionGuard_drop a h = h[a := h ! a - 1]"

text \<open>
  The load of the counter and its increment are two atomic operations. The state of one counter:
  its value, the checks that passed the comparison and have not counted yet, and the open guards.
\<close>

record cl_state =
  cl_active :: u64
  cl_passed :: nat
  cl_open :: nat

inductive cl_step :: "u64 \<Rightarrow> nat \<Rightarrow> cl_state \<Rightarrow> cl_state \<Rightarrow> bool" for maximum threads where
  pass: "cl_step maximum threads s (s\<lparr>cl_passed := cl_passed s + 1\<rparr>)"
    if "\<not> cl_active s \<ge> maximum" "cl_passed s < threads"
| reject: "cl_step maximum threads s s" if "cl_active s \<ge> maximum" "cl_passed s < threads"
| enter: "cl_step maximum threads s \<lparr>cl_active = cl_active s + 1, cl_passed = n, cl_open = cl_open s + 1\<rparr>"
    if "cl_passed s = Suc n"
| close: "cl_step maximum threads s (s\<lparr>cl_active := cl_active s - 1, cl_open := n\<rparr>)"
    if "cl_open s = Suc n"

definition cl_init :: cl_state where
  "cl_init = \<lparr>cl_active = 0, cl_passed = 0, cl_open = 0\<rparr>"

definition cl_inv :: "u64 \<Rightarrow> nat \<Rightarrow> cl_state \<Rightarrow> bool" where
  "cl_inv maximum threads s \<longleftrightarrow> unat (cl_active s) = cl_open s \<and> cl_passed s \<le> threads \<and>
     (cl_open s + cl_passed s = 0 \<or> cl_open s + cl_passed s < unat maximum + threads)"

lemma unat_add_1: "unat (w :: u64) + 1 < 2 ^ 64 \<Longrightarrow> unat (w + 1) = unat w + 1"
  by (simp add: unat_word_ariths)

lemma unat_diff_1: "unat (w :: u64) = Suc n \<Longrightarrow> unat (w - 1) = n"
  by (metis One_nat_def diff_Suc_1 nat.distinct(1) unat_0 unat_minus_one)

lemma cl_step_inv:
  assumes "cl_step maximum threads s s'" "unat maximum + threads \<le> 2 ^ 64" "cl_inv maximum threads s"
  shows "cl_inv maximum threads s'"
  using assms(1)
proof (cases rule: cl_step.cases)
  case pass
  then show ?thesis using assms(3) by (auto simp: cl_inv_def word_le_nat_alt)
next
  case reject
  then show ?thesis using assms(3) by simp
next
  case (enter n)
  then have "cl_open s + 1 < 2 ^ 64" using assms(2,3) by (auto simp: cl_inv_def)
  then show ?thesis using enter assms(3) unat_add_1 [of "cl_active s"] by (auto simp: cl_inv_def)
next
  case (close n)
  then show ?thesis using assms(3) unat_diff_1 [of "cl_active s" n] by (auto simp: cl_inv_def)
qed

lemma cl_fill:
  assumes "0 < maximum" "0 < threads" "unat maximum + threads \<le> 2 ^ 64"
  shows "(cl_step maximum threads)\<^sup>*\<^sup>* cl_init
    \<lparr>cl_active = maximum - 1, cl_passed = 0, cl_open = unat maximum - 1\<rparr>"
proof -
  have "n < unat maximum \<Longrightarrow> (cl_step maximum threads)\<^sup>*\<^sup>* cl_init
      \<lparr>cl_active = of_nat n, cl_passed = 0, cl_open = n\<rparr>" for n
  proof (induction n)
    case (Suc n)
    let ?s = "\<lparr>cl_active = of_nat n, cl_passed = 0, cl_open = n\<rparr> :: cl_state"
    have "unat (of_nat n :: u64) = n"
      using Suc.prems unat_u64_less [of maximum] by (intro unat_of_nat_u64) linarith
    then have "\<not> cl_active ?s \<ge> maximum" using Suc.prems by (simp add: word_le_nat_alt)
    then have "cl_step maximum threads ?s (?s\<lparr>cl_passed := 1\<rparr>)"
      using cl_step.pass [of maximum ?s threads] assms(2) by simp
    moreover have "cl_step maximum threads (?s\<lparr>cl_passed := 1\<rparr>)
        \<lparr>cl_active = of_nat (Suc n), cl_passed = 0, cl_open = Suc n\<rparr>"
      using cl_step.enter [of "?s\<lparr>cl_passed := 1\<rparr>" 0 maximum threads] by (simp add: add.commute)
    ultimately show ?case using Suc by (meson Suc_lessD rtranclp.rtrancl_into_rtrancl)
  qed (simp add: cl_init_def)
  from this [of "unat maximum - 1"] show ?thesis
    using assms(1) by (simp add: word_gt_0_no unat_gt_0 of_nat_diff Suc_leI)
qed

lemma cl_burst_pass:
  assumes "\<not> a \<ge> maximum" "n \<le> threads"
  shows "(cl_step maximum threads)\<^sup>*\<^sup>* \<lparr>cl_active = a, cl_passed = 0, cl_open = k\<rparr>
    \<lparr>cl_active = a, cl_passed = n, cl_open = k\<rparr>"
  using assms(2)
proof (induction n)
  case (Suc n)
  have "cl_step maximum threads \<lparr>cl_active = a, cl_passed = n, cl_open = k\<rparr>
      \<lparr>cl_active = a, cl_passed = Suc n, cl_open = k\<rparr>"
    using cl_step.pass [of maximum "\<lparr>cl_active = a, cl_passed = n, cl_open = k\<rparr>" threads] assms(1) Suc.prems
    by simp
  then show ?case using Suc by (meson Suc_leD rtranclp.rtrancl_into_rtrancl)
qed simp

lemma cl_burst_enter:
  "(cl_step maximum threads)\<^sup>*\<^sup>* \<lparr>cl_active = a, cl_passed = n, cl_open = k\<rparr>
    \<lparr>cl_active = a + of_nat n, cl_passed = 0, cl_open = k + n\<rparr>"
proof (induction n arbitrary: a k)
  case (Suc n)
  have "cl_step maximum threads \<lparr>cl_active = a, cl_passed = Suc n, cl_open = k\<rparr>
      \<lparr>cl_active = a + 1, cl_passed = n, cl_open = k + 1\<rparr>"
    using cl_step.enter [of "\<lparr>cl_active = a, cl_passed = Suc n, cl_open = k\<rparr>" n] by simp
  then show ?case using Suc [of "a + 1" "k + 1"] by (simp add: converse_rtranclp_into_rtranclp add.assoc)
qed simp

text \<open>C40: If up to \<open>threads\<close> checks of one limiter run at the same time, at most
  \<open>maximum + threads - 1\<close> connections are open, so the configured maximum is kept when checks do not
  overlap; and with overlapping checks that many connections do get open, above the maximum.\<close>

theorem connection_limit_race:
  assumes "0 < maximum" "0 < threads" "unat maximum + threads \<le> 2 ^ 64"
  shows "(\<forall>s. (cl_step maximum threads)\<^sup>*\<^sup>* cl_init s \<longrightarrow>
      unat (cl_active s) = cl_open s \<and> cl_open s \<le> unat maximum + threads - 1) \<and>
    (\<exists>s. (cl_step maximum threads)\<^sup>*\<^sup>* cl_init s \<and> cl_open s = unat maximum + threads - 1)"
proof (intro conjI allI impI)
  fix s assume run: "(cl_step maximum threads)\<^sup>*\<^sup>* cl_init s"
  have "cl_inv maximum threads s"
    using run
  proof (induction rule: rtranclp_induct)
    case base
    then show ?case by (simp add: cl_inv_def cl_init_def)
  next
    case (step s s')
    then show ?case using cl_step_inv assms(3) by blast
  qed
  then show "unat (cl_active s) = cl_open s" "cl_open s \<le> unat maximum + threads - 1"
    using assms(2) by (auto simp: cl_inv_def)
next
  have "unat (maximum - 1) = unat maximum - 1"
    using assms(1) by (simp add: unat_minus_one word_gt_0)
  then have "\<not> maximum - 1 \<ge> maximum"
    using assms(1) by (simp add: word_le_nat_alt word_less_nat_alt)
  from cl_fill [OF assms] cl_burst_pass [OF this order_refl, of threads "unat maximum - 1"]
    cl_burst_enter [of maximum threads "maximum - 1" threads "unat maximum - 1"]
  have "(cl_step maximum threads)\<^sup>*\<^sup>* cl_init
      \<lparr>cl_active = maximum - 1 + of_nat threads, cl_passed = 0, cl_open = unat maximum - 1 + threads\<rparr>"
    by (meson rtranclp_trans)
  then show "\<exists>s. (cl_step maximum threads)\<^sup>*\<^sup>* cl_init s \<and> cl_open s = unat maximum + threads - 1"
    using assms(1) by (intro exI conjI) (auto simp: word_less_nat_alt)
qed

theorem connection_limit_race_witness:
  "\<exists>s. (cl_step 1 2)\<^sup>*\<^sup>* cl_init s \<and> cl_open s = Suc (Suc 0)"
  using connection_limit_race [of 1 2] by simp

end
