(* ===== verification/Strings.thy ===== *)
theory Strings
  imports Prelude
begin

text \<open>
  The operations of Rust's \<^verbatim>\<open>str\<close> that the matchers use, on byte strings: prefixes,
  suffixes, search, slicing at UTF-8 character boundaries and ASCII case. The lemmas show that
  slicing never hides a match that ignores ASCII case.
\<close>

section \<open>Prefixes, suffixes and search\<close>

definition starts_with :: "str \<Rightarrow> str \<Rightarrow> bool" where
  [rust_std]: "starts_with s p \<longleftrightarrow> take (length p) s = p"

definition str_ends_with :: "str \<Rightarrow> str \<Rightarrow> bool" where
  [rust_std]: "str_ends_with s p \<longleftrightarrow> length p \<le> length s \<and> drop (length s - length p) s = p"

definition strip_suffix_char :: "char \<Rightarrow> str \<Rightarrow> str option" where
  [rust_std]: "strip_suffix_char c s = (if s \<noteq> [] \<and> last s = c then Some (butlast s) else None)"

definition strip_prefix_char :: "char \<Rightarrow> str \<Rightarrow> str option" where
  [rust_std]: "strip_prefix_char c s = (case s of [] \<Rightarrow> None | x # xs \<Rightarrow> if x = c then Some xs else None)"

fun str_find :: "str \<Rightarrow> str \<Rightarrow> nat option" where
  "str_find needle [] = (if needle = [] then Some 0 else None)"
| "str_find needle (c # cs) =
     (if starts_with (c # cs) needle then Some 0 else map_option Suc (str_find needle cs))"

text \<open>\<^verbatim>\<open>rsplit_once(c)\<close>: the parts before and after the last \<open>c\<close>.\<close>

fun rsplit_once :: "char \<Rightarrow> str \<Rightarrow> (str \<times> str) option" where
  "rsplit_once c [] = None"
| "rsplit_once c (x # xs) =
     (case rsplit_once c xs of
        Some (a, b) \<Rightarrow> Some (x # a, b)
      | None \<Rightarrow> if x = c then Some ([], xs) else None)"

lemma starts_with_append: "starts_with s p \<longleftrightarrow> (\<exists>r. s = p @ r)"
  unfolding starts_with_def by (metis append_eq_conv_conj append_take_drop_id)

lemma starts_with_length: "starts_with s p \<Longrightarrow> length p \<le> length s"
  by (auto simp: starts_with_append)

lemma str_ends_with_append: "str_ends_with s p \<longleftrightarrow> (\<exists>r. s = r @ p)"
proof
  assume "str_ends_with s p"
  then show "\<exists>r. s = r @ p" unfolding str_ends_with_def by (metis append_take_drop_id)
qed (auto simp: str_ends_with_def)

lemma str_find_Some_iff:
  "str_find needle s \<noteq> None \<longleftrightarrow> (\<exists>i\<le>length s. starts_with (drop i s) needle)"
proof (induction needle s rule: str_find.induct)
  case (1 needle)
  then show ?case by (auto simp: starts_with_def)
next
  case (2 needle c cs)
  show ?case
  proof (cases "starts_with (c # cs) needle")
    case True
    then show ?thesis by (auto intro: exI [of _ 0])
  next
    case False
    have "(\<exists>i\<le>length (c # cs). starts_with (drop i (c # cs)) needle) \<longleftrightarrow>
        (\<exists>i\<le>length cs. starts_with (drop i cs) needle)"
    proof
      assume "\<exists>i\<le>length (c # cs). starts_with (drop i (c # cs)) needle"
      then obtain i where i: "i \<le> length (c # cs)" "starts_with (drop i (c # cs)) needle" by blast
      then obtain j where "i = Suc j" using False by (cases i) auto
      then show "\<exists>i\<le>length cs. starts_with (drop i cs) needle" using i by auto
    next
      assume "\<exists>i\<le>length cs. starts_with (drop i cs) needle"
      then obtain j where "j \<le> length cs" "starts_with (drop j cs) needle" by blast
      then show "\<exists>i\<le>length (c # cs). starts_with (drop i (c # cs)) needle"
        by (intro exI [of _ "Suc j"]) simp
    qed
    then show ?thesis using 2 False by simp
  qed
qed

lemma rsplit_once_Some:
  "rsplit_once c s = Some (a, b) \<longleftrightarrow> s = a @ c # b \<and> c \<notin> set b"
proof (induction s arbitrary: a b)
  case (Cons x xs)
  show ?case
  proof (cases "rsplit_once c xs")
    case None
    have "c \<notin> set xs"
    proof
      assume "c \<in> set xs"
      then obtain ys zs where "xs = ys @ c # zs" "c \<notin> set zs" using split_list_last by metis
      then show False using None Cons.IH [of ys zs] by simp
    qed
    then show ?thesis using None by (auto simp: Cons_eq_append_conv)
  next
    case (Some p)
    obtain a' b' where p: "p = (a', b')" by (cases p)
    then have xs: "xs = a' @ c # b'" "c \<notin> set b'" using Some Cons.IH [of a' b'] by auto
    show ?thesis
    proof
      assume "rsplit_once c (x # xs) = Some (a, b)"
      then show "x # xs = a @ c # b \<and> c \<notin> set b" using Some p xs by auto
    next
      assume a: "x # xs = a @ c # b \<and> c \<notin> set b"
      then have "a \<noteq> []" using xs by (auto simp: Cons_eq_append_conv)
      then obtain a'' where "a = x # a''" "xs = a'' @ c # b" using a by (auto simp: Cons_eq_append_conv)
      then show "rsplit_once c (x # xs) = Some (a, b)" using Cons.IH [of a'' b] a by simp
    qed
  qed
qed simp

section \<open>ASCII case\<close>

definition to_ascii_lowercase :: "char \<Rightarrow> char" where
  [rust_std]: "to_ascii_lowercase c =
     (let n = of_char c :: nat in if 65 \<le> n \<and> n \<le> 90 then char_of (n + 32) else c)"

abbreviation lower :: "str \<Rightarrow> str" where
  "lower s \<equiv> map to_ascii_lowercase s"

text \<open>\<^verbatim>\<open>split\<close> and \<^verbatim>\<open>trim\<close>, of the text of a header value, whose only white space is spaces and tabs.\<close>

fun str_split :: "char \<Rightarrow> str \<Rightarrow> str list" where
  "str_split c [] = [[]]"
| "str_split c (x # xs) =
     (if x = c then [] # str_split c xs
      else case str_split c xs of [] \<Rightarrow> [[x]] | y # ys \<Rightarrow> (x # y) # ys)"

definition str_trim :: "str \<Rightarrow> str" where
  "str_trim s = (let blank = (\<lambda>c. of_char c \<in> {32, 9 :: nat})
     in rev (dropWhile blank (rev (dropWhile blank s))))"

definition eq_ignore_ascii_case :: "str \<Rightarrow> str \<Rightarrow> bool" where
  [rust_std]: "eq_ignore_ascii_case a b \<longleftrightarrow> lower a = lower b"

lemma of_char_less: "(of_char c :: nat) < 256"
  by (metis of_char_mod_256 mod_less_divisor zero_less_numeral)

lemma lower_code:
  "(of_char (to_ascii_lowercase c) :: nat) =
     (if 65 \<le> (of_char c :: nat) \<and> (of_char c :: nat) \<le> 90 then of_char c + 32 else of_char c)"
  by (simp add: to_ascii_lowercase_def Let_def of_char_of)

section \<open>UTF-8\<close>

definition is_continuation :: "char \<Rightarrow> bool" where
  "is_continuation c \<longleftrightarrow> 128 \<le> (of_char c :: nat) \<and> (of_char c :: nat) < 192"

text \<open>The length of the encoding that a byte starts; 0 for a byte that starts none.\<close>

definition utf8_width :: "char \<Rightarrow> nat" where
  "utf8_width c = (let n = of_char c :: nat in
     if n < 128 then 1 else if n < 194 then 0 else if n < 224 then 2 else if n < 240 then 3
     else if n < 245 then 4 else 0)"

text \<open>
  A string is a sequence of encodings. This is weaker than the full validity of UTF-8, which also
  excludes overlong encodings and surrogates, so what holds for these strings holds for every
  \<^verbatim>\<open>str\<close>.
\<close>

function utf8_chunks :: "str \<Rightarrow> bool" where
  "utf8_chunks [] = True"
| "utf8_chunks (c # cs) =
     (let w = utf8_width c in
      0 < w \<and> w - 1 \<le> length cs \<and> list_all is_continuation (take (w - 1) cs) \<and> utf8_chunks (drop (w - 1) cs))"
  by pat_completeness auto
termination by (relation "measure length") (auto simp: less_Suc_eq_le)

definition is_char_boundary :: "str \<Rightarrow> nat \<Rightarrow> bool" where
  [rust_std]: "is_char_boundary s i \<longleftrightarrow>
     i = 0 \<or> i = length s \<or> (i < length s \<and> \<not> is_continuation (s ! i))"

text \<open>\<^verbatim>\<open>s.get(a..b)\<close>\<close>

definition str_get :: "str \<Rightarrow> nat \<Rightarrow> nat \<Rightarrow> str option" where
  [rust_std]: "str_get s a b =
     (if a \<le> b \<and> is_char_boundary s a \<and> is_char_boundary s b then Some (take (b - a) (drop a s)) else None)"

text \<open>\<^verbatim>\<open>s.char_indices()\<close>, the indices only\<close>

definition char_indices :: "str \<Rightarrow> nat list" where
  [rust_std]: "char_indices s = filter (is_char_boundary s) [0..<length s]"

lemma width_not_continuation: "0 < utf8_width c \<Longrightarrow> \<not> is_continuation c"
  by (auto simp: utf8_width_def is_continuation_def Let_def split: if_splits)

lemma same_lower:
  assumes "to_ascii_lowercase c = to_ascii_lowercase d"
  shows "utf8_width c = utf8_width d" "is_continuation c \<longleftrightarrow> is_continuation d"
proof -
  define m n where "m = (of_char c :: nat)" and "n = (of_char d :: nat)"
  have "(if 65 \<le> m \<and> m \<le> 90 then m + 32 else m) = (if 65 \<le> n \<and> n \<le> 90 then n + 32 else n)"
    unfolding m_def n_def by (metis lower_code assms)
  then have "m = n \<or> (m < 128 \<and> n < 128)"
    by (cases "65 \<le> m \<and> m \<le> 90"; cases "65 \<le> n \<and> n \<le> 90") auto
  then show "utf8_width c = utf8_width d" "is_continuation c \<longleftrightarrow> is_continuation d"
    unfolding utf8_width_def is_continuation_def Let_def m_def [symmetric] n_def [symmetric] by auto
qed

lemma chunks_boundary:
  assumes "utf8_chunks (drop i s)" "i \<le> length s"
  shows "is_char_boundary s i"
proof (cases "i = length s")
  case False
  then obtain c cs where d: "drop i s = c # cs" using assms(2) by (cases "drop i s") auto
  then have "s ! i = c" using assms(2) False by (metis hd_drop_conv_nth le_neq_implies_less list.sel(1))
  moreover have "0 < utf8_width c" using assms(1) d by (simp add: Let_def)
  ultimately show ?thesis
    using width_not_continuation assms(2) False by (auto simp: is_char_boundary_def)
qed (simp add: is_char_boundary_def)

lemma boundary_chunks:
  assumes "utf8_chunks s" "is_char_boundary s i"
  shows "utf8_chunks (drop i s)"
  using assms
proof (induction s arbitrary: i rule: utf8_chunks.induct)
  case (2 c cs)
  define w where "w = utf8_width c"
  have w: "0 < w" "w - 1 \<le> length cs" "list_all is_continuation (take (w - 1) cs)" "utf8_chunks (drop (w - 1) cs)"
    using "2.prems"(1) by (simp_all add: w_def Let_def)
  show ?case
  proof (cases "i = 0")
    case True
    then show ?thesis using "2.prems"(1) by simp
  next
    case pos: False
    show ?thesis
    proof (cases "i < w")
      case True
      then have "i - 1 < length (take (w - 1) cs)" using pos w(2) by simp
      then have "is_continuation (take (w - 1) cs ! (i - 1))" using w(3) by (simp add: list_all_length)
      then have "is_continuation ((c # cs) ! i)" using True pos by (simp add: nth_Cons')
      moreover have "i < length (c # cs)" using True w(1,2) by simp
      ultimately show ?thesis using "2.prems"(2) pos by (simp add: is_char_boundary_def)
    next
      case False
      define j where "j = i - w"
      have d: "drop i (c # cs) = drop j (drop (w - 1) cs)"
        using False w(1) pos by (simp add: j_def drop_Cons')
      have "is_char_boundary (drop (w - 1) cs) j"
        using "2.prems"(2) False w(1,2) pos by (auto simp: is_char_boundary_def j_def nth_Cons')
      then show ?thesis
        unfolding d using "2.IH" [of w j] w by (simp add: w_def)
    qed
  qed
qed simp

lemma prefix_chunks:
  assumes "utf8_chunks p" "utf8_chunks s" "length p \<le> length s" "lower (take (length p) s) = lower p"
  shows "utf8_chunks (drop (length p) s)"
  using assms
proof (induction p arbitrary: s rule: utf8_chunks.induct)
  case (2 c cs)
  obtain d ds where s: "s = d # ds" using "2.prems"(3) by (cases s) auto
  have same: "to_ascii_lowercase d = to_ascii_lowercase c" "lower (take (length cs) ds) = lower cs"
    using "2.prems"(4) s by simp_all
  define w where "w = utf8_width c"
  have wd: "utf8_width d = w" using same_lower(1) [OF same(1)] by (simp add: w_def)
  have w: "0 < w" "w - 1 \<le> length cs" "utf8_chunks (drop (w - 1) cs)"
    using "2.prems"(1) by (simp_all add: w_def Let_def)
  have ds: "utf8_chunks (drop (w - 1) ds)" using "2.prems"(2) s wd by (simp add: Let_def)
  have "lower (take (length (drop (w - 1) cs)) (drop (w - 1) ds)) = drop (w - 1) (lower (take (length cs) ds))"
    by (simp add: drop_map drop_take)
  then have "lower (take (length (drop (w - 1) cs)) (drop (w - 1) ds)) = lower (drop (w - 1) cs)"
    using same(2) by (simp add: drop_map)
  moreover have "length (drop (w - 1) cs) \<le> length (drop (w - 1) ds)" using "2.prems"(3) s by simp
  ultimately have "utf8_chunks (drop (length (drop (w - 1) cs)) (drop (w - 1) ds))"
    using "2.IH" [of w "drop (w - 1) ds"] w ds by (simp add: w_def)
  then show ?case using w(2) s by simp
qed simp

section \<open>Matching without regard to ASCII case\<close>

lemma insensitive_prefix:
  assumes "utf8_chunks s" "utf8_chunks p"
  shows "(\<exists>slice. str_get s 0 (length p) = Some slice \<and> eq_ignore_ascii_case slice p) \<longleftrightarrow> starts_with (lower s) (lower p)"
proof
  assume "\<exists>slice. str_get s 0 (length p) = Some slice \<and> eq_ignore_ascii_case slice p"
  then show "starts_with (lower s) (lower p)"
    by (auto simp: str_get_def starts_with_def eq_ignore_ascii_case_def take_map split: if_splits)
next
  assume "starts_with (lower s) (lower p)"
  then have "lower (take (length p) s) = lower p" "length p \<le> length s"
    using starts_with_length by (fastforce simp: starts_with_def take_map)+
  then show "\<exists>slice. str_get s 0 (length p) = Some slice \<and> eq_ignore_ascii_case slice p"
    using prefix_chunks [OF assms(2,1)] chunks_boundary [of "length p" s]
    by (simp add: str_get_def eq_ignore_ascii_case_def) (simp add: is_char_boundary_def)
qed

lemma head_boundary:
  assumes "utf8_chunks p" "p \<noteq> []" "i + length p \<le> length s" "lower (take (length p) (drop i s)) = lower p"
  shows "is_char_boundary s i"
proof -
  obtain c cs where p: "p = c # cs" using assms(2) by (cases p) auto
  have i: "i < length s" using assms(3) p by simp
  then have "drop i s = s ! i # drop (Suc i) s" by (simp add: Cons_nth_drop_Suc)
  then have "to_ascii_lowercase (s ! i) = to_ascii_lowercase c" using assms(4) p by simp
  moreover have "\<not> is_continuation c" using assms(1) p width_not_continuation by (simp add: Let_def)
  ultimately have "\<not> is_continuation (s ! i)" using same_lower(2) by blast
  then show ?thesis using i by (simp add: is_char_boundary_def)
qed

lemma insensitive_suffix:
  assumes "utf8_chunks p"
  shows "(length p \<le> length s \<and>
      (\<exists>slice. str_get s (length s - length p) (length s) = Some slice \<and> eq_ignore_ascii_case slice p)) \<longleftrightarrow>
    str_ends_with (lower s) (lower p)"
proof
  assume "length p \<le> length s \<and>
    (\<exists>slice. str_get s (length s - length p) (length s) = Some slice \<and> eq_ignore_ascii_case slice p)"
  then show "str_ends_with (lower s) (lower p)"
    by (auto simp: str_get_def str_ends_with_def eq_ignore_ascii_case_def drop_map split: if_splits)
next
  assume "str_ends_with (lower s) (lower p)"
  then have e: "lower (drop (length s - length p) s) = lower p" "length p \<le> length s"
    by (simp_all add: str_ends_with_def drop_map)
  have "is_char_boundary s (length s - length p)"
  proof (cases "p = []")
    case False
    then show ?thesis using head_boundary [OF assms False, of "length s - length p" s] e by simp
  qed (simp add: is_char_boundary_def)
  then show "length p \<le> length s \<and>
    (\<exists>slice. str_get s (length s - length p) (length s) = Some slice \<and> eq_ignore_ascii_case slice p)"
    using e by (simp add: str_get_def eq_ignore_ascii_case_def is_char_boundary_def)
qed

lemma insensitive_infix:
  assumes "utf8_chunks s" "utf8_chunks p" "p \<noteq> []"
  shows "(\<exists>i\<in>set (char_indices s). \<exists>slice. str_get s i (i + length p) = Some slice \<and> eq_ignore_ascii_case slice p) \<longleftrightarrow>
    str_find (lower p) (lower s) \<noteq> None"
proof
  assume "\<exists>i\<in>set (char_indices s). \<exists>slice. str_get s i (i + length p) = Some slice \<and> eq_ignore_ascii_case slice p"
  then obtain i where i: "i < length s" "lower (take (length p) (drop i s)) = lower p"
    by (auto simp: char_indices_def str_get_def eq_ignore_ascii_case_def split: if_splits)
  then have "starts_with (drop i (lower s)) (lower p)"
    by (simp add: starts_with_def drop_map take_map)
  then show "str_find (lower p) (lower s) \<noteq> None"
    using i(1) unfolding str_find_Some_iff by (auto intro: exI [of _ i])
next
  assume "str_find (lower p) (lower s) \<noteq> None"
  then obtain i where i: "starts_with (drop i (lower s)) (lower p)" unfolding str_find_Some_iff by auto
  then have eq: "lower (take (length p) (drop i s)) = lower p" by (simp add: starts_with_def drop_map take_map)
  have "length p \<le> length s - i" "0 < length p" using starts_with_length [OF i] assms(3) by simp_all
  then have len: "i + length p \<le> length s" by linarith
  have b: "is_char_boundary s i" by (rule head_boundary [OF assms(2,3) len eq])
  have "utf8_chunks (drop (length p) (drop i s))"
    using prefix_chunks [OF assms(2) boundary_chunks [OF assms(1) b]] len eq by simp
  then have "is_char_boundary s (i + length p)"
    using chunks_boundary [of "i + length p" s] len by (simp add: add.commute)
  then have "str_get s i (i + length p) = Some (take (length p) (drop i s))"
    using b by (simp add: str_get_def)
  moreover have "i \<in> set (char_indices s)" using b len assms(3) by (cases p) (auto simp: char_indices_def)
  ultimately show "\<exists>i\<in>set (char_indices s). \<exists>slice. str_get s i (i + length p) = Some slice \<and> eq_ignore_ascii_case slice p"
    using eq by (auto simp: eq_ignore_ascii_case_def)
qed

end
