(* ===== verification/Matchers.thy ===== *)
theory Matchers
  imports Strings
begin

text \<open>
  The string matchers (\<^verbatim>\<open>arion-configuration/src/config/core.rs\<close>), the header matchers
  (\<^verbatim>\<open>http_connection_manager/header_matcher.rs\<close>) and the query parameter matchers
  (\<^verbatim>\<open>http_connection_manager/route.rs\<close>). The engines of the crates \<^verbatim>\<open>regex\<close>,
  \<^verbatim>\<open>http\<close> and \<^verbatim>\<open>url\<close> are arguments: \<open>find_len r s\<close> is the length of the first match
  that \<^verbatim>\<open>Regex::find_at(s, 0)\<close> reports, \<open>to_str\<close> decodes a header value, \<open>parse_query\<close>
  splits a query into its pairs.
\<close>

section \<open>String matchers\<close>

datatype 'r StringMatcherPattern =
    Exact str
  | Prefix str
  | Suffix str
  | Contains str
  | Regex 'r
  | Present

record 'r StringMatcher =
  ignore_case :: bool
  pattern :: "'r StringMatcherPattern"

text \<open>\<^verbatim>\<open>CaseSensitive(case_sensitive, s)\<close>\<close>

definition CaseSensitive_equals :: "bool \<Rightarrow> str \<Rightarrow> str \<Rightarrow> bool" where
  "CaseSensitive_equals case_sensitive s b =
     (if case_sensitive then s = b else eq_ignore_ascii_case s b)"

definition CaseSensitive_starts_with :: "bool \<Rightarrow> str \<Rightarrow> str \<Rightarrow> bool" where
  "CaseSensitive_starts_with case_sensitive s prefix =
     (if case_sensitive then starts_with s prefix
      else (case str_get s 0 (length prefix) of
              Some sub \<Rightarrow> eq_ignore_ascii_case sub prefix | None \<Rightarrow> False))"

definition CaseSensitive_ends_with :: "bool \<Rightarrow> str \<Rightarrow> str \<Rightarrow> bool" where
  "CaseSensitive_ends_with case_sensitive s suffix =
     (if case_sensitive then str_ends_with s suffix
      else if length s < length suffix then False
      else (case str_get s (length s - length suffix) (length s) of
              Some sub \<Rightarrow> eq_ignore_ascii_case sub suffix | None \<Rightarrow> False))"

definition CaseSensitive_find :: "bool \<Rightarrow> str \<Rightarrow> str \<Rightarrow> nat option" where
  "CaseSensitive_find case_sensitive s needle =
     (if case_sensitive then str_find needle s
      else find_map (\<lambda>i. case str_get s i (i + length needle) of
               Some sub \<Rightarrow> if eq_ignore_ascii_case sub needle then Some i else None
             | None \<Rightarrow> None) (char_indices s))"

definition CaseSensitive_contains :: "bool \<Rightarrow> str \<Rightarrow> str \<Rightarrow> bool" where
  "CaseSensitive_contains case_sensitive s needle = (CaseSensitive_find case_sensitive s needle \<noteq> None)"

definition matches_full :: "('r \<Rightarrow> str \<Rightarrow> nat option) \<Rightarrow> 'r \<Rightarrow> str \<Rightarrow> bool" where
  "matches_full find_len r to_match = (Some (length to_match) = find_len r to_match)"

definition StringMatcher_matches :: "('r \<Rightarrow> str \<Rightarrow> nat option) \<Rightarrow> 'r StringMatcher \<Rightarrow> str \<Rightarrow> bool" where
  "StringMatcher_matches find_len m to_match =
     (let cs = (\<not> ignore_case m) in
      case pattern m of
        Exact s \<Rightarrow> CaseSensitive_equals cs to_match s
      | Prefix prefix \<Rightarrow> CaseSensitive_starts_with cs to_match prefix
      | Suffix suffix \<Rightarrow> CaseSensitive_ends_with cs to_match suffix
      | Contains needle \<Rightarrow> CaseSensitive_contains cs to_match needle
      | Regex r \<Rightarrow> matches_full find_len r to_match
      | Present \<Rightarrow> True)"

section \<open>Requests\<close>

text \<open>
  What the matchers see of a request. Header names are in the lower case in which the crate
  \<^verbatim>\<open>http\<close> keeps them; a value is a sequence of bytes.
\<close>

record PathAndQuery =
  pq_path :: str
  pq_query :: "str option"

record Request =
  req_method :: str
  uri_scheme :: "str option"
  uri_authority :: "str option"
  uri_path_and_query :: "PathAndQuery option"
  req_headers :: "(str \<times> str) list"

definition uri_path :: "Request \<Rightarrow> str" where
  "uri_path r = (case uri_path_and_query r of Some pq \<Rightarrow> pq_path pq | None \<Rightarrow> [])"

definition uri_query :: "Request \<Rightarrow> str option" where
  "uri_query r = (case uri_path_and_query r of Some pq \<Rightarrow> pq_query pq | None \<Rightarrow> None)"

definition get_all :: "str \<Rightarrow> (str \<times> str) list \<Rightarrow> str list" where
  "get_all name hs = map snd (filter (\<lambda>(k, _). k = name) hs)"

section \<open>Header and query matchers\<close>

datatype HeaderNames = Method | Path | Scheme | NormalHeader str

record 'r HeaderMatcher =
  header_name :: HeaderNames
  invert_match :: bool
  treat_missing_header_as_empty :: bool
  header_matcher :: "'r StringMatcher"

text \<open>
  \<^verbatim>\<open>is_match\<close>; \<open>uri\<close> is \<open>None\<close> for a response, and otherwise has a path and perhaps a
  scheme. The xor of the source is an inequality of truth values.
\<close>

definition pseudo_match :: "('r \<Rightarrow> str \<Rightarrow> nat option) \<Rightarrow> 'r HeaderMatcher \<Rightarrow> str option \<Rightarrow> bool" where
  "pseudo_match find_len h v =
     (case v of
        Some s \<Rightarrow> StringMatcher_matches find_len (header_matcher h) s \<noteq> invert_match h
      | None \<Rightarrow> treat_missing_header_as_empty h \<and>
                StringMatcher_matches find_len (header_matcher h) [] \<noteq> invert_match h)"

definition is_match ::
  "('r \<Rightarrow> str \<Rightarrow> nat option) \<Rightarrow> (str \<Rightarrow> str option) \<Rightarrow> 'r HeaderMatcher \<Rightarrow> str option \<Rightarrow> (str \<times> str option) option
     \<Rightarrow> (str \<times> str) list \<Rightarrow> bool" where
  "is_match find_len to_str h mth uri hs =
     (case header_name h of
        Method \<Rightarrow> pseudo_match find_len h mth
      | Path \<Rightarrow> pseudo_match find_len h (map_option fst uri)
      | Scheme \<Rightarrow> pseudo_match find_len h (case uri of None \<Rightarrow> None | Some (_, s) \<Rightarrow> s)
      | NormalHeader name \<Rightarrow>
          (let decoded = map to_str (get_all name hs);
               matched = (\<lambda>v. case v of Some s \<Rightarrow> StringMatcher_matches find_len (header_matcher h) s | None \<Rightarrow> False)
           in case decoded of
                [] \<Rightarrow> if treat_missing_header_as_empty h
                      then StringMatcher_matches find_len (header_matcher h) [] \<noteq> invert_match h
                      else if pattern (header_matcher h) = Present then invert_match h
                      else False
              | first # others \<Rightarrow> (matched first \<or> list_ex matched others) \<noteq> invert_match h))"

definition request_matches ::
  "('r \<Rightarrow> str \<Rightarrow> nat option) \<Rightarrow> (str \<Rightarrow> str option) \<Rightarrow> 'r HeaderMatcher \<Rightarrow> Request \<Rightarrow> bool" where
  "request_matches find_len to_str h r =
     is_match find_len to_str h (Some (req_method r)) (Some (uri_path r, uri_scheme r)) (req_headers r)"

definition response_matches ::
  "('r \<Rightarrow> str \<Rightarrow> nat option) \<Rightarrow> (str \<Rightarrow> str option) \<Rightarrow> 'r HeaderMatcher \<Rightarrow> (str \<times> str) list \<Rightarrow> bool" where
  "response_matches find_len to_str h hs = is_match find_len to_str h None None hs"

datatype 'r QueryParameterMatchSpecifier = PresentMatch bool | StringMatch "'r StringMatcher"

record 'r QueryParameterMatcher =
  param_name :: str
  match_specifier :: "'r QueryParameterMatchSpecifier"

definition QueryParameterMatcher_matches ::
  "('r \<Rightarrow> str \<Rightarrow> nat option) \<Rightarrow> (str \<Rightarrow> (str \<times> str) list) \<Rightarrow> 'r QueryParameterMatcher \<Rightarrow> str option \<Rightarrow> bool" where
  "QueryParameterMatcher_matches find_len parse_query m query =
     (let param_value = (case query of
            None \<Rightarrow> None
          | Some q \<Rightarrow> map_option snd (List.find (\<lambda>(key, _). key = param_name m) (parse_query q)))
      in case match_specifier m of
           PresentMatch should_be_present \<Rightarrow> (param_value \<noteq> None) = should_be_present
         | StringMatch string_matcher \<Rightarrow>
             (case param_value of Some value \<Rightarrow> StringMatcher_matches find_len string_matcher value | None \<Rightarrow> False))"

section \<open>Properties of the matchers\<close>

lemma insensitive_equals: "CaseSensitive_equals False s p \<longleftrightarrow> CaseSensitive_equals True (lower s) (lower p)"
  by (simp add: CaseSensitive_equals_def eq_ignore_ascii_case_def)

lemma insensitive_starts_with:
  "utf8_chunks s \<Longrightarrow> utf8_chunks p \<Longrightarrow>
     CaseSensitive_starts_with False s p \<longleftrightarrow> CaseSensitive_starts_with True (lower s) (lower p)"
  using insensitive_prefix [of s p] by (auto simp: CaseSensitive_starts_with_def split: option.splits)

lemma insensitive_ends_with:
  "utf8_chunks p \<Longrightarrow>
     CaseSensitive_ends_with False s p \<longleftrightarrow> CaseSensitive_ends_with True (lower s) (lower p)"
  using insensitive_suffix [of p s]
  by (auto simp: CaseSensitive_ends_with_def not_le [symmetric] split: option.splits)

lemma find_map_ex: "find_map f xs \<noteq> None \<longleftrightarrow> (\<exists>x\<in>set xs. f x \<noteq> None)"
  using find_map_None_iff [of f xs] by auto

lemma insensitive_contains:
  assumes "utf8_chunks s" "utf8_chunks p"
  shows "CaseSensitive_contains False s p \<longleftrightarrow>
    CaseSensitive_contains True (lower s) (lower p) \<and> \<not> (s = [] \<and> p = [])"
proof (cases "p = []")
  case True
  have "0 \<in> set (char_indices s)" if "s \<noteq> []" using that by (simp add: char_indices_def is_char_boundary_def)
  moreover have "str_find [] (lower s) \<noteq> None" unfolding str_find_Some_iff by (auto simp: starts_with_def)
  ultimately show ?thesis
    using True unfolding CaseSensitive_contains_def CaseSensitive_find_def if_True if_False find_map_ex
    by (auto simp: str_get_def is_char_boundary_def eq_ignore_ascii_case_def char_indices_def
        intro!: bexI [of _ 0])
next
  case False
  have "CaseSensitive_contains False s p \<longleftrightarrow>
      (\<exists>i\<in>set (char_indices s). \<exists>slice. str_get s i (i + length p) = Some slice \<and> eq_ignore_ascii_case slice p)"
    unfolding CaseSensitive_contains_def CaseSensitive_find_def if_False if_True find_map_ex
    by (intro bex_cong refl) (auto split: option.splits)
  then show ?thesis
    using insensitive_infix [OF assms False] False
    by (simp add: CaseSensitive_contains_def CaseSensitive_find_def)
qed

primrec lower_pattern :: "'r StringMatcherPattern \<Rightarrow> 'r StringMatcherPattern" where
  "lower_pattern (Exact s) = Exact (lower s)"
| "lower_pattern (Prefix s) = Prefix (lower s)"
| "lower_pattern (Suffix s) = Suffix (lower s)"
| "lower_pattern (Contains s) = Contains (lower s)"
| "lower_pattern (Regex r) = Regex r"
| "lower_pattern Present = Present"

primrec pattern_utf8 :: "'r StringMatcherPattern \<Rightarrow> bool" where
  "pattern_utf8 (Exact s) = utf8_chunks s"
| "pattern_utf8 (Prefix s) = utf8_chunks s"
| "pattern_utf8 (Suffix s) = utf8_chunks s"
| "pattern_utf8 (Contains s) = utf8_chunks s"
| "pattern_utf8 (Regex r) = False"
| "pattern_utf8 Present = True"

text \<open>C20: A matcher that ignores case accepts a string exactly if the case sensitive matcher with the
  lower case pattern accepts the lower case string: slicing at character boundaries never hides a
  match. The one exception is the empty needle in the empty string, which the search that ignores
  case does not find.\<close>

theorem ignore_case_equiv:
  assumes "ignore_case m" "utf8_chunks s" "pattern_utf8 (pattern m)"
  shows "StringMatcher_matches find_len m s \<longleftrightarrow>
    StringMatcher_matches find_len \<lparr>ignore_case = False, pattern = lower_pattern (pattern m)\<rparr> (lower s) \<and>
    \<not> (s = [] \<and> pattern m = Contains [])"
  using assms insensitive_equals [of s] insensitive_starts_with [of s] insensitive_ends_with [of _ s]
    insensitive_contains [of s]
  by (cases "pattern m") (auto simp: StringMatcher_matches_def)

theorem ignore_case_equiv_witness:
  "StringMatcher_matches (\<lambda>(r :: unit) s. None) \<lparr>ignore_case = True, pattern = Prefix ''/API''\<rparr> ''/api/x''"
proof -
  have "StringMatcher_matches (\<lambda>(r :: unit) s. None) \<lparr>ignore_case = False, pattern = Prefix ''/api''\<rparr> ''/api/x''"
    by (simp add: StringMatcher_matches_def CaseSensitive_starts_with_def starts_with_def)
  moreover have "lower ''/API'' = ''/api''" "lower ''/api/x'' = ''/api/x''" by code_simp+
  moreover have "utf8_chunks ''/api/x''" "utf8_chunks ''/API''" by code_simp+
  ultimately show ?thesis
    using ignore_case_equiv [of "\<lparr>ignore_case = True, pattern = Prefix ''/API''\<rparr>" "''/api/x''" "\<lambda>(r :: unit) s. None"]
    by simp
qed

end
