(* ===== verification/Route.thy ===== *)
theory Route
  imports Matchers
begin

text \<open>
  The match of a request against a route, the rewriting of its path
  (\<^verbatim>\<open>http_connection_manager/route.rs\<close> of the configuration) and the redirect response
  (\<^verbatim>\<open>listeners/http_connection_manager/redirect.rs\<close>). The parsers of the crate
  \<^verbatim>\<open>http\<close> are arguments: \<open>parse_pq\<close> is \<^verbatim>\<open>PathAndQuery::from_str\<close> and
  \<open>parse_authority\<close> is \<^verbatim>\<open>Authority::from_str\<close>; \<open>replace_all\<close> is the one of
  \<^verbatim>\<open>regex\<close>, with \<^const>\<open>None\<close> where it borrows its unchanged argument.
\<close>

section \<open>Path matchers\<close>

datatype 'r PathSpecifier = PathPrefix str | PathExact str | PathRegex 'r | PathSeparatedPrefix str

record 'r PathMatcher =
  specifier :: "'r PathSpecifier"
  path_ignore_case :: bool

text \<open>The result is the length of the matched part, or \<^const>\<open>None\<close>.\<close>

type_synonym PathMatcherResult = "nat option"

definition PathMatcher_matches ::
  "('r \<Rightarrow> str \<Rightarrow> nat option) \<Rightarrow> 'r PathMatcher \<Rightarrow> PathAndQuery \<Rightarrow> PathMatcherResult" where
  "PathMatcher_matches find_len m pq =
     (let path = pq_path pq; cs = (\<not> path_ignore_case m) in
      case specifier m of
        PathExact s \<Rightarrow> if CaseSensitive_equals cs path s then Some (length s) else None
      | PathPrefix p \<Rightarrow> if CaseSensitive_starts_with cs path p then Some (length p) else None
      | PathSeparatedPrefix psp \<Rightarrow>
          (case strip_suffix_char CHR ''/'' psp of
             Some without_slash \<Rightarrow>
               if CaseSensitive_equals cs path without_slash then Some (length without_slash)
               else if CaseSensitive_starts_with cs path psp then Some (length psp) else None
           | None \<Rightarrow> if CaseSensitive_starts_with cs path psp then Some (length psp) else None)
      | PathRegex r \<Rightarrow> if matches_full find_len r path then Some (length path) else None)"

section \<open>Route matches\<close>

record 'r RouteMatch =
  path_matcher :: "'r PathMatcher option"
  rm_headers :: "'r HeaderMatcher list"
  query_parameters :: "'r QueryParameterMatcher list"

record RouteMatchResult =
  path_match :: "PathMatcherResult option"
  headers_matched :: bool
  query_parameters_matched :: bool

definition RouteMatchResult_matched :: "RouteMatchResult \<Rightarrow> bool" where
  "RouteMatchResult_matched r \<longleftrightarrow> headers_matched r \<and> query_parameters_matched r \<and>
     (case path_match r of Some p \<Rightarrow> p \<noteq> None | None \<Rightarrow> True)"

text \<open>The end of the matched range, which starts at 0.\<close>

definition matched_range :: "RouteMatchResult \<Rightarrow> nat option" where
  "matched_range r =
     (if headers_matched r then (case path_match r of Some p \<Rightarrow> p | None \<Rightarrow> None) else None)"

text \<open>The third-party engines that a match needs.\<close>

record 'r engines =
  eng_find_len :: "'r \<Rightarrow> str \<Rightarrow> nat option"
  eng_to_str :: "str \<Rightarrow> str option"
  eng_parse_query :: "str \<Rightarrow> (str \<times> str) list"

definition match_request :: "'r engines \<Rightarrow> 'r RouteMatch \<Rightarrow> Request \<Rightarrow> RouteMatchResult" where
  "match_request e rm req =
     (let pq = (case uri_path_and_query req of Some pq \<Rightarrow> pq | None \<Rightarrow> \<lparr>pq_path = ''/'', pq_query = None\<rparr>);
          pm = map_option (\<lambda>m. PathMatcher_matches (eng_find_len e) m pq) (path_matcher rm);
          hm = (if (case pm of Some p \<Rightarrow> p \<noteq> None | None \<Rightarrow> True)
                then list_all (\<lambda>h. request_matches (eng_find_len e) (eng_to_str e) h req) (rm_headers rm)
                else False);
          qm = (if hm
                then query_parameters rm = [] \<or>
                  list_all (\<lambda>q. QueryParameterMatcher_matches (eng_find_len e) (eng_parse_query e) q (uri_query req))
                    (query_parameters rm)
                else False)
      in \<lparr>path_match = pm, headers_matched = hm, query_parameters_matched = qm\<rparr>)"

section \<open>Path rewriting\<close>

datatype 'x PathRewriteSpecifier = RewritePath PathAndQuery | RewritePrefix str | RewriteRegex 'x

text \<open>The new path; \<^const>\<open>None\<close> leaves the request as it is.\<close>

definition rewrite_prefix :: "str \<Rightarrow> str \<Rightarrow> nat \<Rightarrow> str" where
  "rewrite_prefix prefix old_path stop =
     (let boundary = (if stop > 0 \<and> slice_get old_path (stop - 1) = Some CHR ''/'' then stop - 1 else stop);
          remainder = (case str_get old_path boundary (length old_path) of Some r \<Rightarrow> r | None \<Rightarrow> []);
          replacement = (if starts_with remainder ''/''
                         then (case strip_suffix_char CHR ''/'' prefix of Some p \<Rightarrow> p | None \<Rightarrow> prefix)
                         else prefix)
      in if replacement @ remainder = [] then ''/'' else replacement @ remainder)"

definition PathRewriteSpecifier_apply ::
  "('x \<Rightarrow> str \<Rightarrow> str option) \<Rightarrow> (str \<Rightarrow> 'e + PathAndQuery) \<Rightarrow> 'x PathRewriteSpecifier
     \<Rightarrow> PathAndQuery option \<Rightarrow> RouteMatchResult \<Rightarrow> 'e + PathAndQuery option" where
  "PathRewriteSpecifier_apply replace_all parse_pq spec pq res =
     (let old_path = (case pq of Some q \<Rightarrow> pq_path q | None \<Rightarrow> []);
          old_query = (case pq of Some q \<Rightarrow> pq_query q | None \<Rightarrow> None);
          new_path = (case spec of
              RewritePath p \<Rightarrow> Some (pq_path p)
            | RewriteRegex x \<Rightarrow> replace_all x old_path
            | RewritePrefix prefix \<Rightarrow> map_option (rewrite_prefix prefix old_path) (matched_range res))
      in case new_path of
           None \<Rightarrow> Inr None
         | Some np \<Rightarrow>
             (let final_uri = (case old_query of
                  Some q \<Rightarrow> if CHR ''?'' \<in> set np then np else np @ ''?'' @ q
                | None \<Rightarrow> np)
              in case parse_pq final_uri of Inl er \<Rightarrow> Inl er | Inr r \<Rightarrow> Inr (Some r)))"

section \<open>Redirects\<close>

text \<open>What the code reads of an \<^verbatim>\<open>Authority\<close>: its text, host and port.\<close>

record Authority =
  auth_text :: str
  auth_host :: str
  auth_port :: "u16 option"

datatype AuthorityRedirect = PortRedirect u16 | HostRedirect Authority | WholeRedirect Authority

datatype RedirectResponseCode = Found | MovedPermanently | PermanentRedirect | SeeOther | TemporaryRedirect

primrec redirect_status :: "RedirectResponseCode \<Rightarrow> nat" where
  "redirect_status Found = 302"
| "redirect_status MovedPermanently = 301"
| "redirect_status PermanentRedirect = 308"
| "redirect_status SeeOther = 303"
| "redirect_status TemporaryRedirect = 307"

record 'x RedirectAction =
  response_code :: RedirectResponseCode
  strip_query :: bool
  authority_redirect :: "AuthorityRedirect option"
  scheme_rewrite_specifier :: "str option"
  path_rewrite_specifier :: "'x PathRewriteSpecifier option"

text \<open>Decimal digits, as \<^verbatim>\<open>Display\<close> prints an unsigned integer.\<close>

fun decimal :: "nat \<Rightarrow> str" where
  "decimal n = (if n < 10 then [char_of (48 + n)] else decimal (n div 10) @ [char_of (48 + n mod 10)])"

definition host_port :: "str \<Rightarrow> u16 \<Rightarrow> str" where
  "host_port h port = h @ '':'' @ decimal (unat port)"

definition strip_default_port :: "(str \<Rightarrow> 'e + Authority) \<Rightarrow> Authority \<Rightarrow> str \<Rightarrow> Authority" where
  "strip_default_port parse_authority a scheme =
     (if (auth_port a = Some 80 \<and> scheme = ''http'') \<or> (auth_port a = Some 443 \<and> scheme = ''https'')
      then (case parse_authority (auth_host a) of Inr b \<Rightarrow> b | Inl _ \<Rightarrow> a)
      else a)"

datatype 'e redirect_error = ParseError 'e | NoHostGiven

record redirect_parts =
  rp_scheme :: "str option"
  rp_authority :: "Authority option"
  rp_path_and_query :: "PathAndQuery option"

definition redirect_authority ::
  "(str \<Rightarrow> 'e + Authority) \<Rightarrow> AuthorityRedirect option \<Rightarrow> str option \<Rightarrow> Authority option
     \<Rightarrow> 'e redirect_error + Authority option" where
  "redirect_authority parse_authority redirect orig_scheme orig_authority =
     (let orig_host = map_option auth_host orig_authority;
          orig_port = (case orig_authority of Some a \<Rightarrow> auth_port a | None \<Rightarrow> None);
          parse = (\<lambda>s. case parse_authority s of Inl e \<Rightarrow> Inl (ParseError e) | Inr a \<Rightarrow> Inr (Some a))
      in case redirect of
           None \<Rightarrow> Inr orig_authority
         | Some (WholeRedirect a) \<Rightarrow> Inr (Some a)
         | Some (HostRedirect h) \<Rightarrow>
             (case orig_port of
                None \<Rightarrow> Inr (Some h)
              | Some port \<Rightarrow>
                  if (orig_scheme = Some ''http'' \<and> port = 80) \<or> (orig_scheme = Some ''https'' \<and> port = 443)
                  then Inr (Some h) else parse (host_port (auth_text h) port))
         | Some (PortRedirect port) \<Rightarrow>
             (case orig_host of Some h \<Rightarrow> parse (host_port h port) | None \<Rightarrow> Inl NoHostGiven))"

definition RedirectAction_to_parts ::
  "(str \<Rightarrow> str option) \<Rightarrow> (str \<Rightarrow> 'e + Authority) \<Rightarrow> ('x \<Rightarrow> str \<Rightarrow> str option) \<Rightarrow> (str \<Rightarrow> 'e + PathAndQuery)
     \<Rightarrow> 'x RedirectAction \<Rightarrow> Request \<Rightarrow> Authority option \<Rightarrow> RouteMatchResult \<Rightarrow> str
     \<Rightarrow> 'e redirect_error + nat \<times> redirect_parts" where
  "RedirectAction_to_parts to_str parse_authority replace_all parse_pq act req uri_auth res downstream_scheme =
     (let (orig_scheme, orig_auth) =
            (if authority_redirect act \<noteq> None \<or> scheme_rewrite_specifier act \<noteq> None then
               (opt_or (uri_scheme req) (Some downstream_scheme),
                opt_or uri_auth
                  (case get_all ''host'' (req_headers req) of
                     [] \<Rightarrow> None
                   | host # _ \<Rightarrow> (case to_str host of
                        None \<Rightarrow> None
                      | Some h \<Rightarrow> (case parse_authority h of Inl _ \<Rightarrow> None | Inr a \<Rightarrow> Some a))))
             else (uri_scheme req, uri_auth));
          orig_authority = (case (scheme_rewrite_specifier act, orig_auth) of
              (Some _, Some a) \<Rightarrow> if auth_port a \<noteq> None
                 then (case parse_authority (auth_host a) of Inl _ \<Rightarrow> None | Inr b \<Rightarrow> Some b) else Some a
            | (_, a) \<Rightarrow> a)
      in case redirect_authority parse_authority (authority_redirect act) orig_scheme orig_authority of
           Inl e \<Rightarrow> Inl e
         | Inr authority \<Rightarrow>
             (let stripped = (case uri_path_and_query req of
                    None \<Rightarrow> Inr None
                  | Some orig \<Rightarrow>
                      if pq_query orig \<noteq> None \<and> strip_query act
                      then (case parse_pq (pq_path orig) of Inl e \<Rightarrow> Inl (ParseError e) | Inr p \<Rightarrow> Inr (Some p))
                      else Inr (Some orig));
                  scheme = opt_or (scheme_rewrite_specifier act) orig_scheme;
                  authority' = (case (authority, scheme) of
                    (Some a, Some s) \<Rightarrow> Some (strip_default_port parse_authority a s) | (a, _) \<Rightarrow> a)
              in case stripped of
                   Inl e \<Rightarrow> Inl e
                 | Inr pq \<Rightarrow>
                     (case (case path_rewrite_specifier act of
                              None \<Rightarrow> Inr pq
                            | Some prs \<Rightarrow>
                                (case PathRewriteSpecifier_apply replace_all parse_pq prs pq res of
                                   Inl e \<Rightarrow> Inl (ParseError e)
                                 | Inr r \<Rightarrow> Inr (opt_or r pq))) of
                        Inl e \<Rightarrow> Inl e
                      | Inr pq' \<Rightarrow> Inr (redirect_status (response_code act),
                          \<lparr>rp_scheme = scheme, rp_authority = authority', rp_path_and_query = pq'\<rparr>))))"

section \<open>Properties\<close>

lemma strip_suffix_char_append [simp]: "strip_suffix_char c (s @ [c]) = Some s"
  by (simp add: strip_suffix_char_def)

text \<open>A path-separated prefix matches whole path segments only: the path is the prefix itself or
  continues it after a slash, up to the ASCII case of the letters if the matcher ignores case.\<close>

theorem path_separated_prefix_segments:
  fixes norm :: "str \<Rightarrow> str"
  assumes "norm = (if path_ignore_case m then map to_ascii_lowercase else id)"
    and "specifier m = PathSeparatedPrefix (q @ ''/'')" "utf8_chunks q" "utf8_chunks (pq_path pq)"
  shows "PathMatcher_matches find_len m pq \<noteq> None \<longleftrightarrow>
    norm (pq_path pq) = norm q \<or> (\<exists>rest. norm (pq_path pq) = norm q @ CHR ''/'' # rest)"
proof -
  have slash: "to_ascii_lowercase CHR ''/'' = CHR ''/''" by code_simp
  have "utf8_chunks (q @ ''/'')" using assms(3)
  proof (induction q rule: utf8_chunks.induct)
    case 1
    then show ?case by code_simp
  qed (auto simp: Let_def)
  then have "CaseSensitive_starts_with (\<not> path_ignore_case m) (pq_path pq) (q @ ''/'') \<longleftrightarrow>
      starts_with (norm (pq_path pq)) (norm q @ ''/'')"
    using insensitive_starts_with [OF assms(4), of "q @ ''/''"] assms(1) slash
    by (simp add: CaseSensitive_starts_with_def)
  moreover have "CaseSensitive_equals (\<not> path_ignore_case m) (pq_path pq) q \<longleftrightarrow> norm (pq_path pq) = norm q"
    using assms(1) by (simp add: CaseSensitive_equals_def eq_ignore_ascii_case_def)
  ultimately show ?thesis
    using assms(2) by (simp add: PathMatcher_matches_def starts_with_append Let_def del: not_None_eq)
qed

theorem path_separated_prefix_segments_witness:
  "PathMatcher_matches (\<lambda>(r :: unit) s. None) \<lparr>specifier = PathSeparatedPrefix ''/api/'', path_ignore_case = False\<rparr>
     \<lparr>pq_path = ''/apis'', pq_query = None\<rparr> = None"
proof -
  have "utf8_chunks ''/api''" "utf8_chunks ''/apis''" by code_simp+
  then show ?thesis
    using path_separated_prefix_segments [of id "\<lparr>specifier = PathSeparatedPrefix ''/api/'', path_ignore_case = False\<rparr>"
        "''/api''" "\<lparr>pq_path = ''/apis'', pq_query = None\<rparr>" "\<lambda>(r :: unit) s. None"] by simp
qed


definition show_pq :: "PathAndQuery \<Rightarrow> str" where
  "show_pq pq = pq_path pq @ (case pq_query pq of None \<Rightarrow> [] | Some q \<Rightarrow> CHR ''?'' # q)"

definition plain_prefix :: "str \<Rightarrow> bool" where
  "plain_prefix p \<longleftrightarrow> p \<noteq> [] \<and> last p \<noteq> CHR ''/'' \<and> utf8_chunks p"




text \<open>Concrete parsers: a path ends at the first question mark, an authority at its colon.\<close>

definition demo_parse_pq :: "str \<Rightarrow> unit + PathAndQuery" where
  "demo_parse_pq s = Inr \<lparr>pq_path = takeWhile (\<lambda>c. c \<noteq> CHR ''?'') s,
     pq_query = (case dropWhile (\<lambda>c. c \<noteq> CHR ''?'') s of [] \<Rightarrow> None | _ # q \<Rightarrow> Some q)\<rparr>"

definition demo_parse_authority :: "str \<Rightarrow> unit + Authority" where
  "demo_parse_authority s = Inr \<lparr>auth_text = s, auth_host = takeWhile (\<lambda>c. c \<noteq> CHR '':'') s,
     auth_port = (if CHR '':'' \<in> set s then Some 8080 else None)\<rparr>"

definition demo_request :: "str \<Rightarrow> Request" where
  "demo_request path = \<lparr>req_method = ''GET'', uri_scheme = None, uri_authority = None,
     uri_path_and_query = Some \<lparr>pq_path = path, pq_query = Some ''k=1''\<rparr>, req_headers = [(''host'', ''h:8080'')]\<rparr>"

definition demo_engines :: "unit engines" where
  "demo_engines = \<lparr>eng_find_len = \<lambda>_ _. None, eng_to_str = Some, eng_parse_query = \<lambda>_. []\<rparr>"

definition demo_route :: "str \<Rightarrow> unit RouteMatch" where
  "demo_route p = \<lparr>path_matcher = Some \<lparr>specifier = PathPrefix p, path_ignore_case = False\<rparr>,
     rm_headers = [], query_parameters = []\<rparr>"

lemmas route_eval = demo_parse_pq_def demo_parse_authority_def demo_request_def demo_engines_def demo_route_def
  RouteMatchResult_matched_def match_request_def PathMatcher_matches_def CaseSensitive_starts_with_def
  starts_with_def show_pq_def plain_prefix_def Let_def


text \<open>A redirect that only rewrites the scheme, for a request that names its host in the Host
  header, points to the same host without its port, and to the same path and query unless the query
  is to be stripped.\<close>

theorem scheme_redirect_location:
  assumes act: "scheme_rewrite_specifier act = Some s" "authority_redirect act = None"
      "path_rewrite_specifier act = None"
    and req: "uri_scheme req = None" "uri_path_and_query req = Some pq"
      "get_all ''host'' (req_headers req) = host # others" "to_str host = Some h" "parse_authority h = Inr a"
    and parse: "parse_authority (auth_host a) = Inr b" "auth_port b = None" "auth_host b = auth_host a"
      "parse_pq (pq_path pq) = Inr \<lparr>pq_path = pq_path pq, pq_query = None\<rparr>"
  shows "\<exists>c. RedirectAction_to_parts to_str parse_authority replace_all parse_pq act req None res downstream =
      Inr (redirect_status (response_code act),
        \<lparr>rp_scheme = Some s, rp_authority = Some c,
         rp_path_and_query = Some \<lparr>pq_path = pq_path pq, pq_query = (if strip_query act then None else pq_query pq)\<rparr>\<rparr>) \<and>
    auth_host c = auth_host a \<and> auth_port c = None"
proof -
  define c where "c = (if auth_port a = None then a else b)"
  have c: "auth_host c = auth_host a" "auth_port c = None" using parse by (simp_all add: c_def)
  then have keep: "strip_default_port parse_authority c s = c" by (simp add: strip_default_port_def)
  have pq: "\<lparr>pq_path = pq_path pq, pq_query = None\<rparr> = pq" if "pq_query pq = None"
    using that by (cases pq) simp
  have "RedirectAction_to_parts to_str parse_authority replace_all parse_pq act req None res downstream =
      Inr (redirect_status (response_code act),
        \<lparr>rp_scheme = Some s, rp_authority = Some c,
         rp_path_and_query = Some \<lparr>pq_path = pq_path pq, pq_query = (if strip_query act then None else pq_query pq)\<rparr>\<rparr>)"
    using act req parse keep pq
    by (cases "auth_port a"; cases "pq_query pq"; cases "strip_query act")
       (simp_all add: RedirectAction_to_parts_def redirect_authority_def c_def Let_def)
  then show ?thesis using c by blast
qed

theorem scheme_redirect_location_witness:
  "\<exists>c. RedirectAction_to_parts Some demo_parse_authority (\<lambda>(x :: unit) s. None) demo_parse_pq
      \<lparr>response_code = MovedPermanently, strip_query = True, authority_redirect = None,
       scheme_rewrite_specifier = Some ''https'', path_rewrite_specifier = None\<rparr>
      (demo_request ''/a'') None \<lparr>path_match = None, headers_matched = True, query_parameters_matched = True\<rparr> ''http'' =
      Inr (301, \<lparr>rp_scheme = Some ''https'', rp_authority = Some c,
        rp_path_and_query = Some \<lparr>pq_path = ''/a'', pq_query = None\<rparr>\<rparr>) \<and> auth_host c = ''h'' \<and> auth_port c = None"
  using scheme_redirect_location [of "\<lparr>response_code = MovedPermanently, strip_query = True, authority_redirect = None,
       scheme_rewrite_specifier = Some ''https'', path_rewrite_specifier = None\<rparr>" "''https''" "demo_request ''/a''"
       "\<lparr>pq_path = ''/a'', pq_query = Some ''k=1''\<rparr>" "''h:8080''" "[]" Some "''h:8080''" demo_parse_authority
       "\<lparr>auth_text = ''h:8080'', auth_host = ''h'', auth_port = Some 8080\<rparr>"
       "\<lparr>auth_text = ''h'', auth_host = ''h'', auth_port = None\<rparr>" demo_parse_pq "\<lambda>(x :: unit) s. None"
       "\<lparr>path_match = None, headers_matched = True, query_parameters_matched = True\<rparr>" "''http''"]
  by (simp add: route_eval get_all_def)

end
