(* ===== verification/Virtual_Host.thy ===== *)
theory Virtual_Host
  imports Route
begin

text \<open>
  The choice of a virtual host and of a route for a request. The first part models the domain rules
  with their scores (\<^verbatim>\<open>MatchHost\<close> of the configuration), the second the table that
  \<^verbatim>\<open>VirtualHostTable::compile\<close> builds from them
  (\<^verbatim>\<open>listeners/http_connection_manager.rs\<close>), the third the linear scan over all domains
  that the same file keeps as its reference. Table and scan agree but for one kind of tie.
\<close>

section \<open>Domain rules\<close>

datatype MatchHost = Wildcard | HostPrefix str | HostSuffix str | HostExact str

primrec MatchHost_to_string :: "MatchHost \<Rightarrow> str" where
  "MatchHost_to_string Wildcard = ''*''"
| "MatchHost_to_string (HostExact cs) = cs"
| "MatchHost_to_string (HostPrefix cs) = cs @ ''*''"
| "MatchHost_to_string (HostSuffix cs) = ''*'' @ cs"

datatype match_host_error = NotAHeaderValue | OnlyOneWildcard

text \<open>\<open>header_value_ok\<close> is the success of \<^verbatim>\<open>HeaderValue::from_str\<close>.\<close>

definition MatchHost_try_from :: "(str \<Rightarrow> bool) \<Rightarrow> str \<Rightarrow> match_host_error + MatchHost" where
  "MatchHost_try_from header_value_ok value =
     (if \<not> header_value_ok value then Inl NotAHeaderValue
      else if value = ''*'' then Inr Wildcard
      else if count_list value CHR ''*'' > 1 then Inl OnlyOneWildcard
      else (case strip_prefix_char CHR ''*'' value of
              Some host \<Rightarrow> Inr (HostSuffix host)
            | None \<Rightarrow>
                (case strip_suffix_char CHR ''*'' value of
                   Some host \<Rightarrow> Inr (HostPrefix host)
                 | None \<Rightarrow> if CHR ''*'' \<in> set value then Inl OnlyOneWildcard else Inr (HostExact value))))"

text \<open>The scores, in the order of their discriminants and then of their lengths.\<close>

datatype MatchHostScoreLPM = SWildcard | SPrefix nat | SSuffix nat | SExact nat

primrec score_rank :: "MatchHostScoreLPM \<Rightarrow> nat" where
  "score_rank SWildcard = 0"
| "score_rank (SPrefix n) = 1"
| "score_rank (SSuffix n) = 2"
| "score_rank (SExact n) = 3"

primrec score_length :: "MatchHostScoreLPM \<Rightarrow> nat" where
  "score_length SWildcard = 0"
| "score_length (SPrefix n) = n"
| "score_length (SSuffix n) = n"
| "score_length (SExact n) = n"

lemma score_eqI: "score_rank a = score_rank b \<Longrightarrow> score_length a = score_length b \<Longrightarrow> a = b"
  by (cases a; cases b) auto

instantiation MatchHostScoreLPM :: linorder
begin

definition less_eq_MatchHostScoreLPM :: "MatchHostScoreLPM \<Rightarrow> MatchHostScoreLPM \<Rightarrow> bool" where
  "a \<le> b \<longleftrightarrow> score_rank a < score_rank b \<or> (score_rank a = score_rank b \<and> score_length a \<le> score_length b)"

definition less_MatchHostScoreLPM :: "MatchHostScoreLPM \<Rightarrow> MatchHostScoreLPM \<Rightarrow> bool" where
  "a < b \<longleftrightarrow> a \<le> b \<and> \<not> b \<le> (a :: MatchHostScoreLPM)"

instance
  by standard (auto simp: less_eq_MatchHostScoreLPM_def less_MatchHostScoreLPM_def intro: score_eqI)

end

text \<open>The host of a request, with and without its port.\<close>

record RequestHost =
  full :: str
  without_port :: "str option"

definition is_ascii_digit :: "char \<Rightarrow> bool" where
  [rust_std]: "is_ascii_digit c \<longleftrightarrow> 48 \<le> (of_char c :: nat) \<and> (of_char c :: nat) \<le> 57"

definition strip_port :: "str \<Rightarrow> str option" where
  "strip_port host =
     (case rsplit_once CHR '':'' host of
        None \<Rightarrow> None
      | Some (name, port) \<Rightarrow>
          if port \<noteq> [] \<and> list_all is_ascii_digit port \<and> (str_ends_with name '']'' \<or> CHR '':'' \<notin> set name)
          then Some name else None)"


definition strip_dot :: "str \<Rightarrow> str" where
  "strip_dot host = (case strip_suffix_char CHR ''.'' host of Some h \<Rightarrow> h | None \<Rightarrow> host)"

primrec eval_lpm_host :: "MatchHost \<Rightarrow> str \<Rightarrow> MatchHostScoreLPM option" where
  "eval_lpm_host (HostExact h) host = (if h = strip_dot host then Some (SExact (length h)) else None)"
| "eval_lpm_host (HostSuffix suffix) host =
     (if length (strip_dot host) > length suffix \<and> str_ends_with (strip_dot host) suffix
      then Some (SSuffix (length suffix)) else None)"
| "eval_lpm_host (HostPrefix prefix) host =
     (if length host > length prefix \<and> starts_with host prefix then Some (SPrefix (length prefix)) else None)"
| "eval_lpm_host Wildcard host = Some SWildcard"

definition eval_lpm :: "MatchHost \<Rightarrow> RequestHost \<Rightarrow> MatchHostScoreLPM option" where
  "eval_lpm m host =
     opt_or (eval_lpm_host m (full host))
       (case without_port host of None \<Rightarrow> None | Some wp \<Rightarrow> eval_lpm_host m wp)"

section \<open>The table\<close>

text \<open>
  The filters of the connection manager and the overrides a route has for them. A filter is given by
  the configuration it is built from; \<open>OtherFilter\<close> stands for the kinds no override builds.
\<close>

datatype ('l, 'b, 'e, 'p, 'c) HttpFilterValue =
    RateLimit 'l
  | Rbac 'b
  | ExternalProcessor 'e "'p option"
  | Cors 'c
  | OtherFilter

datatype ('l, 'b, 'p, 'c) FilterConfigOverride =
    OverrideLocalRateLimit 'l
  | OverrideRbac "'b option"
  | OverrideExternalProcessor bool 'p
  | OverrideCorsPolicy 'c

record ('l, 'b, 'p, 'c) FilterOverride =
  override_disabled :: bool
  filter_settings :: "('l, 'b, 'p, 'c) FilterConfigOverride option"

record ('l, 'b, 'e, 'p, 'c) HttpFilter =
  filter_name :: str
  filter_disabled :: bool
  filter_value :: "('l, 'b, 'e, 'p, 'c) HttpFilterValue option"
  filter_config :: "'e option"

definition from_filter_override ::
  "('l, 'b, 'p, 'c) FilterOverride \<Rightarrow> 'e option \<Rightarrow> ('l, 'b, 'e, 'p, 'c) HttpFilterValue option" where
  "from_filter_override value config =
     (case filter_settings value of
        None \<Rightarrow> None
      | Some (OverrideLocalRateLimit rl) \<Rightarrow> Some (RateLimit rl)
      | Some (OverrideRbac (Some rbac)) \<Rightarrow> Some (Rbac rbac)
      | Some (OverrideRbac None) \<Rightarrow> None
      | Some (OverrideExternalProcessor disabled per_route) \<Rightarrow>
          if disabled then None
          else (case config of Some ep \<Rightarrow> Some (ExternalProcessor ep (Some per_route)) | None \<Rightarrow> None)
      | Some (OverrideCorsPolicy cors) \<Rightarrow> Some (Cors cors))"

record ('r, 'o, 'a) Route =
  route_match :: "'r RouteMatch"
  typed_per_filter_config :: "str \<rightharpoonup> 'o"
  route_action :: 'a

definition compile_route_http_filters ::
  "('r, ('l, 'b, 'p, 'c) FilterOverride, 'a) Route \<Rightarrow> ('l, 'b, 'e, 'p, 'c) HttpFilter list
     \<Rightarrow> ('l, 'b, 'e, 'p, 'c) HttpFilter list" where
  "compile_route_http_filters route hcm_filters =
     map (\<lambda>f. case typed_per_filter_config route (filter_name f) of
             Some ov \<Rightarrow> f\<lparr>filter_disabled := override_disabled ov,
                filter_value := from_filter_override ov (filter_config f)\<rparr>
           | None \<Rightarrow> f) hcm_filters"

text \<open>The rest \<open>'x\<close> of a virtual host are its header modifiers and its retry policy.\<close>

record ('r, 'o, 'a, 'x) VirtualHost =
  vh_name :: str
  domains :: "MatchHost list"
  vh_routes :: "('r, 'o, 'a) Route list"
  vh_rest :: 'x

record ('r, 'o, 'a, 'f, 'x) RuntimeVirtualHost =
  rvh_name :: str
  rvh_routes :: "(('r, 'o, 'a) Route \<times> 'f list) list"
  rvh_rest :: 'x

record 'v VirtualHostTable =
  exact :: "(str \<times> 'v) list"
  suffixes :: "(str \<times> 'v) list"
  prefixes :: "(str \<times> 'v) list"
  wildcard :: "'v option"

definition runtime_vh where
  "runtime_vh hcm_filters vh =
     \<lparr>rvh_name = vh_name vh,
      rvh_routes = map (\<lambda>route. (route, compile_route_http_filters route hcm_filters)) (vh_routes vh),
      rvh_rest = vh_rest vh\<rparr>"

primrec add_domain :: "MatchHost \<Rightarrow> 'v \<Rightarrow> 'v VirtualHostTable \<Rightarrow> 'v VirtualHostTable" where
  "add_domain (HostExact h) v t = t\<lparr>exact := entry_modify_or_insert id v h (exact t)\<rparr>"
| "add_domain (HostSuffix s) v t = t\<lparr>suffixes := suffixes t @ [(s, v)]\<rparr>"
| "add_domain (HostPrefix p) v t = t\<lparr>prefixes := prefixes t @ [(p, v)]\<rparr>"
| "add_domain Wildcard v t = (if wildcard t = None then t\<lparr>wildcard := Some v\<rparr> else t)"

definition sort_longest :: "(str \<times> 'v) list \<Rightarrow> (str \<times> 'v) list" where
  "sort_longest xs = sort_key (\<lambda>(a, _). - int (length a)) xs"

definition VirtualHostTable_compile where
  "VirtualHostTable_compile vhs hcm_filters =
     (let t = fold (\<lambda>vh t. fold (\<lambda>d t. add_domain d (runtime_vh hcm_filters vh) t) (domains vh) t) vhs
            \<lparr>exact = [], suffixes = [], prefixes = [], wildcard = None\<rparr>
      in t\<lparr>suffixes := sort_longest (suffixes t), prefixes := sort_longest (prefixes t)\<rparr>)"

definition match_single :: "'v VirtualHostTable \<Rightarrow> str \<Rightarrow> (MatchHostScoreLPM \<times> 'v) option" where
  "match_single t raw_host =
     (let stripped = strip_dot raw_host in
      case map_of (exact t) stripped of
        Some vh \<Rightarrow> Some (SExact (length stripped), vh)
      | None \<Rightarrow>
          (case List.find (\<lambda>(suffix, vh). length stripped > length suffix \<and> str_ends_with stripped suffix) (suffixes t) of
             Some (suffix, vh) \<Rightarrow> Some (SSuffix (length suffix), vh)
           | None \<Rightarrow>
               (case List.find (\<lambda>(prefix, vh). length raw_host > length prefix \<and> starts_with raw_host prefix) (prefixes t) of
                  Some (prefix, vh) \<Rightarrow> Some (SPrefix (length prefix), vh)
                | None \<Rightarrow> None)))"

definition VirtualHostTable_select :: "'v VirtualHostTable \<Rightarrow> RequestHost \<Rightarrow> 'v option" where
  "VirtualHostTable_select t host =
     (case match_single t (full host) of
        Some (SExact n, vh) \<Rightarrow> Some vh
      | full_match \<Rightarrow>
          (let wp_match = (case without_port host of None \<Rightarrow> None | Some wp \<Rightarrow> match_single t wp);
               matched = (case (full_match, wp_match) of
                   (Some (full_score, full_vh), Some (wp_score, wp_vh)) \<Rightarrow>
                     if wp_score > full_score then Some wp_vh else Some full_vh
                 | (Some (_, vh), None) \<Rightarrow> Some vh
                 | (None, Some (_, vh)) \<Rightarrow> Some vh
                 | (None, None) \<Rightarrow> None)
           in opt_or matched (wildcard t)))"



section \<open>The reference\<close>

text \<open>The scan of all virtual hosts for the best score, the first declaration winning ties.\<close>

definition reference_step where
  "reference_step hcm_filters host vh best =
     (case iter_max (List.map_filter (\<lambda>d. eval_lpm d host) (domains vh)) of
        None \<Rightarrow> best
      | Some vh_score \<Rightarrow>
          (case best of
             None \<Rightarrow> Some (vh_score, runtime_vh hcm_filters vh)
           | Some (best_score, _) \<Rightarrow>
               if vh_score > best_score then Some (vh_score, runtime_vh hcm_filters vh) else best))"

definition reference_select where
  "reference_select vhs hcm_filters host =
     map_option snd (fold (\<lambda>vh best. reference_step hcm_filters host vh best) vhs None)"

section \<open>Scanning rules\<close>

text \<open>The best rule of a list by a partial score, the first one on ties.\<close>

fun scan :: "('d \<Rightarrow> 's option) \<Rightarrow> ('d \<times> 'v) list \<Rightarrow> ('s::linorder \<times> 'v) option \<Rightarrow> ('s \<times> 'v) option" where
  "scan f [] best = best"
| "scan f ((d, v) # xs) best =
     scan f xs (case f d of
        None \<Rightarrow> best
      | Some s \<Rightarrow> (case best of None \<Rightarrow> Some (s, v) | Some (b, w) \<Rightarrow> if s > b then Some (s, v) else best))"

lemma scan_append: "scan f (xs @ ys) best = scan f ys (scan f xs best)"
  by (induction f xs best rule: scan.induct) auto

definition first_with :: "('d \<Rightarrow> 's option) \<Rightarrow> 's \<Rightarrow> ('d \<times> 'v) list \<Rightarrow> 'v option" where
  "first_with f s xs = find_map (\<lambda>(d, v). if f d = Some s then Some v else None) xs"

lemma scan_better:
  assumes "\<And>d v s'. (d, v) \<in> set xs \<Longrightarrow> f d = Some s' \<Longrightarrow> s' \<le> s"
  shows "scan f xs (Some (s, v)) = Some (s, v)"
  using assms
proof (induction xs)
  case (Cons x xs)
  obtain d w where x: "x = (d, w)" by (cases x)
  show ?case
  proof (cases "f d")
    case None
    then show ?thesis using Cons x by auto
  next
    case (Some s')
    then have "\<not> s' > s" using Cons.prems [of d w s'] x by auto
    then show ?thesis using Cons x Some by auto
  qed
qed simp

lemma scan_eqI:
  assumes "first_with f s xs = Some v" "\<And>d w s'. (d, w) \<in> set xs \<Longrightarrow> f d = Some s' \<Longrightarrow> s' \<le> s"
    and "\<And>b w. best = Some (b, w) \<Longrightarrow> b < s"
  shows "scan f xs best = Some (s, v)"
  using assms
proof (induction xs arbitrary: best)
  case (Cons x xs)
  obtain d w where x: "x = (d, w)" by (cases x)
  have bound: "\<And>d w s'. (d, w) \<in> set xs \<Longrightarrow> f d = Some s' \<Longrightarrow> s' \<le> s" using Cons.prems(2) by auto
  show ?case
  proof (cases "f d = Some s")
    case True
    then have "v = w" using Cons.prems(1) x by (simp add: first_with_def)
    then show ?thesis
      using True x Cons.prems(3) scan_better [of xs f s v] bound by (cases best) auto
  next
    case False
    then have first: "first_with f s xs = Some v" using Cons.prems(1) x by (simp add: first_with_def)
    define best' where "best' = (case f d of None \<Rightarrow> best
      | Some s' \<Rightarrow> (case best of None \<Rightarrow> Some (s', w) | Some (b, u) \<Rightarrow> if s' > b then Some (s', w) else best))"
    have low: "b < s" if b: "best' = Some (b, u)" for b u
    proof (cases "f d")
      case None
      then show ?thesis using b Cons.prems(3) by (simp add: best'_def)
    next
      case (Some s')
      then have "s' < s" using False Cons.prems(2) [of d w s'] x by auto
      then show ?thesis using b Some Cons.prems(3) by (auto simp: best'_def split: option.splits if_splits)
    qed
    have "scan f xs best' = Some (s, v)" by (rule Cons.IH [OF first]) (use bound low in auto)
    then show ?thesis by (simp add: x best'_def)
  qed
qed (simp add: first_with_def)

lemma scan_None: "\<forall>x\<in>set xs. f (fst x) = None \<Longrightarrow> scan f xs best = best"
  by (induction xs) (auto split: prod.splits)

lemma scan_cases:
  obtains (none) "\<And>d w. (d, w) \<in> set xs \<Longrightarrow> f d = None" "scan f xs None = None"
  | (some) s v where "scan f xs None = Some (s, v)" "first_with f s xs = Some v"
      "\<And>d w s'. (d, w) \<in> set xs \<Longrightarrow> f d = Some s' \<Longrightarrow> s' \<le> s"
proof (cases "\<exists>d w s. (d, w) \<in> set xs \<and> f d = Some s")
  case False
  then have "\<forall>x\<in>set xs. f (fst x) = None" by fastforce
  then show ?thesis using none scan_None [of xs f None] by fastforce
next
  case True
  let ?S = "{s. \<exists>d w. (d, w) \<in> set xs \<and> f d = Some s}"
  have "?S \<subseteq> (\<lambda>(d, w). the (f d)) ` set xs" by force
  then have fin: "finite ?S" by (rule finite_subset) simp
  have ne: "?S \<noteq> {}" using True by blast
  define s where "s = Max ?S"
  have le: "\<And>d w s'. (d, w) \<in> set xs \<Longrightarrow> f d = Some s' \<Longrightarrow> s' \<le> s"
    unfolding s_def using fin by (intro Max_ge) auto
  have "s \<in> ?S" unfolding s_def by (rule Max_in [OF fin ne])
  then obtain d w where "(d, w) \<in> set xs" "f d = Some s" by blast
  then have "first_with f s xs \<noteq> None"
    unfolding first_with_def find_map_None_iff by (auto intro!: bexI [of _ "(d, w)"])
  then obtain v where "first_with f s xs = Some v" by blast
  then show ?thesis using some le scan_eqI [of f s xs v None] by blast
qed

section \<open>What the table holds\<close>

lemma map_of_or_insert:
  "map_of (entry_modify_or_insert id v k m) h =
     (if h = k then Some (case map_of m k of Some w \<Rightarrow> w | None \<Rightarrow> v) else map_of m h)"
  by (induction m) auto

definition table_of :: "(MatchHost \<times> 'v) list \<Rightarrow> 'v VirtualHostTable" where
  "table_of D = fold (\<lambda>(d, v) t. add_domain d v t) D \<lparr>exact = [], suffixes = [], prefixes = [], wildcard = None\<rparr>"

definition rules_for :: "(MatchHost \<Rightarrow> str option) \<Rightarrow> (MatchHost \<times> 'v) list \<Rightarrow> (str \<times> 'v) list" where
  "rules_for sel D = List.map_filter (\<lambda>(d, v). map_option (\<lambda>s. (s, v)) (sel d)) D"

primrec suffix_of :: "MatchHost \<Rightarrow> str option" where
  "suffix_of Wildcard = None"
| "suffix_of (HostPrefix p) = None"
| "suffix_of (HostSuffix s) = Some s"
| "suffix_of (HostExact h) = None"

primrec prefix_of :: "MatchHost \<Rightarrow> str option" where
  "prefix_of Wildcard = None"
| "prefix_of (HostPrefix p) = Some p"
| "prefix_of (HostSuffix s) = None"
| "prefix_of (HostExact h) = None"

lemma map_filter_append: "List.map_filter f (xs @ ys) = List.map_filter f xs @ List.map_filter f ys"
  by (simp add: List.map_filter_def)

lemma table_of_snoc: "table_of (D @ [(d, v)]) = add_domain d v (table_of D)"
  by (simp add: table_of_def)

lemma first_with_cong:
  "(\<And>d. f d = Some s \<longleftrightarrow> g d = Some t) \<Longrightarrow> first_with f s D = first_with g t D"
  by (simp add: first_with_def)

lemma first_with_snoc:
  "first_with f s (D @ [(d, v)]) = opt_or (first_with f s D) (if f d = Some s then Some v else None)"
  by (simp add: first_with_def find_map_append)

lemma table_of_fields:
  "map_of (exact (table_of D)) h = first_with (\<lambda>d. if d = HostExact h then Some () else None) () D"
  "suffixes (table_of D) = rules_for suffix_of D"
  "prefixes (table_of D) = rules_for prefix_of D"
  "wildcard (table_of D) = first_with (\<lambda>d. if d = Wildcard then Some () else None) () D"
proof (induction D rule: rev_induct)
  case Nil
  {
    case 1 then show ?case by (simp add: table_of_def first_with_def)
  next
    case 2 then show ?case by (simp add: table_of_def rules_for_def)
  next
    case 3 then show ?case by (simp add: table_of_def rules_for_def)
  next
    case 4 then show ?case by (simp add: table_of_def first_with_def)
  }
next
  case (snoc x D)
  obtain d v where x: "x = (d, v)" by (cases x)
  {
    case 1
    show ?case
      using snoc.IH(1) by (cases d) (auto simp: x table_of_snoc first_with_snoc map_of_or_insert opt_or_def
          split: option.splits)
  next
    case 2
    show ?case using snoc.IH(2)
      by (cases d) (auto simp: x table_of_snoc rules_for_def map_filter_append)
  next
    case 3
    show ?case using snoc.IH(3)
      by (cases d) (auto simp: x table_of_snoc rules_for_def map_filter_append)
  next
    case 4
    show ?case
      using snoc.IH(4) by (cases d) (auto simp: x table_of_snoc first_with_snoc opt_or_def split: option.splits)
  }
qed

section \<open>The longest match of a sorted list\<close>

lemma find_filter: "List.find P xs = (case filter P xs of [] \<Rightarrow> None | x # _ \<Rightarrow> Some x)"
  by (induction xs) auto

lemma hd_sort_key:
  assumes "xs \<noteq> []"
  shows "hd (sort_key f xs) = hd (filter (\<lambda>x. f x = f (hd (sort_key f xs))) xs)"
    "\<forall>x\<in>set xs. f (hd (sort_key f xs)) \<le> f x"
proof -
  let ?ys = "sort_key f xs"
  obtain y ys where ys: "?ys = y # ys" using assms by (cases ?ys) (auto dest: arg_cong [of _ _ length])
  have "hd ?ys = hd (filter (\<lambda>x. f x = f (hd ?ys)) ?ys)" using ys by simp
  also have "\<dots> = hd (filter (\<lambda>x. f x = f (hd ?ys)) xs)" by (simp only: sort_key_stable)
  finally show "hd ?ys = hd (filter (\<lambda>x. f x = f (hd ?ys)) xs)" .
  have "sorted (map f ?ys)" by simp
  then have "\<forall>x\<in>set ?ys. f (hd ?ys) \<le> f x" using ys by auto
  then show "\<forall>x\<in>set xs. f (hd ?ys) \<le> f x" by simp
qed

lemma find_map_filter_hd:
  "find_map (\<lambda>x. if P x then Some (g x) else None) xs = (case filter P xs of [] \<Rightarrow> None | x # _ \<Rightarrow> Some (g x))"
  by (induction xs) auto

lemma find_sort_longest:
  assumes "List.find (\<lambda>(a, _). Q a) (sort_longest xs) = Some (a, v)"
  shows "Q a" "(a, v) \<in> set xs" "\<And>b w. (b, w) \<in> set xs \<Longrightarrow> Q b \<Longrightarrow> length b \<le> length a"
    "find_map (\<lambda>(b, w). if Q b \<and> length b = length a then Some w else None) xs = Some v"
proof -
  let ?P = "\<lambda>(a, _). Q a" and ?k = "\<lambda>(a :: str, _). - int (length a)"
  have fs: "filter ?P (sort_longest xs) = sort_key ?k (filter ?P xs)"
    unfolding sort_longest_def by (rule filter_sort)
  then have ne: "filter ?P xs \<noteq> []" and hd: "hd (sort_key ?k (filter ?P xs)) = (a, v)"
    using assms by (auto simp: find_filter split: list.splits)
  have "(a, v) \<in> set (filter ?P xs)"
    using hd ne by (metis list.set_sel(1) set_sort sort_key_simps(1) set_empty)
  then show "Q a" "(a, v) \<in> set xs" by auto
  have "\<forall>x\<in>set (filter ?P xs). ?k (a, v) \<le> ?k x"
    using hd_sort_key(2) [OF ne, of ?k] unfolding hd .
  then show "length b \<le> length a" if "(b, w) \<in> set xs" "Q b" for b w using that by force
  have "(a, v) = hd (filter (\<lambda>x. ?k x = ?k (a, v)) (filter ?P xs))"
    using hd_sort_key(1) [OF ne, of ?k] unfolding hd .
  also have "filter (\<lambda>x. ?k x = ?k (a, v)) (filter ?P xs) = filter (\<lambda>(b, w). Q b \<and> length b = length a) xs"
    by (auto simp: case_prod_beta intro: filter_cong)
  finally have eq: "(a, v) = hd (filter (\<lambda>(b, w). Q b \<and> length b = length a) xs)" .
  have "filter (\<lambda>(b, w). Q b \<and> length b = length a) xs \<noteq> []"
    using \<open>Q a\<close> \<open>(a, v) \<in> set xs\<close> by (auto simp: filter_empty_conv)
  then have "(case filter (\<lambda>(b, w). Q b \<and> length b = length a) xs of [] \<Rightarrow> None | x # _ \<Rightarrow> Some (snd x)) = Some v"
    using eq by (auto split: list.splits)
  then show "find_map (\<lambda>(b, w). if Q b \<and> length b = length a then Some w else None) xs = Some v"
    using find_map_filter_hd [of "\<lambda>(b, w). Q b \<and> length b = length a" snd xs] by (simp add: case_prod_unfold)
qed

text \<open>A rule found in a sorted list is the best rule of its kind, the first one on ties.\<close>

lemma rules_for_set: "(a, v) \<in> set (rules_for sel D) \<longleftrightarrow> (\<exists>d. (d, v) \<in> set D \<and> sel d = Some a)"
  by (force simp: rules_for_def List.map_filter_def)

lemma find_map_rules_for:
  "find_map (\<lambda>(b, w). if Q b then Some w else None) (rules_for sel D) =
     find_map (\<lambda>(d, w). if (\<exists>b. sel d = Some b \<and> Q b) then Some w else None) D"
  by (induction D) (auto simp: rules_for_def List.map_filter_def)

definition single_score :: "str \<Rightarrow> MatchHost \<Rightarrow> MatchHostScoreLPM option" where
  "single_score raw d = (if d = Wildcard then None else eval_lpm_host d raw)"

definition compiled :: "(MatchHost \<times> 'v) list \<Rightarrow> 'v VirtualHostTable" where
  "compiled D = (let t = table_of D in t\<lparr>suffixes := sort_longest (suffixes t), prefixes := sort_longest (prefixes t)\<rparr>)"

lemma compiled_fields [simp]:
  "exact (compiled D) = exact (table_of D)" "suffixes (compiled D) = sort_longest (rules_for suffix_of D)"
  "prefixes (compiled D) = sort_longest (rules_for prefix_of D)" "wildcard (compiled D) = wildcard (table_of D)"
  by (simp_all add: compiled_def Let_def table_of_fields)

abbreviation suffix_match :: "str \<Rightarrow> str \<Rightarrow> bool" where
  "suffix_match raw a \<equiv> length a < length (strip_dot raw) \<and> str_ends_with (strip_dot raw) a"

abbreviation prefix_match :: "str \<Rightarrow> str \<Rightarrow> bool" where
  "prefix_match raw a \<equiv> length a < length raw \<and> starts_with raw a"

lemma single_score_iff:
  "single_score raw d = Some (SExact n) \<longleftrightarrow> d = HostExact (strip_dot raw) \<and> n = length (strip_dot raw)"
  "single_score raw d = Some (SSuffix n) \<longleftrightarrow> (\<exists>a. suffix_of d = Some a \<and> suffix_match raw a \<and> length a = n)"
  "single_score raw d = Some (SPrefix n) \<longleftrightarrow> (\<exists>a. prefix_of d = Some a \<and> prefix_match raw a \<and> length a = n)"
  "single_score raw d \<noteq> Some SWildcard"
  by (cases d; auto simp: single_score_def)+

lemma find_None_rules:
  "List.find (\<lambda>(a, _). Q a) (sort_longest (rules_for sel D)) = None \<Longrightarrow> (d, v) \<in> set D \<Longrightarrow> sel d = Some a \<Longrightarrow> \<not> Q a"
  using rules_for_set [of a v sel D] by (force simp: find_None_iff sort_longest_def)

lemma score_le_iff:
  "(a :: MatchHostScoreLPM) \<le> b \<longleftrightarrow> score_rank a < score_rank b \<or> (score_rank a = score_rank b \<and> score_length a \<le> score_length b)"
  by (rule less_eq_MatchHostScoreLPM_def)

lemma match_single_scan: "match_single (compiled D) raw = scan (single_score raw) D None"
proof (cases "map_of (exact (table_of D)) (strip_dot raw)")
  case (Some v)
  have "first_with (single_score raw) (SExact (length (strip_dot raw))) D = Some v"
    using Some unfolding table_of_fields(1)
    by (subst first_with_cong [of _ _ "\<lambda>d. if d = HostExact (strip_dot raw) then Some () else None" "()"])
       (simp_all add: single_score_iff)
  moreover have "s \<le> SExact (length (strip_dot raw))" if "single_score raw d = Some s" for d s
    using that by (cases s) (auto simp: single_score_iff score_le_iff)
  ultimately have "scan (single_score raw) D None = Some (SExact (length (strip_dot raw)), v)"
    by (intro scan_eqI) auto
  then show ?thesis using Some by (simp add: match_single_def Let_def)
next
  case exact: None
  have no_exact: "single_score raw d \<noteq> Some (SExact n)" if "(d, v) \<in> set D" for d v n
    using exact that unfolding table_of_fields(1) first_with_def find_map_None_iff
    by (auto simp: single_score_iff)
  show ?thesis
  proof (cases "List.find (\<lambda>(a, _). suffix_match raw a) (sort_longest (rules_for suffix_of D))")
    case (Some p)
    then obtain a v where p: "List.find (\<lambda>(a, _). suffix_match raw a) (sort_longest (rules_for suffix_of D)) = Some (a, v)"
      by (cases p) auto
    note f = find_sort_longest [OF p]
    have "first_with (single_score raw) (SSuffix (length a)) D = Some v"
      using f(4) unfolding find_map_rules_for first_with_def by (simp add: single_score_iff conj_assoc)
    moreover have "s \<le> SSuffix (length a)" if dw: "(d, w) \<in> set D" and sc: "single_score raw d = Some s" for d w s
    proof (cases s)
      case (SSuffix n)
      then obtain b where "suffix_of d = Some b" "suffix_match raw b" "length b = n"
        using sc by (auto simp: single_score_iff)
      then have "n \<le> length a" using f(3) [of b w] dw rules_for_set [of b w suffix_of D] by blast
      then show ?thesis using SSuffix by (simp add: score_le_iff)
    qed (use dw sc no_exact in \<open>auto simp: score_le_iff\<close>)
    ultimately have "scan (single_score raw) D None = Some (SSuffix (length a), v)"
      by (intro scan_eqI) auto
    then show ?thesis using exact p by (simp add: match_single_def Let_def)
  next
    case suffix: None
    have no_suffix: "single_score raw d \<noteq> Some (SSuffix n)" if "(d, v) \<in> set D" for d v n
      using find_None_rules [OF suffix that] by (auto simp: single_score_iff)
    show ?thesis
    proof (cases "List.find (\<lambda>(a, _). prefix_match raw a) (sort_longest (rules_for prefix_of D))")
      case (Some p)
      then obtain a v where p: "List.find (\<lambda>(a, _). prefix_match raw a) (sort_longest (rules_for prefix_of D)) = Some (a, v)"
        by (cases p) auto
      note f = find_sort_longest [OF p]
      have "first_with (single_score raw) (SPrefix (length a)) D = Some v"
        using f(4) unfolding find_map_rules_for first_with_def by (simp add: single_score_iff conj_assoc)
      moreover have "s \<le> SPrefix (length a)" if dw: "(d, w) \<in> set D" and sc: "single_score raw d = Some s" for d w s
      proof (cases s)
        case (SPrefix n)
        then obtain b where "prefix_of d = Some b" "prefix_match raw b" "length b = n"
          using sc by (auto simp: single_score_iff)
        then have "n \<le> length a" using f(3) [of b w] dw rules_for_set [of b w prefix_of D] by blast
        then show ?thesis using SPrefix by (simp add: score_le_iff)
      qed (use dw sc no_exact no_suffix in \<open>auto simp: score_le_iff\<close>)
      ultimately have "scan (single_score raw) D None = Some (SPrefix (length a), v)"
        by (intro scan_eqI) auto
      then show ?thesis using exact suffix p by (simp add: match_single_def Let_def)
    next
      case prefix: None
      have "single_score raw d = None" if "(d, v) \<in> set D" for d v
      proof (cases "single_score raw d")
        case (Some s)
        then show ?thesis
          using no_exact [OF that] no_suffix [OF that] find_None_rules [OF prefix that] single_score_iff(3,4) [of raw d]
          by (cases s) auto
      qed
      then have "scan (single_score raw) D None = None" by (intro scan_None) auto
      then show ?thesis using exact suffix prefix by (simp add: match_single_def Let_def)
    qed
  qed
qed

section \<open>The reference as a scan\<close>

definition rules where
  "rules vhs hcm_filters = concat (map (\<lambda>vh. map (\<lambda>d. (d, runtime_vh hcm_filters vh)) (domains vh)) vhs)"

lemma fold_add_domains:
  "fold (\<lambda>vh t. fold (\<lambda>d t. add_domain d (runtime_vh hcm vh) t) (domains vh) t) vhs t =
     fold (\<lambda>(d, v) t. add_domain d v t) (rules vhs hcm) t"
  by (induction vhs arbitrary: t) (simp_all add: rules_def fold_map comp_def)

lemma compile_eq: "VirtualHostTable_compile vhs hcm_filters = compiled (rules vhs hcm_filters)"
  by (simp add: VirtualHostTable_compile_def compiled_def table_of_def fold_add_domains)

lemma iter_max_Cons: "iter_max (x # xs) = Some (case iter_max xs of None \<Rightarrow> x | Some t \<Rightarrow> max x t)"
  by (cases "xs = []") (simp_all add: iter_max_eq)

lemma scan_same:
  fixes f :: "'d \<Rightarrow> 's::linorder option"
  shows "scan f (map (\<lambda>d. (d, v)) ds) best =
    (case iter_max (List.map_filter f ds) of
       None \<Rightarrow> best
     | Some s \<Rightarrow> (case best of None \<Rightarrow> Some (s, v) | Some (b, w) \<Rightarrow> if s > b then Some (s, v) else best))"
proof (induction ds arbitrary: best)
  case Nil
  then show ?case by (simp add: List.map_filter_def iter_max_def)
next
  case (Cons d ds)
  show ?case
  proof (cases "f d")
    case None
    then show ?thesis using Cons by (simp add: List.map_filter_def)
  next
    case (Some s)
    let ?xs = "List.map_filter f ds"
    have mx: "iter_max (List.map_filter f (d # ds)) = Some (case iter_max ?xs of None \<Rightarrow> s | Some t \<Rightarrow> max s t)"
      using Some by (simp add: List.map_filter_def iter_max_Cons)
    show ?thesis
      unfolding mx using Some Cons
      by (auto simp: max_def split: option.splits prod.splits)
  qed
qed

lemma reference_scan:
  "reference_select vhs hcm_filters host = map_option snd (scan (\<lambda>d. eval_lpm d host) (rules vhs hcm_filters) None)"
proof -
  have "fold (\<lambda>vh best. reference_step hcm_filters host vh best) vhs best =
      scan (\<lambda>d. eval_lpm d host) (rules vhs hcm_filters) best" for best
  proof (induction vhs arbitrary: best)
    case (Cons vh vhs)
    have "reference_step hcm_filters host vh best =
        scan (\<lambda>d. eval_lpm d host) (map (\<lambda>d. (d, runtime_vh hcm_filters vh)) (domains vh)) best"
      unfolding scan_same reference_step_def by (auto split: option.splits)
    then show ?case using Cons by (simp add: rules_def scan_append)
  qed (simp add: rules_def)
  then show ?thesis by (simp add: reference_select_def)
qed

section \<open>Table and reference agree\<close>

lemma first_with_cong_set:
  "(\<And>d v. (d, v) \<in> set D \<Longrightarrow> f d = Some s \<longleftrightarrow> g d = Some t) \<Longrightarrow> first_with f s D = first_with g t D"
  unfolding first_with_def by (rule find_map_cong) auto

lemma first_with_Some_elem: "first_with f s D = Some v \<Longrightarrow> \<exists>d. (d, v) \<in> set D \<and> f d = Some s"
  by (induction D) (auto simp: first_with_def split: if_splits)

lemma scan_Some_elem:
  assumes "scan f D None = Some (s, v)"
  shows "\<exists>d. (d, v) \<in> set D \<and> f d = Some s"
proof (rule scan_cases [of D f])
  assume "scan f D None = None"
  then show ?thesis using assms by simp
next
  fix s' v' assume "scan f D None = Some (s', v')" "first_with f s' D = Some v'"
  then show ?thesis using assms first_with_Some_elem [of f s D v] by simp
qed

text \<open>
  The two suffix rules of a tie: of the same length, one matches the host with its port and the
  other the host without it.
\<close>

definition port_tie :: "(MatchHost \<times> 'v) list \<Rightarrow> RequestHost \<Rightarrow> bool" where
  "port_tie D host \<longleftrightarrow> (\<exists>wp a b v w. without_port host = Some wp \<and>
     (HostSuffix a, v) \<in> set D \<and> (HostSuffix b, w) \<in> set D \<and> a \<noteq> b \<and> length a = length b \<and>
     suffix_match (full host) a \<and> suffix_match wp b)"

lemma strip_port_Some:
  assumes "strip_port h = Some wp"
  shows "\<exists>port. h = wp @ '':'' @ port \<and> port \<noteq> []" "strip_dot h = h"
proof -
  obtain port where r: "rsplit_once CHR '':'' h = Some (wp, port)" "port \<noteq> []" "list_all is_ascii_digit port"
    using assms by (auto simp: strip_port_def split: option.splits prod.splits if_splits)
  then have h: "h = wp @ '':'' @ port" by (simp add: rsplit_once_Some)
  then show "\<exists>port. h = wp @ '':'' @ port \<and> port \<noteq> []" using r(2) by blast
  have "is_ascii_digit (last port)" using r(2,3) by (simp add: list_all_iff)
  moreover have "\<not> is_ascii_digit CHR ''.''" by (simp add: is_ascii_digit_def)
  ultimately have "last h \<noteq> CHR ''.''" using h r(2) by auto
  then show "strip_dot h = h" using h by (simp add: strip_dot_def strip_suffix_char_def)
qed

lemma length_strip_dot: "length (strip_dot s) \<le> length s"
  by (simp add: strip_dot_def strip_suffix_char_def)

lemma single_score_rule: "single_score a d = Some s \<Longrightarrow> single_score b d = Some t \<Longrightarrow> s = t"
  by (cases d) (auto simp: single_score_def split: if_splits)

lemma tie_full:
  assumes wp: "strip_port (full host) = Some wp" "without_port host = Some wp" and no: "\<not> port_tie D host"
    and d: "(d, v) \<in> set D" "single_score wp d = Some s" and e: "(e, w) \<in> set D" "single_score (full host) e = Some s"
  shows "single_score (full host) d = Some s"
proof (cases s)
  case SWildcard
  then show ?thesis using d(2) single_score_iff(4) by blast
next
  case (SExact n)
  then have "length (strip_dot wp) = length (strip_dot (full host))" using d(2) e(2) by (simp add: single_score_iff)
  then show ?thesis using strip_port_Some [OF wp(1)] length_strip_dot [of wp] by auto
next
  case (SPrefix n)
  then obtain a where a: "prefix_of d = Some a" "prefix_match wp a" "length a = n"
    using d(2) by (auto simp: single_score_iff)
  obtain port where "full host = wp @ '':'' @ port" using strip_port_Some(1) [OF wp(1)] by blast
  then have "prefix_match (full host) a" using a(2) by (auto simp: starts_with_append)
  then show ?thesis using SPrefix a by (auto simp: single_score_iff)
next
  case (SSuffix n)
  then obtain b where b: "suffix_of d = Some b" "suffix_match wp b" "length b = n"
    using d(2) by (auto simp: single_score_iff)
  obtain a where a: "suffix_of e = Some a" "suffix_match (full host) a" "length a = n"
    using e(2) SSuffix by (auto simp: single_score_iff)
  have rules: "d = HostSuffix b" "e = HostSuffix a" using a(1) b(1) by (cases d; cases e; simp)+
  then have "a = b" using no wp(2) d(1) e(1) a b unfolding port_tie_def by metis
  then show ?thesis using a b SSuffix by (auto simp: single_score_iff)
qed

definition wp_score :: "RequestHost \<Rightarrow> MatchHost \<Rightarrow> MatchHostScoreLPM option" where
  "wp_score host d = (case without_port host of None \<Rightarrow> None | Some wp \<Rightarrow> single_score wp d)"

definition joint :: "RequestHost \<Rightarrow> MatchHost \<Rightarrow> MatchHostScoreLPM option" where
  "joint host d = opt_or (single_score (full host) d) (wp_score host d)"

lemma eval_lpm_joint: "eval_lpm d host = (if d = Wildcard then Some SWildcard else joint host d)"
  by (cases d; cases "without_port host") (simp_all add: eval_lpm_def joint_def wp_score_def single_score_def)

lemma scan_cong_set: "\<forall>x\<in>set D. f (fst x) = g (fst x) \<Longrightarrow> scan f D best = scan g D best"
  by (induction D arbitrary: best) (auto split: prod.splits)

lemma scan_joint:
  assumes port: "without_port host = strip_port (full host)" and no: "\<not> port_tie D host"
  shows "scan (joint host) D None =
    (case (scan (single_score (full host)) D None, scan (wp_score host) D None) of
       (Some (s, v), Some (t, w)) \<Rightarrow> if t > s then Some (t, w) else Some (s, v)
     | (Some x, None) \<Rightarrow> Some x
     | (None, y) \<Rightarrow> y)"
proof (rule scan_cases [of D "single_score (full host)"])
  assume n: "\<And>d w. (d, w) \<in> set D \<Longrightarrow> single_score (full host) d = None"
    "scan (single_score (full host)) D None = None"
  then have "scan (joint host) D None = scan (wp_score host) D None"
    by (intro scan_cong_set) (auto simp: joint_def)
  then show ?thesis using n(2) by simp
next
  fix s v assume F: "scan (single_score (full host)) D None = Some (s, v)" "first_with (single_score (full host)) s D = Some v"
    and Fle: "\<And>d w s'. (d, w) \<in> set D \<Longrightarrow> single_score (full host) d = Some s' \<Longrightarrow> s' \<le> s"
  show ?thesis
  proof (rule scan_cases [of D "wp_score host"])
    assume n: "\<And>d w. (d, w) \<in> set D \<Longrightarrow> wp_score host d = None" "scan (wp_score host) D None = None"
    then have "scan (joint host) D None = scan (single_score (full host)) D None"
      by (intro scan_cong_set) (auto simp: joint_def)
    then show ?thesis using n(2) F by simp
  next
    fix t w assume W: "scan (wp_score host) D None = Some (t, w)" "first_with (wp_score host) t D = Some w"
      and Wle: "\<And>d v s'. (d, v) \<in> set D \<Longrightarrow> wp_score host d = Some s' \<Longrightarrow> s' \<le> t"
    have rule: "s1 = s2" if "single_score (full host) d = Some s1" "wp_score host d = Some s2" for d s1 s2
      using that single_score_rule by (auto simp: wp_score_def split: option.splits)
    have jle: "s' \<le> max s t" if d: "(d, u) \<in> set D" and j: "joint host d = Some s'" for d u s'
    proof (cases "single_score (full host) d")
      case None
      then have "s' \<le> t" using j by (intro Wle [OF d]) (simp add: joint_def)
      then show ?thesis by (simp add: le_max_iff_disj)
    next
      case (Some s1)
      then have "s' \<le> s" using j by (intro Fle [OF d]) (simp add: joint_def)
      then show ?thesis by (simp add: le_max_iff_disj)
    qed
    show ?thesis
    proof (cases "t > s")
      case True
      have "joint host d = Some t \<longleftrightarrow> wp_score host d = Some t" if "(d, u) \<in> set D" for d u
      proof (cases "single_score (full host) d")
        case None
        then show ?thesis by (simp add: joint_def)
      next
        case (Some s1)
        then have "s1 \<noteq> t" using Fle [OF that Some] True by auto
        then show ?thesis using Some rule [OF Some] by (auto simp: joint_def)
      qed
      then have "first_with (joint host) t D = Some w" using W(2) first_with_cong_set by metis
      moreover have "max s t = t" using True by (simp add: max_absorb2)
      ultimately have "scan (joint host) D None = Some (t, w)"
        using jle by (intro scan_eqI) auto
      then show ?thesis using F W True by simp
    next
      case False
      have "joint host d = Some s \<longleftrightarrow> single_score (full host) d = Some s" if d: "(d, u) \<in> set D" for d u
      proof (cases "single_score (full host) d")
        case None
        have "wp_score host d \<noteq> Some s"
        proof
          assume s: "wp_score host d = Some s"
          obtain wp where wp: "without_port host = Some wp" "single_score wp d = Some s"
            using s by (auto simp: wp_score_def split: option.splits)
          obtain e where "(e, v) \<in> set D" "single_score (full host) e = Some s"
            using first_with_Some_elem [OF F(2)] by blast
          then show False using tie_full [OF _ wp(1) no d wp(2)] wp(1) port None by simp
        qed
        then show ?thesis using None by (simp add: joint_def)
      qed (simp add: joint_def)
      then have "first_with (joint host) s D = Some v" using F(2) first_with_cong_set by metis
      moreover have "max s t = s" using False by (simp add: max_absorb1)
      ultimately have "scan (joint host) D None = Some (s, v)"
        using jle by (intro scan_eqI) auto
      then show ?thesis using F W False by simp
    qed
  qed
qed

lemma scan_eval:
  "map_option snd (scan (\<lambda>d. eval_lpm d host) D None) =
     opt_or (map_option snd (scan (joint host) D None)) (wildcard (table_of D))"
proof (rule scan_cases [of D "joint host"])
  fix s v assume J: "scan (joint host) D None = Some (s, v)" "first_with (joint host) s D = Some v"
    and le: "\<And>d w s'. (d, w) \<in> set D \<Longrightarrow> joint host d = Some s' \<Longrightarrow> s' \<le> s"
  have nw: "s \<noteq> SWildcard" "joint host Wildcard = None"
    using first_with_Some_elem [OF J(2)] single_score_iff(4)
    by (auto simp: joint_def wp_score_def single_score_def opt_or_def split: option.splits)
  then have "first_with (\<lambda>d. eval_lpm d host) s D = Some v"
    using J(2) by (subst first_with_cong [of _ _ "joint host" s]) (auto simp: eval_lpm_joint)
  moreover have "s' \<le> s" if "(d, w) \<in> set D" "eval_lpm d host = Some s'" for d w s'
    using that le [of d w s'] by (cases "d = Wildcard") (auto simp: eval_lpm_joint score_le_iff intro: order_trans)
  ultimately have "scan (\<lambda>d. eval_lpm d host) D None = Some (s, v)" by (intro scan_eqI) auto
  then show ?thesis using J(1) by simp
next
  assume n: "\<And>d w. (d, w) \<in> set D \<Longrightarrow> joint host d = None" "scan (joint host) D None = None"
  have "scan (\<lambda>d. eval_lpm d host) D None = scan (\<lambda>d. if d = Wildcard then Some SWildcard else None) D None"
    using n(1) by (intro scan_cong_set) (auto simp: eval_lpm_joint)
  moreover have "map_option snd (scan (\<lambda>d. if d = Wildcard then Some SWildcard else None) D None) = wildcard (table_of D)"
  proof (rule scan_cases [of D "\<lambda>d. if d = Wildcard then Some SWildcard else None"])
    fix s v assume S: "scan (\<lambda>d. if d = Wildcard then Some SWildcard else None) D None = Some (s, v)"
      "first_with (\<lambda>d. if d = Wildcard then Some SWildcard else None) s D = Some v"
    then have "s = SWildcard" using first_with_Some_elem [OF S(2)] by (auto split: if_splits)
    then have "wildcard (table_of D) = Some v"
      using S(2) unfolding table_of_fields(4)
      by (subst first_with_cong [of _ _ "\<lambda>d. if d = Wildcard then Some SWildcard else None" SWildcard]) auto
    then show ?thesis using S(1) by simp
  next
    assume W: "\<And>d w. (d, w) \<in> set D \<Longrightarrow> (if d = Wildcard then Some SWildcard else None) = None"
      "scan (\<lambda>d. if d = Wildcard then Some SWildcard else None) D None = None"
    have "d \<noteq> Wildcard" if "(d, w) \<in> set D" for d w using W(1) [OF that] by (auto split: if_splits)
    then have "wildcard (table_of D) = None"
      unfolding table_of_fields(4) first_with_def find_map_None_iff by auto
    then show ?thesis using W(2) by simp
  qed
  ultimately show ?thesis using n(2) by simp
qed

lemma select_joint:
  assumes "without_port host = strip_port (full host)" "\<not> port_tie D host"
  shows "VirtualHostTable_select (compiled D) host =
    opt_or (map_option snd (scan (joint host) D None)) (wildcard (table_of D))"
proof -
  have wp: "(case without_port host of None \<Rightarrow> None | Some wp \<Rightarrow> match_single (compiled D) wp) = scan (wp_score host) D None"
  proof (cases "without_port host")
    case None
    then have "scan (wp_score host) D None = None" by (intro scan_None) (simp add: wp_score_def)
    then show ?thesis using None by simp
  next
    case (Some w)
    then have "wp_score host = single_score w" by (simp add: wp_score_def fun_eq_iff)
    then show ?thesis using Some by (simp add: match_single_scan)
  qed
  have exact: "\<not> t > SExact n" if F: "match_single (compiled D) (full host) = Some (SExact n, v)"
      and W: "scan (wp_score host) D None = Some (t, w)" for n v t w
  proof
    assume t: "t > SExact n"
    obtain wph where w: "without_port host = Some wph" "scan (single_score wph) D None = Some (t, w)"
      using W wp by (cases "without_port host") (auto simp: match_single_scan)
    have n: "n = length (strip_dot (full host))" "\<exists>d. single_score wph d = Some t"
      using scan_Some_elem [OF F [unfolded match_single_scan]] scan_Some_elem [OF w(2)]
      by (auto simp: single_score_iff)
    have "\<exists>m. t = SExact m" using t by (cases t) (auto simp: less_MatchHostScoreLPM_def score_le_iff)
    then have "t = SExact (length (strip_dot wph))" using n(2) by (auto simp: single_score_iff)
    then show False
      using t n(1) strip_port_Some [of "full host" wph] assms(1) w(1) length_strip_dot [of wph]
      by (auto simp: less_MatchHostScoreLPM_def score_le_iff)
  qed
  show ?thesis
    unfolding VirtualHostTable_select_def wp Let_def scan_joint [OF assms] match_single_scan [symmetric]
    using exact by (auto split: option.splits prod.splits MatchHostScoreLPM.splits)
qed

section \<open>Properties\<close>

definition host_of :: "str \<Rightarrow> RequestHost" where
  "host_of h = \<lparr>full = h, without_port = strip_port h\<rparr>"

lemma select_reference:
  assumes "\<not> port_tie (rules vhs hcm_filters) (host_of h)"
  shows "VirtualHostTable_select (VirtualHostTable_compile vhs hcm_filters) (host_of h) =
    reference_select vhs hcm_filters (host_of h)"
  using select_joint [of "host_of h" "rules vhs hcm_filters"] assms
  by (simp add: compile_eq reference_scan scan_eval host_of_def)

text \<open>C2: The compiled table selects the virtual host that the scan over all domains selects: the one
  with the best score over all its domains, for the host with and without its port, and the one
  declared first among equals. The exception is a tie between two suffix rules of equal length of
  which one matches only with the port and the other only without.\<close>

theorem virtual_host_select_equiv:
  assumes "\<not> port_tie (rules vhs hcm_filters) (host_of h)"
  shows "VirtualHostTable_select (VirtualHostTable_compile vhs hcm_filters) (host_of h) =
    reference_select vhs hcm_filters (host_of h)"
  by (rule select_reference [OF assms])

definition demo_vh :: "str \<Rightarrow> MatchHost list \<Rightarrow> (unit, (unit, unit, unit, unit) FilterOverride, unit, unit) VirtualHost" where
  "demo_vh name ds = \<lparr>vh_name = name, domains = ds, vh_routes = [], vh_rest = ()\<rparr>"

definition demo_vhs :: "(unit, (unit, unit, unit, unit) FilterOverride, unit, unit) VirtualHost list" where
  "demo_vhs = [demo_vh ''any'' [Wildcard], demo_vh ''wild'' [HostSuffix ''.b''], demo_vh ''exact'' [HostExact ''a.b'']]"

lemmas vh_eval = demo_vhs_def demo_vh_def rules_def host_of_def strip_port_def is_ascii_digit_def reference_select_def
  reference_step_def iter_max_def List.map_filter_def eval_lpm_def strip_dot_def strip_suffix_char_def
  str_ends_with_def runtime_vh_def max_def score_le_iff less_MatchHostScoreLPM_def

theorem virtual_host_select_equiv_witness:
  "map_option rvh_name (VirtualHostTable_select (VirtualHostTable_compile demo_vhs
      ([] :: (unit, unit, unit, unit, unit) HttpFilter list)) (host_of ''a.b:80'')) = Some ''exact''"
proof -
  have "\<not> port_tie (rules demo_vhs ([] :: (unit, unit, unit, unit, unit) HttpFilter list)) (host_of ''a.b:80'')"
    by (auto simp: port_tie_def rules_def demo_vhs_def demo_vh_def)
  from virtual_host_select_equiv [OF this] show ?thesis by (simp add: vh_eval)
qed

text \<open>The tie: the rule for the port wins although the other virtual host is declared first.\<close>

lemma port_tie_prefers_port:
  "map_option rvh_name (VirtualHostTable_select (VirtualHostTable_compile
      [demo_vh ''first'' [HostSuffix ''.b''], demo_vh ''second'' [HostSuffix ''80'']]
      ([] :: (unit, unit, unit, unit, unit) HttpFilter list)) (host_of ''a.b:80'')) = Some ''second''"
  "map_option rvh_name (reference_select
      [demo_vh ''first'' [HostSuffix ''.b''], demo_vh ''second'' [HostSuffix ''80'']]
      ([] :: (unit, unit, unit, unit, unit) HttpFilter list) (host_of ''a.b:80'')) = Some ''first''"
  by (simp_all add: vh_eval VirtualHostTable_select_def VirtualHostTable_compile_def match_single_def sort_longest_def)





text \<open>The rules that configurations can express: without further wildcards.\<close>

primrec rule_wf :: "MatchHost \<Rightarrow> bool" where
  "rule_wf Wildcard = True"
| "rule_wf (HostExact h) = (CHR ''*'' \<notin> set h)"
| "rule_wf (HostPrefix p) = (p \<noteq> [] \<and> CHR ''*'' \<notin> set p)"
| "rule_wf (HostSuffix s) = (s \<noteq> [] \<and> CHR ''*'' \<notin> set s)"

lemma count_list_0: "count_list xs x = 0 \<longleftrightarrow> x \<notin> set xs"
  by (simp add: count_list_0_iff)

text \<open>C19: A text parses to a domain rule exactly if it is a header value and is what the rule prints as,
  for the rules without further wildcards; so parsing and printing are inverse to each other.\<close>

theorem match_host_roundtrip:
  "MatchHost_try_from header_value_ok s = Inr m \<longleftrightarrow> header_value_ok s \<and> rule_wf m \<and> MatchHost_to_string m = s"
proof (cases "header_value_ok s \<and> s \<noteq> ''*'' \<and> count_list s CHR ''*'' \<le> 1")
  case False
  have "count_list (MatchHost_to_string m) CHR ''*'' \<le> 1" if "rule_wf m"
    using that by (cases m) (simp_all add: count_list_0_iff count_list_append)
  then show ?thesis
    using False by (cases m) (auto simp: MatchHost_try_from_def)
next
  case True
  show ?thesis
  proof (cases s)
    case Nil
    then show ?thesis using True
      by (cases m) (auto simp: MatchHost_try_from_def strip_prefix_char_def strip_suffix_char_def)
  next
    case (Cons c cs)
    show ?thesis
    proof (cases "c = CHR ''*''")
      case star: True
      then have "CHR ''*'' \<notin> set cs" "cs \<noteq> []" using True Cons by (auto simp: count_list_0_iff [symmetric])
      then show ?thesis
        using True Cons star
        by (cases m) (auto simp: MatchHost_try_from_def strip_prefix_char_def append_eq_Cons_conv)
    next
      case no: False
      show ?thesis
      proof (cases "last s = CHR ''*''")
        case True2: True
        then obtain p where p: "s = p @ ''*''" using Cons by (metis append_butlast_last_id list.distinct(1))
        then have "CHR ''*'' \<notin> set p" "p \<noteq> []"
          using True by (auto simp: count_list_append count_list_0_iff [symmetric])
        then show ?thesis
          using True p no Cons
          by (cases m) (auto simp: MatchHost_try_from_def strip_prefix_char_def strip_suffix_char_def
              append_eq_Cons_conv split: list.splits)
      next
        case nl: False
        then have "p @ ''*'' \<noteq> s" for p by auto
        then show ?thesis
          using True no Cons nl
          by (cases m) (auto simp: MatchHost_try_from_def strip_prefix_char_def strip_suffix_char_def)
      qed
    qed
  qed
qed

end
