(* ===== verification/Weighted_Items.thy ===== *)
theory Weighted_Items
  imports Balancer Float64
begin

text \<open>
  The weighted items of \<^verbatim>\<open>clusters/balancers/default_balancer.rs\<close> and the function
  \<^verbatim>\<open>collect_checked\<close>, which the random, the ring hash and the Maglev balancer each
  have a copy of: it keeps the endpoints whose total weight fits 32 bits.
\<close>

record 'e LbItem =
  item :: 'e
  weight :: u32

definition LbItem_new :: "u32 \<Rightarrow> 'e \<Rightarrow> 'e LbItem" where
  "LbItem_new w e = \<lparr>item = e, weight = w\<rparr>"

definition collect_checked :: "'e LbItem list \<Rightarrow> 'e LbItem list \<times> u32" where
  "collect_checked xs = take_while_state (fits_u32 weight) 0 xs"

text \<open>\<^verbatim>\<open>Iterator::reduce\<close>\<close>

definition iter_reduce :: "('a \<Rightarrow> 'a \<Rightarrow> 'a) \<Rightarrow> 'a list \<Rightarrow> 'a option" where
  "iter_reduce f xs = (case xs of [] \<Rightarrow> None | y # ys \<Rightarrow> Some (foldl f y ys))"

lemma LbItem_new_simps [simp]: "item (LbItem_new w e) = e" "weight (LbItem_new w e) = w"
  by (simp_all add: LbItem_new_def)

lemma collect_checked_prefix:
  assumes "collect_checked xs = (ys, t)"
  shows "ys = take (length ys) xs" "unat t = total_weight_of weight ys" "xs \<noteq> [] \<Longrightarrow> ys \<noteq> []"
proof -
  note fits = take_while_fits [OF assms [unfolded collect_checked_def]]
  show "ys = take (length ys) xs" "unat t = total_weight_of weight ys" using fits(1,2) by simp_all
  assume "xs \<noteq> []"
  then obtain x xs' where xs: "xs = x # xs'" by (cases xs) auto
  show "ys \<noteq> []"
  proof
    assume "ys = []"
    then have "2 ^ 32 \<le> unat (weight x)" using fits(3) xs by simp
    then show False using unat_u32_less [of "weight x"] by simp
  qed
qed

lemma collect_checked_set: "collect_checked xs = (ys, t) \<Longrightarrow> set ys \<subseteq> set xs"
  using collect_checked_prefix(1) by (metis set_take_subset)

lemma collect_checked_all:
  assumes "total_weight_of weight xs < 2 ^ 32"
  shows "\<exists>t. collect_checked xs = (xs, t) \<and> unat t = total_weight_of weight xs"
  using take_while_fits_all [of 0 weight xs] assms by (simp add: collect_checked_def)

text \<open>The items that every \<^verbatim>\<open>FromIterator\<close> implementation makes of its endpoints.\<close>

abbreviation items_of :: "('e \<Rightarrow> u32) \<Rightarrow> 'e list \<Rightarrow> 'e LbItem list" where
  "items_of weight_of es \<equiv> map (\<lambda>e. LbItem_new (weight_of e) e) es"

lemma collect_checked_items:
  assumes "collect_checked (items_of weight_of es) = (ys, t)"
  shows "item ` set ys \<subseteq> set es" "es \<noteq> [] \<Longrightarrow> ys \<noteq> []" "\<forall>y\<in>set ys. weight y = weight_of (item y)"
  using collect_checked_set [OF assms] collect_checked_prefix(3) [OF assms] by auto

text \<open>The normalized weights of the hash balancers.\<close>

abbreviation normalized :: "u32 \<Rightarrow> 'e LbItem \<Rightarrow> f64" where
  "normalized t x \<equiv> f64_div (f64_from_u32 (weight x)) (f64_from_u32 t)"

lemma normalized_mono:
  assumes "normalized t x = Fin a" "normalized t y = Fin b" "weight x \<le> weight y" "t \<noteq> 0"
  shows "a \<le> b"
proof -
  note t = uint_pos [OF assms(4)]
  have "of_int a / (of_int c :: rat) \<le> of_int b / of_int c" if "a \<le> b" "0 < c" for a b c :: int
    using that by (simp add: divide_right_mono)
  then have "(of_int (uint (weight x)) / of_int (uint t) :: rat) \<le> of_int (uint (weight y)) / of_int (uint t)"
    using assms(3) t by (simp only: word_le_def)
  then show ?thesis using f64_round_mono assms(1,2) f64_div_u32 [OF assms(4)] by metis
qed

lemma total_bounds_weight:
  assumes "unat t = total_weight_of weight xs" "x \<in> set xs" "t \<noteq> 0"
  shows "\<exists>y. normalized t x = Fin y \<and> 0 \<le> y \<and> y \<le> 1 \<and> f64_representable y"
proof -
  have "unat (weight x) \<le> unat t" using assms(1,2) by (simp add: member_le_sum_list)
  then show ?thesis using normalized_weight [OF _ assms(3)] by (simp add: word_le_nat_alt flip: word_le_def)
qed

end
