(* ===== verification/Maglev.thy ===== *)
theory Maglev
  imports Weighted_Items Strings "HOL-Library.List_Lexorder" "HOL-Library.Multiset"
begin

text \<open>
  The consistent balancer of \<^verbatim>\<open>clusters/balancers/maglev.rs\<close>: the compile-time primality
  test of the table size, the permutations of the table that the endpoints walk, the loop that
  fills the table, and the selection. The hash function (\<^verbatim>\<open>XxHash64\<close>, seeded) and the
  accessor of an endpoint's authority are parameters. A \<^verbatim>\<open>usize\<close> is a natural number; the one
  computation on it that could wrap is reduced modulo \<open>2\<^sup>6\<^sup>4\<close>.
\<close>

section \<open>The table\<close>

record TableBuilder =
  tb_table :: "nat option list"
  tb_size :: nat

definition TableBuilder_new :: "nat \<Rightarrow> TableBuilder" where
  "TableBuilder_new TABLE_SIZE = \<lparr>tb_table = replicate TABLE_SIZE None, tb_size = 0\<rparr>"

definition try_update :: "nat \<Rightarrow> nat \<Rightarrow> TableBuilder \<Rightarrow> (unit + unit) \<times> TableBuilder" where
  "try_update index value tb =
     (case slice_get (tb_table tb) index of
        Some entry \<Rightarrow>
          (if entry = None
           then (Inr (), tb\<lparr>tb_table := (tb_table tb)[index := Some value], tb_size := tb_size tb + 1\<rparr>)
           else (Inl (), tb))
      | None \<Rightarrow> (Inl (), tb))"

definition is_full :: "nat \<Rightarrow> TableBuilder \<Rightarrow> bool" where
  "is_full TABLE_SIZE tb \<longleftrightarrow> TABLE_SIZE \<le> tb_size tb"

definition TableBuilder_build :: "TableBuilder \<Rightarrow> nat list" where
  "TableBuilder_build tb = map (\<lambda>entry. case entry of Some v \<Rightarrow> v | None \<Rightarrow> 0) (tb_table tb)"

section \<open>The permutations\<close>

record Permutation =
  p_offset :: nat
  p_skip :: nat
  p_weight :: f64
  p_current_weight :: f64
  p_target_weight :: f64
  p_next :: nat

definition Permutation_new :: "(u64 \<Rightarrow> str \<Rightarrow> u64) \<Rightarrow> nat \<Rightarrow> str \<Rightarrow> f64 \<Rightarrow> f64 \<Rightarrow> Permutation" where
  "Permutation_new hash_one TABLE_SIZE auth w target_weight =
     (let offset = unat (hash_one 0 auth) mod TABLE_SIZE;
          skip = unat (hash_one 1 auth) mod (TABLE_SIZE - 1) + 1
      in \<lparr>p_offset = offset, p_skip = skip, p_weight = w, p_current_weight = target_weight,
          p_target_weight = target_weight, p_next = 0\<rparr>)"

definition has_enough_weight_after_iterating :: "Permutation \<Rightarrow> bool \<times> Permutation" where
  "has_enough_weight_after_iterating q =
     (let current = f64_add (p_current_weight q) (p_weight q);
          has_reached_target = fp_less_eq (p_target_weight q) current
      in (has_reached_target,
          q\<lparr>p_current_weight :=
              (if has_reached_target then f64_sub current (p_target_weight q) else current)\<rparr>))"

definition Permutation_next :: "nat \<Rightarrow> Permutation \<Rightarrow> nat \<times> Permutation" where
  "Permutation_next TABLE_SIZE q =
     ((p_offset q + p_skip q * p_next q) mod 2 ^ 64 mod TABLE_SIZE, q\<lparr>p_next := p_next q + 1\<rparr>)"

section \<open>Filling the table\<close>

text \<open>The innermost loop: walk the permutation until a free entry is found, \<open>n\<close> steps at most.\<close>

fun place_entry :: "nat \<Rightarrow> nat \<Rightarrow> nat \<Rightarrow> Permutation \<Rightarrow> TableBuilder \<Rightarrow> Permutation \<times> TableBuilder" where
  "place_entry TABLE_SIZE 0 item_index q tb = (q, tb)"
| "place_entry TABLE_SIZE (Suc n) item_index q tb =
     (let (index, q') = Permutation_next TABLE_SIZE q
      in case try_update index item_index tb of
           (Inr _, tb') \<Rightarrow> (q', tb')
         | (Inl _, tb') \<Rightarrow> place_entry TABLE_SIZE n item_index q' tb')"

text \<open>The loop over the items; the flag says that the loops are left because the table is full.\<close>

fun item_loop ::
  "nat \<Rightarrow> nat \<Rightarrow> Permutation list \<Rightarrow> TableBuilder \<Rightarrow> bool \<times> Permutation list \<times> TableBuilder" where
  "item_loop TABLE_SIZE item_index [] tb = (False, [], tb)"
| "item_loop TABLE_SIZE item_index (q # qs) tb =
     (if is_full TABLE_SIZE tb then (True, q # qs, tb)
      else
        let (enough, q') = has_enough_weight_after_iterating q;
            (q'', tb') = (if enough then place_entry TABLE_SIZE TABLE_SIZE item_index q' tb else (q', tb));
            (stop, qs', tb'') = item_loop TABLE_SIZE (Suc item_index) qs tb'
        in (stop, q'' # qs', tb''))"

fun table_loop :: "nat \<Rightarrow> nat \<Rightarrow> Permutation list \<Rightarrow> TableBuilder \<Rightarrow> TableBuilder" where
  "table_loop TABLE_SIZE 0 qs tb = tb"
| "table_loop TABLE_SIZE (Suc n) qs tb =
     (let (stop, qs', tb') = item_loop TABLE_SIZE 0 qs tb
      in if stop then tb' else table_loop TABLE_SIZE n qs' tb')"

section \<open>The balancer\<close>

record 'e MaglevBalancer =
  mg_items :: "'e LbItem list"
  mg_table :: "nat list"

definition authority_sorting_key :: "str \<Rightarrow> nat list" where
  "authority_sorting_key s = map (\<lambda>c. of_char (to_ascii_lowercase c)) s"

text \<open>The table of two or more items; the first argument of the pair of loops is their bound.\<close>

definition maglev_fill ::
  "nat \<Rightarrow> ('e \<Rightarrow> str) \<Rightarrow> (u64 \<Rightarrow> str \<Rightarrow> u64) \<Rightarrow> 'e LbItem list \<Rightarrow> f64 \<Rightarrow> f64 \<Rightarrow> TableBuilder" where
  "maglev_fill TABLE_SIZE authority hash_one xs tot max_normalized_weight =
     (let permutations = map (\<lambda>x. Permutation_new hash_one TABLE_SIZE (authority (item x))
                (f64_div (f64_from_u32 (weight x)) tot) max_normalized_weight) xs
      in table_loop TABLE_SIZE TABLE_SIZE permutations (TableBuilder_new TABLE_SIZE))"

definition with_size ::
  "nat \<Rightarrow> ('e \<Rightarrow> str) \<Rightarrow> (u64 \<Rightarrow> str \<Rightarrow> u64) \<Rightarrow> 'e LbItem list \<Rightarrow> 'e MaglevBalancer" where
  "with_size TABLE_SIZE authority hash_one xs =
     (let (ys, total_weight) = collect_checked xs;
          ys = sort_key (\<lambda>y. authority_sorting_key (authority (item y))) ys;
          tot = f64_from_u32 total_weight;
          max_normalized_weight =
            iter_reduce fp_max (map (\<lambda>y. f64_div (f64_from_u32 (weight y)) tot) ys);
          table = (case max_normalized_weight of
              None \<Rightarrow> []
            | Some m \<Rightarrow>
                if length ys = 1 then [0]
                else TableBuilder_build (maglev_fill TABLE_SIZE authority hash_one ys tot m))
      in \<lparr>mg_items = ys, mg_table = table\<rparr>)"

definition DEFAULT_TABLE_SIZE :: nat where
  "DEFAULT_TABLE_SIZE = 65537"

definition MaglevBalancer_new ::
  "('e \<Rightarrow> str) \<Rightarrow> (u64 \<Rightarrow> str \<Rightarrow> u64) \<Rightarrow> 'e LbItem list \<Rightarrow> 'e MaglevBalancer" where
  "MaglevBalancer_new = with_size DEFAULT_TABLE_SIZE"

definition maglev_from_iter ::
  "('e \<Rightarrow> u32) \<Rightarrow> ('e \<Rightarrow> str) \<Rightarrow> (u64 \<Rightarrow> str \<Rightarrow> u64) \<Rightarrow> 'e list \<Rightarrow> 'e MaglevBalancer" where
  "maglev_from_iter weight_of authority hash_one es =
     MaglevBalancer_new authority hash_one (items_of weight_of es)"

text \<open>
  The selection. \<open>random\<close> is the number that the generator of the thread produces, used if the
  request has no hash. A division by zero, which panics, would need an empty table with two
  items or more.
\<close>

definition maglev_next_item ::
  "u64 \<Rightarrow> u64 option \<Rightarrow> 'e MaglevBalancer \<Rightarrow> 'e option \<times> 'e MaglevBalancer" where
  "maglev_next_item random hash b =
     (if length (mg_items b) \<le> 1 then (map_option item (slice_get (mg_items b) 0), b)
      else
        let h = (case hash of Some h \<Rightarrow> h | None \<Rightarrow> random);
            table_index = unat h mod length (mg_table b);
            index = slice_get (mg_table b) table_index
        in (map_option item (Option.bind index (slice_get (mg_items b))), b))"

section \<open>The primality test\<close>

definition next_power_of_two :: "nat \<Rightarrow> nat" where
  "next_power_of_two n = (if n \<le> 1 then 1 else 2 ^ Suc (log2_nat (n - 1)))"

function trailing_zeros :: "nat \<Rightarrow> nat" where
  "trailing_zeros n = (if n = 0 then 128 else if odd n then 0 else Suc (trailing_zeros (n div 2)))"
  by auto
termination by (relation "measure id") (auto elim!: evenE)

declare trailing_zeros.simps [simp del]

partial_function (option) is_prime_loop :: "nat \<Rightarrow> nat \<Rightarrow> nat \<Rightarrow> nat \<Rightarrow> bool option" where
  "is_prime_loop n upper_bound current incr =
     (if current \<le> upper_bound
      then if n mod current = 0 then Some False
           else is_prime_loop n upper_bound (current + incr) (incr XOR 6)
      else Some True)"

definition is_prime :: "nat \<Rightarrow> bool option" where
  "is_prime n =
     (if n \<le> 1 then Some False
      else if n \<le> 3 then Some True
      else
        let next_square = trailing_zeros (next_power_of_two n) + 1;
            upper_bound = 2 ^ (next_square div 2)
        in if n mod 2 = 0 \<or> n mod 3 = 0 then Some False
           else is_prime_loop n upper_bound 5 2)"

text \<open>The mathematical notion.\<close>

definition prime_number :: "nat \<Rightarrow> bool" where
  "prime_number n \<longleftrightarrow> 1 < n \<and> (\<forall>d. d dvd n \<longrightarrow> d = 1 \<or> d = n)"

lemma trailing_zeros_power: "trailing_zeros (2 ^ k) = k"
  by (induction k) (subst trailing_zeros.simps, simp)+

lemma prime_number_no_small_divisor:
  assumes "1 < n" "n \<le> u * u" "\<And>d. 1 < d \<Longrightarrow> d \<le> u \<Longrightarrow> d < n \<Longrightarrow> \<not> d dvd n"
  shows "prime_number n"
proof (rule ccontr)
  assume "\<not> prime_number n"
  then obtain d where d: "d dvd n" "d \<noteq> 1" "d \<noteq> n" using assms(1) by (auto simp: prime_number_def)
  then obtain e where e: "n = d * e" by (auto simp: dvd_def)
  have "d \<noteq> 0" "e \<noteq> 0" using e assms(1) by (metis less_nat_zero_code mult_is_0)+
  moreover have "e \<noteq> 1" using e d(3) by auto
  ultimately have "1 < d" "1 < e" using d(2) by linarith+
  then have g: "1 < d" "1 < e" "d < n" "e < n" using e by auto
  have "d \<le> u \<or> e \<le> u"
  proof (rule ccontr)
    assume "\<not> (d \<le> u \<or> e \<le> u)"
    then have "u * u < d * e" by (simp add: mult_strict_mono)
    then show False using e assms(2) by simp
  qed
  then show False using assms(3) [of d] assms(3) [of e] g e by auto
qed

text \<open>The loop visits every candidate that neither 2 nor 3 divides.\<close>

definition loop_at :: "nat \<Rightarrow> nat \<Rightarrow> bool" where
  "loop_at current incr \<longleftrightarrow> current mod 6 = 5 \<and> incr = 2 \<or> current mod 6 = 1 \<and> incr = 4"

lemma loop_at_step:
  assumes "loop_at c i"
  shows "loop_at (c + i) (i XOR 6)" "0 < i"
    "c < d \<Longrightarrow> d < c + i \<Longrightarrow> 2 dvd d \<or> 3 dvd d"
proof -
  show "loop_at (c + i) (i XOR 6)" "0 < i" using assms by (auto simp: loop_at_def mod_add_eq) presburger+
  show "2 dvd d \<or> 3 dvd d" if "c < d" "d < c + i"
    using assms that unfolding loop_at_def by presburger
qed

lemma is_prime_loop_spec:
  assumes "loop_at c i" "\<not> 2 dvd n" "\<not> 3 dvd n"
  shows "is_prime_loop n u c i = Some (\<forall>d. c \<le> d \<longrightarrow> d \<le> u \<longrightarrow> \<not> d dvd n)"
  using assms(1)
proof (induction "Suc u - c" arbitrary: c i rule: less_induct)
  case less
  show ?case
  proof (cases "c \<le> u \<and> \<not> c dvd n")
    case True
    have "Suc u - (c + i) < Suc u - c" using loop_at_step(2) [OF less.prems] True by auto
    then have "is_prime_loop n u (c + i) (i XOR 6) = Some (\<forall>d. c + i \<le> d \<longrightarrow> d \<le> u \<longrightarrow> \<not> d dvd n)"
      using less.hyps loop_at_step(1) [OF less.prems] by blast
    moreover have "\<not> d dvd n" if "c \<le> d" "d < c + i" for d
      using loop_at_step(3) [OF less.prems, of d] that True assms(2,3) by (metis dvd_trans le_neq_implies_less)
    then have "(\<forall>d. c + i \<le> d \<longrightarrow> d \<le> u \<longrightarrow> \<not> d dvd n) = (\<forall>d. c \<le> d \<longrightarrow> d \<le> u \<longrightarrow> \<not> d dvd n)"
      by (meson le_add1 le_trans not_le)
    ultimately show ?thesis
      using True by (subst is_prime_loop.simps) (simp add: dvd_eq_mod_eq_0)
  next
    case False
    then show ?thesis
      by (subst is_prime_loop.simps) (auto simp: dvd_eq_mod_eq_0)
  qed
qed

lemma next_power_bounds: "1 < n \<Longrightarrow> \<exists>k. next_power_of_two n = 2 ^ k \<and> n \<le> 2 ^ k \<and> 2 ^ k < 2 * n"
proof -
  assume "1 < n"
  then have "2 ^ log2_nat (n - 1) \<le> n - 1 \<and> n - 1 < 2 ^ Suc (log2_nat (n - 1))"
    using log2_nat_bounds [of "n - 1"] by simp
  then show ?thesis
    using \<open>1 < n\<close> unfolding next_power_of_two_def by (intro exI [of _ "Suc (log2_nat (n - 1))"]) auto
qed

lemma is_prime_spec: "is_prime n = Some (prime_number n)"
proof -
  consider "n \<le> 1" | "n = 2 \<or> n = 3" | "3 < n" "2 dvd n \<or> 3 dvd n" | "3 < n" "\<not> 2 dvd n" "\<not> 3 dvd n"
    by linarith
  then show ?thesis
  proof cases
    case 1 then show ?thesis by (simp add: is_prime_def prime_number_def)
  next
    case 2
    have "prime_number n"
    proof (rule prime_number_no_small_divisor [of n 2])
      fix d :: nat assume "1 < d" "d \<le> 2" "d < n"
      then have "d = 2" by simp
      then show "\<not> d dvd n" using 2 \<open>d < n\<close> by auto
    qed (use 2 in auto)
    then show ?thesis using 2 by (auto simp: is_prime_def)
  next
    case 3
    then have "\<not> prime_number n" by (auto simp: prime_number_def)
    moreover have "n mod 2 = 0 \<or> n mod 3 = 0" using 3(2) by (auto simp: dvd_eq_mod_eq_0)
    ultimately show ?thesis using 3 by (simp add: is_prime_def Let_def)
  next
    case 4
    obtain k where k: "next_power_of_two n = 2 ^ k" "n \<le> 2 ^ k" "2 ^ k < 2 * n"
      using next_power_bounds [of n] 4 by auto
    define u where "u = (2 :: nat) ^ ((k + 1) div 2)"
    have "(2 :: nat) ^ k \<le> u * u"
      unfolding u_def power_add [symmetric] by (intro power_increasing) auto
    then have u: "n \<le> u * u" using k(2) by simp
    have loop: "is_prime n = Some (\<forall>d. 5 \<le> d \<longrightarrow> d \<le> u \<longrightarrow> \<not> d dvd n)"
      using 4 is_prime_loop_spec [of 5 2 n u] by (simp add: is_prime_def k(1) trailing_zeros_power u_def dvd_eq_mod_eq_0 loop_at_def)
    have "u * u \<le> 2 ^ (k + 1)"
      unfolding u_def power_add [symmetric] by (intro power_increasing) auto
    also have "\<dots> < 4 * n" using k(3) by simp
    also have "\<dots> \<le> n * n" using 4(1) by simp
    finally have "u < n" by (metis mult_le_mono not_le)
    have "prime_number n" if "\<forall>d. 5 \<le> d \<longrightarrow> d \<le> u \<longrightarrow> \<not> d dvd n"
    proof (rule prime_number_no_small_divisor [OF _ u])
      fix d :: nat assume "1 < d" "d \<le> u"
      then consider "d = 2" | "d = 3" | "d = 4" | "5 \<le> d" by linarith
      then show "\<not> d dvd n" using 4(2,3) that \<open>d \<le> u\<close> by cases (auto dest: dvd_trans [of 2 4 n])
    qed (use 4 in simp)
    moreover have "\<forall>d. 5 \<le> d \<longrightarrow> d \<le> u \<longrightarrow> \<not> d dvd n" if "prime_number n"
      using that \<open>u < n\<close> by (auto simp: prime_number_def)
    ultimately show ?thesis using loop by auto
  qed
qed

lemma DEFAULT_TABLE_SIZE_prime: "is_prime DEFAULT_TABLE_SIZE = Some True"
proof -
  have "next_power_of_two 65537 = 2 ^ 17"
    by (simp add: next_power_of_two_def log2_nat.simps)
  then have "trailing_zeros (next_power_of_two 65537) = 17" by (simp only: trailing_zeros_power)
  then have "is_prime 65537 = is_prime_loop 65537 512 5 2" by (simp add: is_prime_def)
  also have "\<dots> = Some True" by (simp add: is_prime_loop.simps)
  finally show ?thesis by (simp add: DEFAULT_TABLE_SIZE_def)
qed

section \<open>A permutation visits the whole table\<close>

lemma prime_coprime: "prime_number p \<Longrightarrow> 0 < s \<Longrightarrow> s < p \<Longrightarrow> coprime p s"
proof -
  assume "prime_number p" "0 < s" "s < p"
  then have "gcd p s = 1 \<or> gcd p s = p" by (auto simp: prime_number_def)
  moreover have "gcd p s \<le> s" using \<open>0 < s\<close> by (auto intro: gcd_le2_nat)
  ultimately show ?thesis using \<open>s < p\<close> by (auto simp: coprime_iff_gcd_eq_1)
qed

lemma walk_inj:
  assumes "prime_number p" "0 < s" "s < p"
  shows "inj_on (\<lambda>i. (a + s * i) mod p) {..<p}"
proof -
  have no: "(a + s * i) mod p \<noteq> (a + s * j) mod p" if "i < j" "j < p" for i j
  proof
    assume "(a + s * i) mod p = (a + s * j) mod p"
    then have "p dvd (a + s * j) - (a + s * i)"
      by (metis mod_eq_dvd_iff_nat add_le_mono mult_le_mono2 order_refl that(1) less_imp_le)
    moreover have "(a + s * j) - (a + s * i) = s * (j - i)" by (simp add: diff_mult_distrib2)
    ultimately have "p dvd j - i"
      using prime_coprime [OF assms] by (simp add: coprime_dvd_mult_right_iff)
    then show False using that by (auto dest: dvd_imp_le)
  qed
  show ?thesis
    by (rule linorder_inj_onI') (use no in auto)
qed

lemma walk_surj:
  assumes "prime_number p" "0 < s" "s < p" "t < p"
  shows "\<exists>i<p. (a + s * i) mod p = t"
proof -
  have "card ((\<lambda>i. (a + s * i) mod p) ` {..<p}) = card {..<p}"
    by (rule card_image [OF walk_inj [OF assms(1-3)]])
  moreover have "(\<lambda>i. (a + s * i) mod p) ` {..<p} \<subseteq> {..<p}" using assms(4) by auto
  ultimately have "(\<lambda>i. (a + s * i) mod p) ` {..<p} = {..<p}" by (intro card_subset_eq) simp_all
  then have "t \<in> (\<lambda>i. (a + s * i) mod p) ` {..<p}" using assms(4) by blast
  then show ?thesis by blast
qed

definition builder_ok :: "nat \<Rightarrow> TableBuilder \<Rightarrow> bool" where
  "builder_ok p tb \<longleftrightarrow> length (tb_table tb) = p \<and> tb_size tb = length (filter (\<lambda>e. e \<noteq> None) (tb_table tb))"

definition perm_ok :: "nat \<Rightarrow> nat \<Rightarrow> Permutation \<Rightarrow> bool" where
  "perm_ok p B q \<longleftrightarrow> p_offset q < p \<and> 0 < p_skip q \<and> p_skip q < p \<and> p_next q \<le> B"

lemma builder_free: "builder_ok p tb \<Longrightarrow> \<not> is_full p tb \<Longrightarrow> \<exists>t<p. tb_table tb ! t = None"
proof (rule ccontr)
  assume ok: "builder_ok p tb" "\<not> is_full p tb" and none: "\<not> (\<exists>t<p. tb_table tb ! t = None)"
  then have "\<forall>e\<in>set (tb_table tb). e \<noteq> None" by (metis in_set_conv_nth builder_ok_def)
  then have "filter (\<lambda>e. e \<noteq> None) (tb_table tb) = tb_table tb" by simp
  then show False using ok by (simp add: builder_ok_def is_full_def)
qed

text \<open>What a successful update does to the table.\<close>

definition put :: "nat \<Rightarrow> nat \<Rightarrow> TableBuilder \<Rightarrow> TableBuilder" where
  "put ix v tb = tb\<lparr>tb_table := (tb_table tb)[ix := Some v], tb_size := tb_size tb + 1\<rparr>"

lemma length_filter_update:
  "i < length xs \<Longrightarrow> \<not> P (xs ! i) \<Longrightarrow> P y \<Longrightarrow> length (filter P (xs[i := y])) = Suc (length (filter P xs))"
  by (induction xs arbitrary: i) (auto split: nat.splits)

lemma count_list_update:
  "i < length xs \<Longrightarrow> xs ! i \<noteq> v \<Longrightarrow> count_list (xs[i := y]) v = count_list xs v + (if y = v then 1 else 0)"
  by (induction xs arbitrary: i) (auto split: nat.splits)

lemma put_ok:
  assumes "builder_ok p tb" "ix < p" "tb_table tb ! ix = None"
  shows "builder_ok p (put ix v tb)" "tb_size (put ix v tb) = Suc (tb_size tb)"
    "count_list (tb_table (put ix v tb)) (Some k) = count_list (tb_table tb) (Some k) + (if v = k then 1 else 0)"
  using assms by (auto simp: builder_ok_def put_def length_filter_update count_list_update)

lemma place_entry_puts:
  assumes "builder_ok p tb" "\<exists>i<n. tb_table tb ! ((p_offset q + p_skip q * (p_next q + i)) mod p) = None"
    "p_offset q + p_skip q * (p_next q + n) < 2 ^ 64" "0 < p"
  shows "\<exists>ix m. place_entry p n k q tb = (q\<lparr>p_next := m\<rparr>, put ix k tb) \<and> ix < p \<and>
    tb_table tb ! ix = None \<and> m \<le> p_next q + n"
  using assms
proof (induction n arbitrary: q)
  case (Suc n)
  define ix where "ix = (p_offset q + p_skip q * p_next q) mod p"
  have "p_skip q * p_next q \<le> p_skip q * (p_next q + Suc n)" by (intro mult_le_mono2) simp
  then have "p_offset q + p_skip q * p_next q < 2 ^ 64" using Suc.prems(3) by linarith
  then have nxt: "Permutation_next p q = (ix, q\<lparr>p_next := p_next q + 1\<rparr>)"
    by (simp add: Permutation_next_def ix_def)
  have ix: "ix < p" "ix < length (tb_table tb)"
    using Suc.prems(1,4) by (simp_all add: ix_def builder_ok_def)
  show ?case
  proof (cases "tb_table tb ! ix = None")
    case True
    then have "try_update ix k tb = (Inr (), put ix k tb)" using ix by (simp add: try_update_def put_def slice_get_def)
    then show ?thesis
      using nxt ix(1) True by (intro exI [of _ ix] exI [of _ "p_next q + 1"]) simp
  next
    case False
    then have upd: "try_update ix k tb = (Inl (), tb)" using ix by (simp add: try_update_def slice_get_def)
    let ?q = "q\<lparr>p_next := p_next q + 1\<rparr>"
    obtain i where i: "i < Suc n" "tb_table tb ! ((p_offset q + p_skip q * (p_next q + i)) mod p) = None"
      using Suc.prems(2) by blast
    then obtain j where "i = Suc j" "j < n" using False by (cases i) (auto simp: ix_def)
    then have "\<exists>i<n. tb_table tb ! ((p_offset ?q + p_skip ?q * (p_next ?q + i)) mod p) = None"
      using i(2) by (intro exI [of _ j]) simp
    then obtain ix' m where "place_entry p n k ?q tb = (?q\<lparr>p_next := m\<rparr>, put ix' k tb)" "ix' < p"
        "tb_table tb ! ix' = None" "m \<le> p_next q + 1 + n"
      using Suc.IH [of ?q] Suc.prems by auto
    then show ?thesis using nxt upd by (intro exI [of _ ix'] exI [of _ m]) simp
  qed
qed simp

text \<open>The whole walk: a table that is not full has room for the entry, and the walk finds it.\<close>

lemma no_overflow:
  assumes "perm_ok p B q" "p \<le> 65537" "B + p \<le> p * p"
  shows "p_offset q + p_skip q * (p_next q + p) < 2 ^ 64"
proof -
  have "p_skip q * (p_next q + p) \<le> p * (p * p)"
    using assms by (intro mult_le_mono) (auto simp: perm_ok_def)
  also have "\<dots> \<le> 65537 * (65537 * 65537)" using assms(2) by (intro mult_le_mono) auto
  finally have "p_skip q * (p_next q + p) \<le> 65537 * (65537 * 65537)" .
  moreover have "p_offset q \<le> 65537" using assms by (auto simp: perm_ok_def)
  ultimately show ?thesis by simp
qed

lemma place_entry_full_walk:
  assumes "builder_ok p tb" "\<not> is_full p tb" "perm_ok p B q" "prime_number p" "p \<le> 65537" "B + p \<le> p * p"
  shows "\<exists>ix m. place_entry p p k q tb = (q\<lparr>p_next := m\<rparr>, put ix k tb) \<and> ix < p \<and>
    tb_table tb ! ix = None \<and> m \<le> B + p"
proof -
  obtain t where t: "t < p" "tb_table tb ! t = None" using builder_free [OF assms(1,2)] by blast
  have q: "0 < p_skip q" "p_skip q < p" "p_next q \<le> B" using assms(3) by (auto simp: perm_ok_def)
  obtain i where i: "i < p" "(p_offset q + p_skip q * p_next q + p_skip q * i) mod p = t"
    using walk_surj [OF assms(4) q(1,2) t(1)] by blast
  then have "tb_table tb ! ((p_offset q + p_skip q * (p_next q + i)) mod p) = None"
    using t(2) by (simp add: distrib_left add.assoc)
  then obtain ix m where "place_entry p p k q tb = (q\<lparr>p_next := m\<rparr>, put ix k tb)" "ix < p"
      "tb_table tb ! ix = None" "m \<le> p_next q + p"
    using place_entry_puts [OF assms(1) _ no_overflow [OF assms(3,5,6)], of k] i(1) t(1) by auto
  then show ?thesis using q(3) by (intro exI [of _ ix] exI [of _ m]) auto
qed

end
