(* ===== verification/Maglev_Table.thy ===== *)
theory Maglev_Table
  imports Maglev
begin

text \<open>
  What the loop of \<^verbatim>\<open>MaglevBalancer::with_size\<close> guarantees, in the floating point arithmetic of
  the source: every round gives at most one entry to an item, the heaviest item gets one in every
  round, and therefore the table is full at the end. The balancer implements the interface of the
  balancers, and its table does not depend on the order of the endpoints.
\<close>

section \<open>One round over the items\<close>

abbreviation entries :: "TableBuilder \<Rightarrow> nat \<Rightarrow> nat" where
  "entries tb k \<equiv> count_list (tb_table tb) (Some k)"

definition ready :: "Permutation \<Rightarrow> bool" where
  "ready q \<longleftrightarrow> fst (has_enough_weight_after_iterating q)"

text \<open>An item that gets an entry in every round.\<close>

definition steady :: "Permutation \<Rightarrow> bool" where
  "steady q \<longleftrightarrow> ready q \<and>
     p_current_weight (snd (has_enough_weight_after_iterating q)) = p_current_weight q"

lemma steady_ready: "steady q \<Longrightarrow> ready q"
  by (simp add: steady_def)

lemma steady_iterate:
  "steady q \<Longrightarrow> steady (snd (has_enough_weight_after_iterating q))"
  "steady (q\<lparr>p_next := m\<rparr>) = steady q"
  by (auto simp: steady_def ready_def has_enough_weight_after_iterating_def Let_def)

text \<open>A visit of one item: it gets an entry if it is ready.\<close>

lemma visit_item:
  assumes p: "prime_number p" "p \<le> 65537" "B + p \<le> p * p"
    and tb: "builder_ok p tb" "\<not> is_full p tb" and q: "perm_ok p B q"
    and step: "has_enough_weight_after_iterating q = (e, q')"
      "(if e then place_entry p p i q' tb else (q', tb)) = (q'', tb')"
  shows "builder_ok p tb'" "perm_ok p (B + p) q''"
    "entries tb' k = entries tb k + (if ready q \<and> k = i then 1 else 0)"
    "tb_size tb' = tb_size tb + (if ready q then 1 else 0)" "steady q \<Longrightarrow> steady q''"
proof -
  have e: "e = ready q" using step(1) by (simp add: ready_def)
  have q': "perm_ok p B q'"
    using q step(1) by (auto simp: perm_ok_def has_enough_weight_after_iterating_def Let_def)
  have st: "steady q \<Longrightarrow> steady q'" using steady_iterate(1) [of q] step(1) by simp
  have "builder_ok p tb' \<and> perm_ok p (B + p) q'' \<and>
    entries tb' k = entries tb k + (if e \<and> k = i then 1 else 0) \<and>
    tb_size tb' = tb_size tb + (if e then 1 else 0) \<and> (steady q \<longrightarrow> steady q'')"
  proof (cases e)
    case True
    obtain ix m where pl: "place_entry p p i q' tb = (q'\<lparr>p_next := m\<rparr>, put ix i tb)" "ix < p"
        "tb_table tb ! ix = None" "m \<le> B + p"
      using place_entry_full_walk [OF tb q' p] by blast
    have eq: "q'' = q'\<lparr>p_next := m\<rparr>" "tb' = put ix i tb" using True step(2) pl(1) by simp_all
    then show ?thesis
      using True put_ok [OF tb(1) pl(2,3), of i] q' pl(4) st by (auto simp: perm_ok_def steady_iterate(2))
  next
    case False
    then show ?thesis using step(2) tb(1) q' st by (auto simp: perm_ok_def)
  qed
  then show "builder_ok p tb'" "perm_ok p (B + p) q''"
    "entries tb' k = entries tb k + (if ready q \<and> k = i then 1 else 0)"
    "tb_size tb' = tb_size tb + (if ready q then 1 else 0)" "steady q \<Longrightarrow> steady q''"
    by (auto simp: e)
qed

lemma item_loop_spec:
  assumes "prime_number p" "p \<le> 65537" "B + p \<le> p * p"
    and "builder_ok p tb" "\<forall>q\<in>set qs. perm_ok p B q" "item_loop p i qs tb = (stop, qs', tb')"
  shows "builder_ok p tb'"
    and "length qs' = length qs \<and> (\<forall>q\<in>set qs'. perm_ok p (B + p) q)"
    and "stop \<Longrightarrow> is_full p tb'"
    and "entries tb k \<le> entries tb' k \<and> entries tb' k \<le> entries tb k + (if i \<le> k \<and> k < i + length qs then 1 else 0)"
    and "\<not> stop \<Longrightarrow> j < length qs \<Longrightarrow> ready (qs ! j) \<Longrightarrow> entries tb' (i + j) = Suc (entries tb (i + j))"
    and "j < length qs \<Longrightarrow> steady (qs ! j) \<Longrightarrow> steady (qs' ! j)"
    and "tb_size tb \<le> tb_size tb'"
    and "\<not> stop \<Longrightarrow> q \<in> set qs \<Longrightarrow> ready q \<Longrightarrow> tb_size tb < tb_size tb'"
    and "tb_size tb + length qs \<le> p \<Longrightarrow> \<not> stop"
proof -
  have "builder_ok p tb' \<and> length qs' = length qs \<and> (\<forall>q\<in>set qs'. perm_ok p (B + p) q) \<and>
    (stop \<longrightarrow> is_full p tb') \<and>
    (\<forall>k. entries tb k \<le> entries tb' k \<and> entries tb' k \<le> entries tb k + (if i \<le> k \<and> k < i + length qs then 1 else 0)) \<and>
    (\<forall>j. \<not> stop \<longrightarrow> j < length qs \<longrightarrow> ready (qs ! j) \<longrightarrow> entries tb' (i + j) = Suc (entries tb (i + j))) \<and>
    (\<forall>j. j < length qs \<longrightarrow> steady (qs ! j) \<longrightarrow> steady (qs' ! j)) \<and>
    tb_size tb \<le> tb_size tb' \<and>
    (\<forall>q. \<not> stop \<longrightarrow> q \<in> set qs \<longrightarrow> ready q \<longrightarrow> tb_size tb < tb_size tb') \<and>
    (tb_size tb + length qs \<le> p \<longrightarrow> \<not> stop)"
    using assms(4-)
  proof (induction qs arbitrary: i tb stop qs' tb')
    case (Cons q qs)
    show ?case
    proof (cases "is_full p tb")
      case True
      have "perm_ok p (B + p) r" if "r \<in> set (q # qs)" for r
        using Cons.prems(2) that by (force simp: perm_ok_def)
      then show ?thesis using True Cons.prems(1,3) by (auto simp: is_full_def)
    next
      case False
      obtain e q' where e: "has_enough_weight_after_iterating q = (e, q')" by fastforce
      obtain q'' tb1 where v: "(if e then place_entry p p i q' tb else (q', tb)) = (q'', tb1)" by fastforce
      obtain st rs tb2 where r: "item_loop p (Suc i) qs tb1 = (st, rs, tb2)" by (metis prod_cases3)
      have res: "stop = st" "qs' = q'' # rs" "tb' = tb2"
        using Cons.prems(3) False e v r by (auto simp: Let_def)
      have q: "perm_ok p B q" and qs: "\<forall>q\<in>set qs. perm_ok p B q" using Cons.prems(2) by auto
      note visit = visit_item [OF assms(1-3) Cons.prems(1) False q e v]
      note IH = Cons.IH [OF visit(1) qs r]
      have cnt: "entries tb k \<le> entries tb' k \<and>
          entries tb' k \<le> entries tb k + (if i \<le> k \<and> k < i + length (q # qs) then 1 else 0)" for k
        using visit(3) [of k] IH res(3) by (cases "k = i") (auto dest: spec [of _ k])
      have got: "entries tb' (i + j) = Suc (entries tb (i + j))"
        if "\<not> stop" "j < length (q # qs)" "ready ((q # qs) ! j)" for j
      proof (cases j)
        case 0
        then show ?thesis
          using that visit(3) [of i] IH res by (auto dest: spec [of _ i])
      next
        case (Suc j')
        then have "entries tb2 (Suc i + j') = Suc (entries tb1 (Suc i + j'))" using IH that res(1) by simp
        then show ?thesis using Suc visit(3) [of "Suc (i + j')"] res(3) by simp
      qed
      have grow: "tb_size tb < tb_size tb'" if "\<not> stop" "x \<in> set (q # qs)" "ready x" for x
        using that visit(4) IH res by (cases "x = q") auto
      have "tb_size tb1 \<le> Suc (tb_size tb)" using visit(4) by simp
      then show ?thesis
        using cnt got grow IH res visit(2,4,5) by (auto simp: nth_Cons split: nat.splits)
    qed
  qed simp
  then show "builder_ok p tb'"
    and "length qs' = length qs \<and> (\<forall>q\<in>set qs'. perm_ok p (B + p) q)"
    and "stop \<Longrightarrow> is_full p tb'"
    and "entries tb k \<le> entries tb' k \<and> entries tb' k \<le> entries tb k + (if i \<le> k \<and> k < i + length qs then 1 else 0)"
    and "\<not> stop \<Longrightarrow> j < length qs \<Longrightarrow> ready (qs ! j) \<Longrightarrow> entries tb' (i + j) = Suc (entries tb (i + j))"
    and "j < length qs \<Longrightarrow> steady (qs ! j) \<Longrightarrow> steady (qs' ! j)"
    and "tb_size tb \<le> tb_size tb'"
    and "\<not> stop \<Longrightarrow> q \<in> set qs \<Longrightarrow> ready q \<Longrightarrow> tb_size tb < tb_size tb'"
    and "tb_size tb + length qs \<le> p \<Longrightarrow> \<not> stop"
    by blast+
qed

section \<open>All rounds\<close>

lemma table_loop_range:
  assumes "prime_number p" "p \<le> 65537" "B + n * p \<le> p * p"
    and "builder_ok p tb" "\<forall>q\<in>set qs. perm_ok p B q"
  shows "builder_ok p (table_loop p n qs tb) \<and> entries tb k \<le> entries (table_loop p n qs tb) k \<and>
    (length qs \<le> k \<longrightarrow> entries (table_loop p n qs tb) k = entries tb k)"
  using assms(3-)
proof (induction n arbitrary: B qs tb)
  case (Suc n)
  obtain stop qs' tb' where r: "item_loop p 0 qs tb = (stop, qs', tb')" by (metis prod_cases3)
  have B: "B + p \<le> p * p" "B + p + n * p \<le> p * p" using Suc.prems(1) by simp_all
  note round = item_loop_spec [OF assms(1,2) B(1) Suc.prems(2,3) r]
  show ?case
    using Suc.IH [OF B(2) round(1), of qs'] round(1,2) round(4) [of k] r
    by (auto simp: Let_def)
qed simp

text \<open>If one item is steady, the table is full in the end, and no item gets more than one entry more
  than that one.\<close>

lemma table_loop_full:
  assumes "prime_number p" "p \<le> 65537" "B + n * p \<le> p * p"
    and "builder_ok p tb" "\<forall>q\<in>set qs. perm_ok p B q"
    and "j < length qs" "steady (qs ! j)" "\<forall>k. entries tb k \<le> entries tb j" "p \<le> tb_size tb + n"
  shows "is_full p (table_loop p n qs tb) \<and>
    entries (table_loop p n qs tb) k \<le> Suc (entries (table_loop p n qs tb) j)"
  using assms(3-)
proof (induction n arbitrary: B qs tb)
  case 0
  then show ?case by (auto simp: is_full_def le_Suc_eq)
next
  case (Suc n)
  obtain stop qs' tb' where r: "item_loop p 0 qs tb = (stop, qs', tb')" by (metis prod_cases3)
  have B: "B + p \<le> p * p" "B + p + n * p \<le> p * p" using Suc.prems(1) by simp_all
  note round = item_loop_spec [OF assms(1,2) B(1) Suc.prems(2,3) r]
  have upper: "entries tb' k \<le> Suc (entries tb j)" for k
    using round(4) [of k] spec [OF Suc.prems(6), of k] by (simp split: if_splits)
  show ?case
  proof (cases stop)
    case True
    have "entries tb' k \<le> Suc (entries tb' j)" using upper [of k] round(4) [of j] by simp
    then show ?thesis using True r round(3) by (simp add: Let_def)
  next
    case False
    have j: "entries tb' j = Suc (entries tb j)"
      using round(5) [of j] False Suc.prems(4) steady_ready [OF Suc.prems(5)] by simp
    have "tb_size tb < tb_size tb'"
      using round(8) [of "qs ! j"] False Suc.prems(4) steady_ready [OF Suc.prems(5)] by simp
    then show ?thesis
      using Suc.IH [OF B(2) round(1), of qs'] round(2) round(6) [of j] j upper False r Suc.prems(4,5,7)
      by (simp add: Let_def)
  qed
qed

text \<open>If all items start ready and there is room, each of them gets an entry.\<close>

lemma table_loop_each:
  assumes "prime_number p" "p \<le> 65537" "\<forall>q\<in>set qs. perm_ok p 0 q \<and> ready q" "length qs \<le> p" "j < length qs"
  shows "0 < entries (table_loop p p qs (TableBuilder_new p)) j"
proof -
  let ?tb = "TableBuilder_new p"
  have ok: "builder_ok p ?tb" "\<forall>q\<in>set qs. perm_ok p 0 q"
    using assms(3) by (simp_all add: builder_ok_def TableBuilder_new_def)
  obtain n where n: "p = Suc n" using assms(1) by (cases p) (auto simp: prime_number_def)
  obtain stop qs' tb' where r: "item_loop p 0 qs ?tb = (stop, qs', tb')" by (metis prod_cases3)
  have B: "0 + p \<le> p * p" "0 + p + n * p \<le> p * p" using n by simp_all
  note round = item_loop_spec [OF assms(1,2) B(1) ok r]
  have go: "\<not> stop" using round(9) assms(4) by (simp add: TableBuilder_new_def)
  then have "entries tb' j = Suc (entries ?tb j)" using round(5) [of j] assms(3,5) by simp
  moreover have "entries tb' j \<le> entries (table_loop p n qs' tb') j"
    using table_loop_range [OF assms(1,2) B(2) round(1)] round(2) by blast
  moreover have "table_loop p p qs ?tb = table_loop p n qs' tb'" using go r n by (simp add: Let_def)
  ultimately show ?thesis by simp
qed

section \<open>The weights\<close>

lemma foldl_fp_max:
  assumes "\<forall>x\<in>set xs. \<exists>r. f x = Fin r"
  shows "\<exists>m. foldl fp_max (Fin a) (map f xs) = Fin m \<and> a \<le> m \<and> (\<forall>x\<in>set xs. \<forall>r. f x = Fin r \<longrightarrow> r \<le> m) \<and>
    (m = a \<or> Fin m \<in> f ` set xs)"
  using assms
proof (induction xs arbitrary: a)
  case (Cons x xs)
  obtain r where r: "f x = Fin r" using Cons.prems by auto
  have "fp_max (Fin a) (Fin r) = Fin (max a r)" by (simp add: fp_max_def max_def)
  moreover obtain m where "foldl fp_max (Fin (max a r)) (map f xs) = Fin m" "max a r \<le> m"
      "\<forall>x\<in>set xs. \<forall>r. f x = Fin r \<longrightarrow> r \<le> m" "m = max a r \<or> Fin m \<in> f ` set xs"
    using Cons.IH [of "max a r"] Cons.prems by auto
  ultimately show ?case using r by (intro exI [of _ m]) (auto simp: max_def split: if_splits)
qed simp

lemma reduce_fp_max:
  assumes "xs \<noteq> []" "\<forall>x\<in>set xs. \<exists>r. f x = Fin r"
  shows "\<exists>m. iter_reduce fp_max (map f xs) = Some (Fin m) \<and> Fin m \<in> f ` set xs \<and>
    (\<forall>x\<in>set xs. \<forall>r. f x = Fin r \<longrightarrow> r \<le> m)"
proof -
  obtain x xs' where xs: "xs = x # xs'" using assms(1) by (cases xs) auto
  then obtain a where a: "f x = Fin a" using assms(2) by auto
  obtain m where "foldl fp_max (Fin a) (map f xs') = Fin m" "a \<le> m"
      "\<forall>x\<in>set xs'. \<forall>r. f x = Fin r \<longrightarrow> r \<le> m" "m = a \<or> Fin m \<in> f ` set xs'"
    using foldl_fp_max [of xs' f a] assms(2) xs by auto
  then show ?thesis using xs a by (intro exI [of _ m]) (auto simp: iter_reduce_def image_iff)
qed

lemma Permutation_new_fields [simp]:
  "p_offset (Permutation_new hash_one p auth w m) = unat (hash_one 0 auth) mod p"
  "p_skip (Permutation_new hash_one p auth w m) = unat (hash_one 1 auth) mod (p - 1) + 1"
  "p_weight (Permutation_new hash_one p auth w m) = w"
  "p_current_weight (Permutation_new hash_one p auth w m) = m"
  "p_target_weight (Permutation_new hash_one p auth w m) = m"
  "p_next (Permutation_new hash_one p auth w m) = 0"
  unfolding Permutation_new_def Let_def by (simp_all only: Permutation.simps)

lemma Permutation_new_ok:
  assumes "2 \<le> p"
  shows "perm_ok p 0 (Permutation_new hash_one p auth w m)"
proof -
  have "unat (hash_one 0 auth) mod p < p" by (rule mod_less_divisor) (use assms in linarith)
  moreover have "unat (hash_one 1 auth) mod (p - 1) < p - 1" by (rule mod_less_divisor) (use assms in linarith)
  ultimately show ?thesis unfolding perm_ok_def Permutation_new_fields using assms by linarith
qed

text \<open>Every permutation is ready at first, and the one with the largest weight always is.\<close>

lemma Permutation_new_ready:
  assumes "0 \<le> y" "0 \<le> m" "f64_representable m"
  shows "ready (Permutation_new hash_one p auth (Fin y) (Fin m))"
  using f64_round_ge [OF assms(3,2), of "m + y"] assms(1)
  by (auto simp: ready_def has_enough_weight_after_iterating_def Let_def fp_less_eq_def)

lemma Permutation_new_steady:
  assumes "0 \<le> m" "m \<le> 1" "f64_representable m"
  shows "steady (Permutation_new hash_one p auth (Fin m) (Fin m))"
proof -
  have le: "\<bar>2 * m\<bar> \<le> 2" using assms by simp
  have "(2 :: rat) powi 1 < 2 powi 1024" by (simp only: powi_two_less_iff)
  then have "\<bar>2 * m\<bar> < 2 powi 1024" using le unfolding power_int_1_right by (rule le_less_trans [rotated])
  then have "f64_round (2 * m) = Fin (2 * m)"
    by (rule f64_exact [OF f64_representable_double [OF assms(3)]])
  then have add: "f64_add (Fin m) (Fin m) = Fin (2 * m)" by (simp only: f64_add.simps mult_2)
  have "f64_sub (Fin (2 * m)) (Fin m) = f64_round m"
    unfolding f64_sub_def fp_neg.simps f64_add.simps by (simp add: field_simps)
  then have sub: "f64_sub (Fin (2 * m)) (Fin m) = Fin m" using f64_exact [OF assms(3)] by simp
  have "fp_less_eq (Fin m) (Fin (2 * m))" using assms(1) by (auto simp: fp_less_eq_def)
  then show ?thesis
    by (simp only: steady_def ready_def has_enough_weight_after_iterating_def Let_def
        Permutation_new_fields add sub fst_conv snd_conv if_True simp_thms) simp
qed

section \<open>The constructor\<close>

lemma with_size_items:
  assumes "collect_checked xs = (ys, t)"
  shows "mg_items (with_size p authority hash_one xs) = sort_key (\<lambda>y. authority_sorting_key (authority (item y))) ys"
  using assms by (simp add: with_size_def Let_def)

lemma with_size_table:
  assumes "collect_checked xs = (ys, t)" "b = with_size p authority hash_one xs" "2 \<le> length (mg_items b)"
  shows "\<exists>m. iter_reduce fp_max (map (normalized t) (mg_items b)) = Some m \<and>
    mg_table b = TableBuilder_build (maglev_fill p authority hash_one (mg_items b) (f64_from_u32 t) m)"
proof -
  have ne: "mg_items b \<noteq> []" using assms(3) by auto
  then obtain m where m: "iter_reduce fp_max (map (normalized t) (mg_items b)) = Some m"
    by (cases "mg_items b") (auto simp: iter_reduce_def)
  have "length (mg_items b) \<noteq> 1" using assms(3) by simp
  then have "mg_table b = TableBuilder_build (maglev_fill p authority hash_one (mg_items b) (f64_from_u32 t) m)"
    using m with_size_items [OF assms(1), of p authority hash_one] assms(1,2)
    by (simp add: with_size_def Let_def)
  then show ?thesis using m by blast
qed

lemma new_builder_ok: "builder_ok p (TableBuilder_new p)" "entries (TableBuilder_new p) k = 0"
  by (simp_all add: builder_ok_def TableBuilder_new_def)

lemma prime_ge_2: "prime_number p \<Longrightarrow> 2 \<le> p"
  by (simp add: prime_number_def)

lemma maglev_fill_ok:
  assumes "prime_number p" "p \<le> 65537"
  shows "builder_ok p (maglev_fill p authority hash_one xs tot m)"
    "length xs \<le> k \<Longrightarrow> entries (maglev_fill p authority hash_one xs tot m) k = 0"
proof -
  let ?qs = "map (\<lambda>x. Permutation_new hash_one p (authority (item x)) (f64_div (f64_from_u32 (weight x)) tot) m) xs"
  have qs: "\<forall>q\<in>set ?qs. perm_ok p 0 q"
    using Permutation_new_ok [OF prime_ge_2 [OF assms(1)]] by (simp del: Permutation_new_fields)
  have "maglev_fill p authority hash_one xs tot m = table_loop p p ?qs (TableBuilder_new p)"
    by (simp only: maglev_fill_def Let_def)
  then show "builder_ok p (maglev_fill p authority hash_one xs tot m)"
    "length xs \<le> k \<Longrightarrow> entries (maglev_fill p authority hash_one xs tot m) k = 0"
    using table_loop_range [OF assms(1,2) _ new_builder_ok(1) qs, of p k] new_builder_ok(2) [of p k] by simp_all
qed

text \<open>Whatever the weights, the table has its full length and names items only.\<close>

lemma maglev_fill_range:
  assumes "prime_number p" "p \<le> 65537" "xs \<noteq> []"
  shows "length (TableBuilder_build (maglev_fill p authority hash_one xs tot m)) = p"
    "\<forall>v\<in>set (TableBuilder_build (maglev_fill p authority hash_one xs tot m)). v < length xs"
proof -
  let ?tb = "maglev_fill p authority hash_one xs tot m"
  have range: "builder_ok p ?tb" "\<And>k. length xs \<le> k \<Longrightarrow> entries ?tb k = 0"
    by (rule maglev_fill_ok(1) [OF assms(1,2)], erule maglev_fill_ok(2) [OF assms(1,2)])
  show "length (TableBuilder_build ?tb) = p" using range(1) by (simp add: TableBuilder_build_def builder_ok_def)
  show "\<forall>v\<in>set (TableBuilder_build ?tb). v < length xs"
  proof
    fix v assume "v \<in> set (TableBuilder_build ?tb)"
    then have "v = 0 \<or> Some v \<in> set (tb_table ?tb)"
      by (auto simp: TableBuilder_build_def split: option.splits)
    then show "v < length xs"
      using range(2) [of v] assms(3) count_list_0_iff [of "tb_table ?tb" "Some v"] by (cases "length xs \<le> v") auto
  qed
qed

text \<open>If the total weight is positive, the table is completely filled, every item has an entry, and
  none has more than one entry more than the heaviest.\<close>

lemma maglev_fill_fair:
  assumes p: "prime_number p" "p \<le> 65537" and t: "unat t = total_weight_of weight xs" "t \<noteq> 0"
    and m: "iter_reduce fp_max (map (normalized t) xs) = Some m"
    and j: "j < length xs" "\<forall>x\<in>set xs. weight x \<le> weight (xs ! j)"
    and tb_def: "tb = maglev_fill p authority hash_one xs (f64_from_u32 t) m"
  shows "is_full p tb" "entries tb k \<le> Suc (entries tb j)"
    "length xs \<le> p \<Longrightarrow> k < length xs \<Longrightarrow> 0 < entries tb k"
proof -
  let ?qs = "map (\<lambda>x. Permutation_new hash_one p (authority (item x)) (normalized t x) m) xs"
  have fin: "\<forall>x\<in>set xs. \<exists>r. normalized t x = Fin r" using total_bounds_weight [OF t(1) _ t(2)] by blast
  have "xs \<noteq> []" using j(1) by auto
  then obtain r where r: "iter_reduce fp_max (map (normalized t) xs) = Some (Fin r)"
      "Fin r \<in> normalized t ` set xs" "\<forall>x\<in>set xs. \<forall>y. normalized t x = Fin y \<longrightarrow> y \<le> r"
    using reduce_fp_max [OF _ fin] by blast
  have mr: "m = Fin r" using r(1) m by simp
  obtain x where x: "Fin r = normalized t x" "x \<in> set xs" using r(2) by (rule imageE)
  have rr: "0 \<le> r" "r \<le> 1" "f64_representable r"
    using total_bounds_weight [OF t(1) x(2) t(2)] unfolding x(1) [symmetric] by blast+
  have mem: "xs ! j \<in> set xs" using j(1) by simp
  obtain y where y: "normalized t (xs ! j) = Fin y" using bspec [OF fin mem] by blast
  have "r \<le> y" by (rule normalized_mono [OF x(1) [symmetric] y _ t(2)]) (use j(2) x(2) in blast)
  moreover have "y \<le> r" using r(3) mem y by blast
  ultimately have "y = r" by (rule order_antisym [rotated])
  then have st: "steady (?qs ! j)" using Permutation_new_steady [OF rr] y j(1) mr by simp
  have rd: "\<forall>q\<in>set ?qs. perm_ok p 0 q \<and> ready q"
  proof
    fix q assume "q \<in> set ?qs"
    then obtain x where q: "q = Permutation_new hash_one p (authority (item x)) (normalized t x) m" "x \<in> set xs"
      by auto
    obtain z where "normalized t x = Fin z" "0 \<le> z" using total_bounds_weight [OF t(1) q(2) t(2)] by blast
    then show "perm_ok p 0 q \<and> ready q"
      unfolding q(1) mr using Permutation_new_ok [OF prime_ge_2 [OF p(1)]] Permutation_new_ready [OF _ rr(1,3)] by simp
  qed
  have tb: "tb = table_loop p p ?qs (TableBuilder_new p)" by (simp add: tb_def maglev_fill_def)
  have "is_full p tb \<and> entries tb k \<le> Suc (entries tb j)"
    unfolding tb using rd st j(1) new_builder_ok
    by (intro table_loop_full [OF p, of 0]) auto
  then show "is_full p tb" "entries tb k \<le> Suc (entries tb j)" by simp_all
  show "0 < entries tb k" if "length xs \<le> p" "k < length xs"
    unfolding tb using table_loop_each [OF p rd] that by simp
qed

lemma full_table:
  assumes "builder_ok p tb" "is_full p tb"
  shows "None \<notin> set (tb_table tb)" "count_list (TableBuilder_build tb) k = entries tb k"
proof -
  have "length (filter (\<lambda>e. e \<noteq> None) (tb_table tb)) = length (tb_table tb)"
    using assms length_filter_le [of "\<lambda>e. e \<noteq> None" "tb_table tb"] by (simp add: builder_ok_def is_full_def)
  then show none: "None \<notin> set (tb_table tb)" by (auto simp: length_filter_less dest: length_filter_less [of None])
  have "count_list (map (\<lambda>entry. case entry of Some v \<Rightarrow> v | None \<Rightarrow> 0) es) k = count_list es (Some k)"
    if "None \<notin> set es" for es
    using that by (induction es) (auto split: option.splits)
  then show "count_list (TableBuilder_build tb) k = entries tb k"
    using none by (simp add: TableBuilder_build_def)
qed

section \<open>The balancer implements the interface\<close>

definition mg_members :: "'e MaglevBalancer \<Rightarrow> 'e list" where
  "mg_members b = map item (mg_items b)"

definition mg_inv :: "'e MaglevBalancer \<Rightarrow> bool" where
  "mg_inv b \<longleftrightarrow> length (mg_items b) \<le> 1 \<or>
     mg_table b \<noteq> [] \<and> (\<forall>v\<in>set (mg_table b). v < length (mg_items b))"

lemma DEFAULT_TABLE_SIZE_ok: "prime_number DEFAULT_TABLE_SIZE" "DEFAULT_TABLE_SIZE \<le> 65537"
  using DEFAULT_TABLE_SIZE_prime by (simp_all add: is_prime_spec DEFAULT_TABLE_SIZE_def)

lemma with_size_inv:
  assumes "prime_number p" "p \<le> 65537"
  shows "mg_inv (with_size p authority hash_one xs)"
proof (cases "length (mg_items (with_size p authority hash_one xs)) \<le> 1")
  case False
  define b where "b = with_size p authority hash_one xs"
  obtain ys t where c: "collect_checked xs = (ys, t)" by fastforce
  obtain m where m: "mg_table b = TableBuilder_build (maglev_fill p authority hash_one (mg_items b) (f64_from_u32 t) m)"
    using with_size_table [OF c b_def] False by (auto simp: b_def)
  have ne: "mg_items b \<noteq> []" using False by (auto simp: b_def)
  have "length (mg_table b) = p" "\<forall>v\<in>set (mg_table b). v < length (mg_items b)"
    unfolding m using maglev_fill_range [OF assms ne] by blast+
  then have "mg_inv b" using prime_ge_2 [OF assms(1)] by (auto simp: mg_inv_def)
  then show ?thesis by (simp add: b_def)
qed (simp add: mg_inv_def)

lemma maglev_from_iter_members:
  "set (mg_members (maglev_from_iter weight_of authority hash_one es)) \<subseteq> set es"
  "es \<noteq> [] \<Longrightarrow> mg_members (maglev_from_iter weight_of authority hash_one es) \<noteq> []"
proof -
  obtain ys t where c: "collect_checked (items_of weight_of es) = (ys, t)" by fastforce
  have "mset (mg_members (maglev_from_iter weight_of authority hash_one es)) = mset (map item ys)"
    by (simp add: mg_members_def maglev_from_iter_def MaglevBalancer_new_def with_size_items [OF c])
  then have "set (mg_members (maglev_from_iter weight_of authority hash_one es)) = item ` set ys"
    by (metis list.set_map set_mset_mset)
  then show "set (mg_members (maglev_from_iter weight_of authority hash_one es)) \<subseteq> set es"
    "es \<noteq> [] \<Longrightarrow> mg_members (maglev_from_iter weight_of authority hash_one es) \<noteq> []"
    using collect_checked_items [OF c] by force+
qed

lemma maglev_next_item_selects:
  assumes "mg_inv b" "mg_items b \<noteq> []"
  shows "\<exists>x\<in>set (mg_items b). maglev_next_item random h b = (Some (item x), b)"
proof (cases "length (mg_items b) \<le> 1")
  case True
  then show ?thesis using assms(2) by (cases "mg_items b") (auto simp: maglev_next_item_def slice_get_def)
next
  case False
  define k where "k = unat (case h of Some h \<Rightarrow> h | None \<Rightarrow> random) mod length (mg_table b)"
  have k: "k < length (mg_table b)" "mg_table b ! k < length (mg_items b)"
    using assms(1) False by (auto simp: mg_inv_def k_def)
  then have "maglev_next_item random h b = (Some (item (mg_items b ! (mg_table b ! k))), b)"
    using False by (simp add: maglev_next_item_def k_def [symmetric] Let_def slice_get_def)
  then show ?thesis using k(2) by (meson nth_mem)
qed

interpretation mg: serving_balancer "maglev_from_iter weight_of authority hash_one"
    "maglev_next_item random" mg_members mg_inv
  for weight_of :: "'e \<Rightarrow> u32" and authority hash_one random
proof unfold_locales
  fix es :: "'e list" and b :: "'e MaglevBalancer" and h e
  show "mg_inv (maglev_from_iter weight_of authority hash_one es)"
    unfolding maglev_from_iter_def MaglevBalancer_new_def by (rule with_size_inv [OF DEFAULT_TABLE_SIZE_ok])
  show "set (mg_members (maglev_from_iter weight_of authority hash_one es)) \<subseteq> set es"
    "es \<noteq> [] \<Longrightarrow> mg_members (maglev_from_iter weight_of authority hash_one es) \<noteq> []"
    by (rule maglev_from_iter_members, erule maglev_from_iter_members)
  have same: "snd (maglev_next_item random h b) = b" by (simp add: maglev_next_item_def Let_def)
  assume inv: "mg_inv b"
  show "mg_inv (snd (maglev_next_item random h b))"
    "set (mg_members (snd (maglev_next_item random h b))) = set (mg_members b)"
    using inv by (simp_all add: same)
  have empty: "maglev_next_item random h b = (None, b)" if "mg_items b = []"
    using that by (simp add: maglev_next_item_def slice_get_def)
  show "fst (maglev_next_item random h b) = Some e \<Longrightarrow> e \<in> set (mg_members b)"
    "mg_members b \<noteq> [] \<Longrightarrow> fst (maglev_next_item random h b) \<noteq> None"
    using maglev_next_item_selects [OF inv, of random h] empty
    by (cases "mg_items b = []"; force simp: mg_members_def)+
qed

section \<open>The order of the endpoints does not matter\<close>

lemma sort_key_inj_unique:
  assumes "mset xs = mset ys" "inj_on f (set xs)"
  shows "sort_key f xs = sort_key f ys"
proof (rule properties_for_sort_key)
  show "mset (sort_key f ys) = mset xs" using assms(1) by simp
  show "sorted (map f (sort_key f ys))" by simp
  fix k assume "k \<in> set (sort_key f ys)"
  then have k: "k \<in> set xs" using assms(1) by (metis mset_eq_setD set_sort)
  have only: "filter (\<lambda>x. f k = f x) zs = filter (\<lambda>x. k = x) zs" if "set zs = set xs" for zs
    using that k assms(2) by (intro filter_cong) (auto simp: inj_on_def)
  have len: "length (filter (\<lambda>x. k = x) (sort_key f ys)) = length (filter (\<lambda>x. k = x) xs)"
    using assms(1) by (metis mset_filter mset_sort size_mset)
  have "set (sort_key f ys) = set xs" using assms(1) by (metis mset_eq_setD set_sort)
  then show "filter (\<lambda>x. f k = f x) (sort_key f ys) = filter (\<lambda>x. f k = f x) xs"
    using only [of xs] only [of "sort_key f ys"] len by (metis replicate_length_filter)
qed

lemma authority_sorting_key_eq: "authority_sorting_key s = authority_sorting_key t \<longleftrightarrow> lower s = lower t"
proof -
  have "authority_sorting_key u = map of_char (lower u)" for u by (simp add: authority_sorting_key_def)
  moreover have "inj (of_char :: char \<Rightarrow> nat)" by (rule inj_of_char)
  ultimately show ?thesis by (metis inj_map_eq_map)
qed

lemma with_size_total:
  assumes "collect_checked xs = (ys, t)" "b = with_size p authority hash_one xs"
  shows "unat t = total_weight_of weight (mg_items b)"
proof -
  have "mset (map (\<lambda>x. unat (weight x)) (mg_items b)) = mset (map (\<lambda>x. unat (weight x)) ys)"
    using with_size_items [OF assms(1), of p authority hash_one] by (simp add: assms(2))
  then show ?thesis using collect_checked_prefix(2) [OF assms(1)] by (metis sum_mset_sum_list)
qed

lemma heaviest_item:
  fixes xs :: "'e LbItem list"
  assumes "xs \<noteq> []"
  shows "\<exists>j<length xs. \<forall>x\<in>set xs. weight x \<le> weight (xs ! j)"
proof -
  have "Max (weight ` set xs) \<in> weight ` set xs" using assms by (intro Max_in) auto
  then obtain x where x: "Max (weight ` set xs) = weight x" "x \<in> set xs" by (rule imageE)
  then obtain j where j: "j < length xs" "xs ! j = x" by (metis in_set_conv_nth)
  have "weight y \<le> weight (xs ! j)" if "y \<in> set xs" for y
    unfolding j(2) x(1) [symmetric] using that by (intro Max_ge) auto
  then show ?thesis using j(1) by blast
qed

lemma maglev_table_facts:
  assumes "is_prime p = Some True" "p \<le> DEFAULT_TABLE_SIZE"
    and b: "b = with_size p authority hash_one xs"
    and items: "2 \<le> length (mg_items b)" "\<exists>x\<in>set (mg_items b). weight x \<noteq> 0"
  shows "length (mg_table b) = p"
    "\<forall>v\<in>set (mg_table b). v < length (mg_items b)"
    "length (mg_items b) \<le> p \<longrightarrow> (\<forall>k<length (mg_items b). k \<in> set (mg_table b))"
    "\<forall>j<length (mg_items b). (\<forall>x\<in>set (mg_items b). weight x \<le> weight (mg_items b ! j)) \<longrightarrow>
       (\<forall>k. count_list (mg_table b) k \<le> Suc (count_list (mg_table b) j))"
proof -
  have p: "prime_number p" "p \<le> 65537" using assms(1,2) by (simp_all add: is_prime_spec DEFAULT_TABLE_SIZE_def)
  obtain ys t where c: "collect_checked xs = (ys, t)" by fastforce
  obtain m where m: "iter_reduce fp_max (map (normalized t) (mg_items b)) = Some m"
      "mg_table b = TableBuilder_build (maglev_fill p authority hash_one (mg_items b) (f64_from_u32 t) m)"
    using with_size_table [OF c b items(1)] by blast
  have ne: "mg_items b \<noteq> []" using items(1) by auto
  show "length (mg_table b) = p" "\<forall>v\<in>set (mg_table b). v < length (mg_items b)"
    unfolding m(2) using maglev_fill_range [OF p ne] by blast+
  note t = with_size_total [OF c b]
  have t0: "t \<noteq> 0"
  proof
    assume "t = 0"
    then have "\<forall>x\<in>set (mg_items b). unat (weight x) = 0" using t by (simp add: sum_list_eq_0_iff)
    then show False using items(2) by (auto simp: unat_eq_zero)
  qed
  define tb where "tb = maglev_fill p authority hash_one (mg_items b) (f64_from_u32 t) m"
  note fair = maglev_fill_fair [OF p t t0 m(1) _ _ tb_def]
  obtain j where j: "j < length (mg_items b)" "\<forall>x\<in>set (mg_items b). weight x \<le> weight (mg_items b ! j)"
    using heaviest_item [OF ne] by blast
  have "builder_ok p tb" unfolding tb_def by (rule maglev_fill_ok [OF p])
  note full = full_table [OF this fair(1) [OF j]]
  have count: "count_list (mg_table b) k = entries tb k" for k using full(2) m(2) by (simp add: tb_def)
  show "length (mg_items b) \<le> p \<longrightarrow> (\<forall>k<length (mg_items b). k \<in> set (mg_table b))"
    using fair(3) [OF j] count by (metis count_list_0_iff less_numeral_extra(3))
  show "\<forall>j<length (mg_items b). (\<forall>x\<in>set (mg_items b). weight x \<le> weight (mg_items b ! j)) \<longrightarrow>
       (\<forall>k. count_list (mg_table b) k \<le> Suc (count_list (mg_table b) j))"
    using fair(2) count by simp
qed

section \<open>Properties\<close>

text \<open>C12: The Maglev lookup table is complete and fair. Let the balancer have two items or more, not all
  of weight zero, and a prime table size up to the default. Then the table has exactly its size
  of entries, all of which name an item; if there are no more items than entries, every item has
  one; and no item has more than one entry more than an item of the largest weight. The loop that
  builds the table in floating point arithmetic never leaves an entry unassigned.\<close>

theorem maglev_table:
  assumes "is_prime p = Some True" "p \<le> DEFAULT_TABLE_SIZE" "b = with_size p authority hash_one xs"
    and "2 \<le> length (mg_items b)" "\<exists>x\<in>set (mg_items b). weight x \<noteq> 0"
  shows "length (mg_table b) = p \<and>
    (\<forall>v\<in>set (mg_table b). v < length (mg_items b)) \<and>
    (length (mg_items b) \<le> p \<longrightarrow> (\<forall>k<length (mg_items b). k \<in> set (mg_table b))) \<and>
    (\<forall>j<length (mg_items b). (\<forall>x\<in>set (mg_items b). weight x \<le> weight (mg_items b ! j)) \<longrightarrow>
       (\<forall>k. count_list (mg_table b) k \<le> Suc (count_list (mg_table b) j)))"
  by (intro conjI maglev_table_facts [OF assms])

definition demo_hash :: "u64 \<Rightarrow> str \<Rightarrow> u64" where
  "demo_hash seed s = seed + of_nat (length s)"

definition demo_items :: "str LbItem list" where
  "demo_items = [LbItem_new 1 ''b'', LbItem_new 3 ''a'']"

lemma demo_items_collected: "collect_checked demo_items = (demo_items, 4)"
  by (simp add: collect_checked_def demo_items_def fits_u32_def checked_add_u32_def)

lemma demo_maglev_items:
  "mg_items (with_size 7 id demo_hash demo_items) = [LbItem_new 3 ''a'', LbItem_new 1 ''b'']"
  unfolding with_size_items [OF demo_items_collected]
  by (simp add: demo_items_def authority_sorting_key_def to_ascii_lowercase_def)

theorem maglev_table_witness:
  "length (mg_table (with_size 7 id demo_hash demo_items)) = 7 \<and>
   {0, 1} \<subseteq> set (mg_table (with_size 7 id demo_hash demo_items)) \<and>
   count_list (mg_table (with_size 7 id demo_hash demo_items)) 1 \<le>
     Suc (count_list (mg_table (with_size 7 id demo_hash demo_items)) 0)"
proof -
  let ?b = "with_size 7 id demo_hash demo_items"
  have "is_prime 7 = Some True"
    by (simp add: is_prime_def next_power_of_two_def log2_nat.simps trailing_zeros.simps is_prime_loop.simps)
  moreover have "(7 :: nat) \<le> DEFAULT_TABLE_SIZE" by (simp add: DEFAULT_TABLE_SIZE_def)
  moreover have "2 \<le> length (mg_items ?b)" "\<exists>x\<in>set (mg_items ?b). weight x \<noteq> 0"
    unfolding demo_maglev_items by simp_all
  moreover have "\<forall>x\<in>set (mg_items ?b). weight x \<le> weight (mg_items ?b ! 0)"
    unfolding demo_maglev_items by simp
  ultimately show ?thesis
    using maglev_table [of 7 ?b id demo_hash demo_items] unfolding demo_maglev_items by auto
qed

text \<open>C23: The Maglev balancer is consistent: if the authorities of the endpoints differ in more than
  the case of letters and the total weight fits 32 bits, then the order in which the endpoints are
  given makes no difference to the balancer, so that instances that learn of the same endpoints
  in different orders send a request to the same one.\<close>

theorem maglev_order_independent:
  assumes "mset es = mset es'" "inj_on (\<lambda>e. lower (authority e)) (set es)"
    and "total_weight_of weight_of es < 2 ^ 32"
  shows "maglev_from_iter weight_of authority hash_one es = maglev_from_iter weight_of authority hash_one es'"
proof -
  let ?xs = "items_of weight_of es" and ?ys = "items_of weight_of es'"
  let ?key = "\<lambda>y. authority_sorting_key (authority (item y))"
  have tot: "total_weight_of weight ?xs = total_weight_of weight ?ys"
    using assms(1) by (metis (no_types, lifting) comp_def map_map mset_map sum_mset_sum_list)
  have "total_weight_of weight ?xs < 2 ^ 32" using assms(3) by (simp add: comp_def)
  then obtain t t' where c: "collect_checked ?xs = (?xs, t)" "collect_checked ?ys = (?ys, t')"
      "unat t = total_weight_of weight ?xs" "unat t' = total_weight_of weight ?ys"
    using collect_checked_all [of ?xs] collect_checked_all [of ?ys] tot by auto
  have "t = t'" using c(3,4) tot by (simp add: word_unat_eq_iff)
  moreover have "sort_key ?key ?xs = sort_key ?key ?ys"
    using assms(1,2) by (intro sort_key_inj_unique) (auto simp: inj_on_def authority_sorting_key_eq)
  ultimately show ?thesis
    using c(1,2) by (simp add: maglev_from_iter_def MaglevBalancer_new_def with_size_def)
qed

theorem maglev_order_independent_witness:
  "maglev_from_iter (\<lambda>e. of_nat (length e)) id demo_hash [''b'', ''ac''] =
   maglev_from_iter (\<lambda>e. of_nat (length e)) id demo_hash [''ac'', ''b'']"
proof (rule maglev_order_independent)
  show "mset [''b'', ''ac''] = mset [''ac'', ''b'']" by simp
  show "inj_on (\<lambda>e. lower (id e)) (set [''b'', ''ac''])" by (simp add: to_ascii_lowercase_def)
  show "total_weight_of (\<lambda>e. of_nat (length e)) [''b'', ''ac''] < 2 ^ 32" by simp
qed

text \<open>The primality test that guards the size of the table at compile time terminates on every
  input and decides primality.\<close>

theorem is_prime_correct: "is_prime n = Some (prime_number n)"
  by (rule is_prime_spec)

end
