(* ===== verification/Ring_Hash.thy ===== *)
theory Ring_Hash
  imports Weighted_Items "HOL-Library.Multiset"
begin

text \<open>
  The ring hash balancer of \<^verbatim>\<open>clusters/balancers/ring.rs\<close>: the ring of slots in proportion to
  the weights of the endpoints, computed in floating point arithmetic, and the selection by binary
  search. The hash of an authority and a slot number is a parameter, as is the accessor of an
  endpoint's authority. The loop that adds slots is a partial function; a construction that does not
  return is \<^const>\<open>None\<close>, and is shown not to happen.
\<close>

section \<open>The ring\<close>

record 'e RingHashBalancer =
  rh_items :: "'e LbItem list"
  rh_ring :: "(u64 \<times> nat) list"

definition DEFAULT_MIN_RING_SIZE :: u32 where
  "DEFAULT_MIN_RING_SIZE = 1024"

definition DEFAULT_MAX_RING_SIZE :: u32 where
  "DEFAULT_MAX_RING_SIZE = 1024 * 1024 * 8"

text \<open>The innermost loop: slots are added while fewer than the target are there.\<close>

partial_function (option) add_slots ::
  "(nat \<Rightarrow> u64) \<Rightarrow> nat \<Rightarrow> f64 \<Rightarrow> nat \<Rightarrow> f64 \<Rightarrow> (u64 \<times> nat) list \<Rightarrow> (f64 \<times> (u64 \<times> nat) list) option" where
  "add_slots slot_hash index target_slots slot_index current_slots ring =
     (if fp_less current_slots target_slots
      then add_slots slot_hash index target_slots (slot_index + 1) (f64_add current_slots (Fin 1))
             (ring @ [(slot_hash slot_index, index)])
      else Some (current_slots, ring))"

text \<open>The loop over the items with their normalized weights.\<close>

fun ring_loop ::
  "(str \<Rightarrow> nat \<Rightarrow> u64) \<Rightarrow> f64 \<Rightarrow> nat \<Rightarrow> (str \<times> f64) list \<Rightarrow> f64 \<Rightarrow> f64 \<Rightarrow> (u64 \<times> nat) list
     \<Rightarrow> (u64 \<times> nat) list option" where
  "ring_loop hash_slot scale index [] current_slots target_slots ring = Some ring"
| "ring_loop hash_slot scale index ((item_key, w) # rest) current_slots target_slots ring =
     (let item_slots = f64_mul w scale;
          target_slots = f64_add target_slots item_slots
      in case add_slots (hash_slot item_key) index target_slots 0 current_slots ring of
           None \<Rightarrow> None
         | Some (current_slots, ring) \<Rightarrow>
             ring_loop hash_slot scale (index + 1) rest current_slots target_slots ring)"

definition ring_scale :: "u32 \<Rightarrow> u32 \<Rightarrow> f64 \<Rightarrow> f64" where
  "ring_scale min_ring_size max_ring_size minimum_weight =
     fp_min (f64_div (fp_integral ceiling (f64_mul minimum_weight (f64_from_u32 min_ring_size))) minimum_weight)
       (f64_from_u32 max_ring_size)"

definition new_with_settings ::
  "('e \<Rightarrow> str) \<Rightarrow> (str \<Rightarrow> nat \<Rightarrow> u64) \<Rightarrow> 'e LbItem list \<Rightarrow> u32 \<Rightarrow> u32 \<Rightarrow> 'e RingHashBalancer option" where
  "new_with_settings authority hash_slot xs min_ring_size max_ring_size =
     (let (ys, total_weight) = collect_checked xs;
          normalized_weights = map (\<lambda>y. f64_div (f64_from_u32 (weight y)) (f64_from_u32 total_weight)) ys
      in case iter_reduce fp_min normalized_weights of
           None \<Rightarrow> Some \<lparr>rh_items = ys, rh_ring = []\<rparr>
         | Some minimum_weight \<Rightarrow>
             (case ring_loop hash_slot (ring_scale min_ring_size max_ring_size minimum_weight) 0
                     (zip (map (\<lambda>y. authority (item y)) ys) normalized_weights) (Fin 0) (Fin 0) [] of
                None \<Rightarrow> None
              | Some ring \<Rightarrow> Some \<lparr>rh_items = ys, rh_ring = sort_key fst ring\<rparr>))"

definition RingHashBalancer_new ::
  "('e \<Rightarrow> str) \<Rightarrow> (str \<Rightarrow> nat \<Rightarrow> u64) \<Rightarrow> 'e LbItem list \<Rightarrow> 'e RingHashBalancer option" where
  "RingHashBalancer_new authority hash_slot xs =
     new_with_settings authority hash_slot xs DEFAULT_MIN_RING_SIZE DEFAULT_MAX_RING_SIZE"

definition ring_from_iter ::
  "('e \<Rightarrow> u32) \<Rightarrow> ('e \<Rightarrow> str) \<Rightarrow> (str \<Rightarrow> nat \<Rightarrow> u64) \<Rightarrow> 'e list \<Rightarrow> 'e RingHashBalancer option" where
  "ring_from_iter weight_of authority hash_slot es =
     RingHashBalancer_new authority hash_slot (items_of weight_of es)"

section \<open>The selection\<close>

text \<open>
  \<^verbatim>\<open>slice::binary_search_by_key\<close>: the loop halves the range that starts at \<open>base\<close>; the result
  is the index of a match on the right, the index where the key could be inserted on the left.
\<close>

function search_loop :: "u64 list \<Rightarrow> u64 \<Rightarrow> nat \<Rightarrow> nat \<Rightarrow> nat" where
  "search_loop keys key base len =
     (if len > 1
      then let half = len div 2; mid = base + half
           in search_loop keys key (if keys ! mid > key then base else mid) (len - half)
      else base)"
  by auto
termination by (relation "measure (\<lambda>(_, _, _, len). len)") auto

declare search_loop.simps [simp del]

definition binary_search :: "u64 list \<Rightarrow> u64 \<Rightarrow> nat + nat" where
  "binary_search keys key =
     (if keys = [] then Inl 0
      else let base = search_loop keys key 0 (length keys)
           in if keys ! base = key then Inr base
              else Inl (base + (if keys ! base < key then 1 else 0)))"

text \<open>
  \<open>random\<close> is the number that the generator of the thread produces, used if the request has no
  hash. The decrement of the length wraps if the ring is empty.
\<close>

definition ring_next_item ::
  "u64 \<Rightarrow> u64 option \<Rightarrow> 'e RingHashBalancer \<Rightarrow> 'e option \<times> 'e RingHashBalancer" where
  "ring_next_item random hash b =
     (if length (rh_items b) \<le> 1 then (map_option item (slice_get (rh_items b) 0), b)
      else
        let h = (case hash of Some h \<Rightarrow> h | None \<Rightarrow> random);
            ring_index =
              (case binary_search (map fst (rh_ring b)) h of
                 Inr matching_index \<Rightarrow> matching_index
               | Inl closest_index \<Rightarrow> min closest_index ((length (rh_ring b) + (2 ^ 64 - 1)) mod 2 ^ 64))
        in (case slice_get (rh_ring b) ring_index of
              None \<Rightarrow> None
            | Some (_, index) \<Rightarrow> map_option item (slice_get (rh_items b) index), b))"

section \<open>Binary search\<close>

text \<open>The loop ends at the last key that is not above the one searched for, or at the start.\<close>

lemma search_loop_spec:
  assumes "sorted keys" "base + len \<le> length keys" "0 < len"
    and "base = 0 \<or> keys ! base \<le> key" "\<forall>i<length keys. base + len \<le> i \<longrightarrow> key < keys ! i"
  shows "search_loop keys key base len < length keys \<and>
    (search_loop keys key base len = 0 \<or> keys ! search_loop keys key base len \<le> key) \<and>
    (\<forall>i<length keys. search_loop keys key base len < i \<longrightarrow> key < keys ! i)"
  using assms(2-)
proof (induction len arbitrary: base rule: less_induct)
  case (less len)
  show ?case
  proof (cases "len > 1")
    case True
    define half mid where "half = len div 2" and "mid = base + half"
    have bounds: "0 < half" "half < len" "mid < length keys" "mid \<le> base + (len - half)"
      using True less.prems(1) by (auto simp: half_def mid_def)
    have step: "search_loop keys key base len =
        search_loop keys key (if keys ! mid > key then base else mid) (len - half)"
      using True by (subst search_loop.simps) (simp add: Let_def half_def mid_def)
    have above: "key < keys ! i" if "keys ! mid > key" "mid \<le> i" "i < length keys" for i
      using sorted_nth_mono [OF assms(1) that(2,3)] that(1) by order
    show ?thesis
    proof (cases "keys ! mid > key")
      case True
      have "\<forall>i<length keys. base + (len - half) \<le> i \<longrightarrow> key < keys ! i"
        using above [OF True] bounds(4) by (meson le_trans)
      moreover have "len - half < len" "base + (len - half) \<le> length keys" "0 < len - half"
        using bounds less.prems(1) by auto
      ultimately show ?thesis
        unfolding step using less.IH [of "len - half" base] less.prems(3) True by simp
    next
      case False
      have eq: "mid + (len - half) = base + len" using bounds by (simp add: mid_def)
      moreover have "len - half < len" "0 < len - half" using bounds by auto
      moreover have "mid = 0 \<or> keys ! mid \<le> key" using False by (simp add: not_less)
      ultimately show ?thesis
        unfolding step using less.IH [of "len - half" mid] less.prems(1,4) False by simp
    qed
  next
    case False
    then have "search_loop keys key base len = base" "len = 1"
      using less.prems(2) by (auto simp: search_loop.simps)
    then show ?thesis using less.prems by (auto simp: Suc_le_eq)
  qed
qed

text \<open>What the documentation of the standard library promises: a match if there is one, and otherwise
  the place that keeps the keys sorted. This implementation finds the last match.\<close>

lemma binary_search_spec:
  assumes "sorted keys"
  shows "binary_search keys key = Inr i \<Longrightarrow> i < length keys \<and> keys ! i = key \<and>
      (\<forall>j<length keys. i < j \<longrightarrow> key < keys ! j)"
    "binary_search keys key = Inl i \<Longrightarrow> i \<le> length keys \<and> (\<forall>j<i. keys ! j < key) \<and>
      (\<forall>j<length keys. i \<le> j \<longrightarrow> key < keys ! j)"
proof -
  define base where "base = search_loop keys key 0 (length keys)"
  have spec: "base < length keys \<and> (base = 0 \<or> keys ! base \<le> key) \<and>
      (\<forall>j<length keys. base < j \<longrightarrow> key < keys ! j)" if "keys \<noteq> []"
    unfolding base_def using that by (intro search_loop_spec [OF assms]) auto
  show "i < length keys \<and> keys ! i = key \<and> (\<forall>j<length keys. i < j \<longrightarrow> key < keys ! j)"
    if "binary_search keys key = Inr i"
    using that spec by (auto simp: binary_search_def base_def [symmetric] Let_def split: if_splits)
  have below: "keys ! j \<le> keys ! base" if "j \<le> base" "base < length keys" for j
    using sorted_nth_mono [OF assms that] .
  show "i \<le> length keys \<and> (\<forall>j<i. keys ! j < key) \<and> (\<forall>j<length keys. i \<le> j \<longrightarrow> key < keys ! j)"
    if "binary_search keys key = Inl i"
  proof (cases "keys = []")
    case False
    note sp = spec [OF False]
    show ?thesis
    proof (cases "keys ! base < key")
      case True
      then have "i = Suc base"
        using that False by (simp add: binary_search_def base_def [symmetric] Let_def split: if_splits)
      then show ?thesis using sp True below by (auto simp: less_Suc_eq_le intro: le_less_trans)
    next
      case g: False
      then have "keys ! base \<noteq> key" "i = base"
        using that False by (auto simp: binary_search_def base_def [symmetric] Let_def split: if_splits)
      then have "base = 0" "key < keys ! base" using sp g by auto
      then show ?thesis using sp \<open>i = base\<close> by (auto simp: Suc_le_eq)
    qed
  qed (use that in \<open>simp add: binary_search_def\<close>)
qed

section \<open>The slots\<close>

fun slot_ceil :: "f64 \<Rightarrow> nat" where
  "slot_ceil (Fin x) = nat \<lceil>x\<rceil>"
| "slot_ceil _ = 0"

text \<open>
  What the loops compute: the targets add up the slots that the weights call for, and an item gets
  the slots between its predecessor's target and its own, rounded up.
\<close>

fun ring_slots :: "(str \<Rightarrow> nat \<Rightarrow> u64) \<Rightarrow> f64 \<Rightarrow> nat \<Rightarrow> (str \<times> f64) list \<Rightarrow> f64 \<Rightarrow> (u64 \<times> nat) list" where
  "ring_slots hash_slot scale index [] target = []"
| "ring_slots hash_slot scale index ((item_key, w) # rest) target =
     (let target' = f64_add target (f64_mul w scale)
      in map (\<lambda>s. (hash_slot item_key s, index)) [0..<slot_ceil target' - slot_ceil target] @
         ring_slots hash_slot scale (index + 1) rest target')"

lemma f64_add_one: "c < 2 ^ 53 \<Longrightarrow> f64_add (Fin (of_nat c)) (Fin 1) = Fin (of_nat (Suc c))"
proof -
  assume "c < 2 ^ 53"
  then have "int (Suc c) \<le> 2 ^ 53" by simp
  then have "f64_round (of_int (int (Suc c))) = Fin (of_int (int (Suc c)))" by (intro f64_round_int) simp
  then show ?thesis by (simp add: add.commute)
qed

lemma add_slots_returns:
  assumes "0 \<le> T" "T \<le> 2 ^ 52"
  shows "add_slots f index (Fin T) s (Fin (of_nat c)) ring =
    Some (Fin (of_nat (max c (nat \<lceil>T\<rceil>))), ring @ map (\<lambda>k. (f (s + k), index)) [0..<nat \<lceil>T\<rceil> - c])"
proof (induction "nat \<lceil>T\<rceil> - c" arbitrary: c s ring)
  case 0
  then have "\<not> fp_less (Fin (of_nat c)) (Fin T)"
    using assms(1) by simp linarith
  then show ?case using 0 by (subst add_slots.simps) simp
next
  case (Suc d)
  then have less: "c < nat \<lceil>T\<rceil>" and d: "d = nat \<lceil>T\<rceil> - Suc c" by simp_all
  then have lt: "fp_less (Fin (of_nat c)) (Fin T)" by (simp add: less_ceiling_iff zless_nat_eq_int_zless)
  have "\<lceil>T\<rceil> \<le> 2 ^ 52" using assms(2) by (simp add: ceiling_le_iff)
  then have "nat \<lceil>T\<rceil> \<le> nat (2 ^ 52)" by (rule nat_mono)
  then have "c < 2 ^ 53" using less by simp
  have list: "[0..<nat \<lceil>T\<rceil> - c] = 0 # map Suc [0..<d]"
    using less d by (simp add: upt_conv_Cons map_Suc_upt Suc_diff_Suc)
  have "max (Suc c) (nat \<lceil>T\<rceil>) = max c (nat \<lceil>T\<rceil>)" using less by simp
  then have "add_slots f index (Fin T) (s + 1) (Fin (of_nat (Suc c))) (ring @ [(f s, index)]) =
      Some (Fin (of_nat (max c (nat \<lceil>T\<rceil>))), (ring @ [(f s, index)]) @ map (\<lambda>k. (f (s + 1 + k), index)) [0..<d])"
    using Suc.hyps(1) [OF d, of "s + 1" "ring @ [(f s, index)]"] d by simp
  then show ?case
    using lt f64_add_one [OF \<open>c < 2 ^ 53\<close>] by (subst add_slots.simps) (simp add: list comp_def)
qed

text \<open>One item: its slots are finite and the target grows.\<close>

lemma f64_representable_nat: "n \<le> 2 ^ 53 \<Longrightarrow> f64_representable (of_nat n)"
  using f64_representable_int [of "int n"] by simp

lemma next_target:
  assumes "0 \<le> w" "w \<le> 1" "0 \<le> sc" "sc \<le> 2 ^ 23" "f64_representable T" "0 \<le> T" "T \<le> of_nat (n * 2 ^ 23)"
    and "Suc n * 2 ^ 23 \<le> 2 ^ 52"
  shows "\<exists>T'. f64_add (Fin T) (f64_mul (Fin w) (Fin sc)) = Fin T' \<and> f64_representable T' \<and>
    T \<le> T' \<and> T' \<le> of_nat (Suc n * 2 ^ 23) \<and> T' \<le> 2 ^ 52"
proof -
  have "w * sc \<le> 1 * 2 ^ 23" using assms(1-4) by (intro mult_mono) auto
  then have "w * sc \<le> of_nat (2 ^ 23)" by simp
  then obtain x where x: "f64_round (w * sc) = Fin x" "0 \<le> x" "x \<le> of_nat (2 ^ 23)"
    using f64_round_le [OF f64_representable_nat [of "2 ^ 23"], of "w * sc"] assms(1,3) by auto
  have sum: "T + x \<le> of_nat (Suc n * 2 ^ 23)" using assms(7) x(3) by simp
  have "Suc n * 2 ^ 23 \<le> 2 ^ 53" using assms(8) by simp
  then obtain T' where T': "f64_round (T + x) = Fin T'" "T' \<le> of_nat (Suc n * 2 ^ 23)"
    using f64_round_le [OF f64_representable_nat, of "Suc n * 2 ^ 23" "T + x"] sum assms(6) x(2) by auto
  have "T \<le> T'" using f64_round_ge [OF assms(5,6), of "T + x"] x(2) T'(1) by auto
  moreover have "(of_nat (Suc n * 2 ^ 23) :: rat) \<le> of_nat (2 ^ 52)" using assms(8) by (simp only: of_nat_le_iff)
  then have "T' \<le> 2 ^ 52" using T'(2) by simp
  ultimately show ?thesis using x(1) T' f64_round_representable [OF T'(1)] by auto
qed

lemma ring_loop_returns:
  assumes "\<forall>(k, w)\<in>set kws. \<exists>r. w = Fin r \<and> 0 \<le> r \<and> r \<le> 1" "0 \<le> sc" "sc \<le> 2 ^ 23"
    and "f64_representable T" "0 \<le> T" "T \<le> of_nat (n * 2 ^ 23)" "(n + length kws) * 2 ^ 23 \<le> 2 ^ 52"
  shows "ring_loop hash_slot (Fin sc) index kws (Fin (of_nat (nat \<lceil>T\<rceil>))) (Fin T) ring =
    Some (ring @ ring_slots hash_slot (Fin sc) index kws (Fin T))"
  using assms
proof (induction kws arbitrary: T n index ring)
  case (Cons kw kws)
  obtain k r where kw: "kw = (k, Fin r)" "0 \<le> r" "r \<le> 1" using Cons.prems(1) by (cases kw) auto
  have "Suc n * 2 ^ 23 \<le> (n + length (kw # kws)) * 2 ^ 23" by (intro mult_le_mono1) simp
  then have "Suc n * 2 ^ 23 \<le> (2 :: nat) ^ 52" using Cons.prems(7) by (rule le_trans)
  then obtain T' where T': "f64_add (Fin T) (f64_mul (Fin r) (Fin sc)) = Fin T'" "f64_representable T'"
      "T \<le> T'" "T' \<le> of_nat (Suc n * 2 ^ 23)" "T' \<le> 2 ^ 52"
    using next_target [OF kw(2,3) Cons.prems(2-6)] by blast
  have pos: "0 \<le> T'" using Cons.prems(5) T'(3) by simp
  have "max (nat \<lceil>T\<rceil>) (nat \<lceil>T'\<rceil>) = nat \<lceil>T'\<rceil>" using ceiling_mono [OF T'(3)] by simp
  then have slots: "add_slots (hash_slot k) index (Fin T') 0 (Fin (of_nat (nat \<lceil>T\<rceil>))) ring =
      Some (Fin (of_nat (nat \<lceil>T'\<rceil>)), ring @ map (\<lambda>s. (hash_slot k s, index)) [0..<nat \<lceil>T'\<rceil> - nat \<lceil>T\<rceil>])"
    using add_slots_returns [OF pos T'(5), of "hash_slot k" index 0 "nat \<lceil>T\<rceil>" ring] by simp
  have "(Suc n + length kws) * 2 ^ 23 \<le> 2 ^ 52" using Cons.prems(7) by simp
  note IH = Cons.IH [OF _ Cons.prems(2,3) T'(2) pos T'(4) this]
  show ?case
    unfolding kw(1) ring_loop.simps ring_slots.simps Let_def T'(1) slots
    using IH Cons.prems(1) by simp
qed simp

section \<open>The scale\<close>

lemma f64_representable_inverse_power: "n \<le> 1000 \<Longrightarrow> f64_representable (1 / 2 ^ n)"
proof -
  assume "n \<le> 1000"
  have eq: "(1 / 2 ^ n :: rat) = of_int 1 * 2 powi (- int n)"
    by (simp add: power_int_minus field_simps)
  have "(1 / 2 ^ n :: rat) \<le> 1" by (simp add: divide_le_eq_1)
  also have "(1 :: rat) < 2 powi (1023 + 1)" using powi_two_less_iff [of 0 "1023 + 1"] by simp
  finally have "\<bar>1 / 2 ^ n :: rat\<bar> < 2 powi (1023 + 1)" by simp
  then show ?thesis
    unfolding representable_def using eq \<open>n \<le> 1000\<close> by (intro conjI exI [of _ 1] exI [of _ "- int n"]) auto
qed

lemma ring_scale_range:
  assumes "0 \<le> m" "m \<le> 1"
  shows "\<exists>sc. ring_scale DEFAULT_MIN_RING_SIZE DEFAULT_MAX_RING_SIZE (Fin m) = Fin sc \<and>
    0 \<le> sc \<and> sc \<le> 2 ^ 23 \<and> (1 / 2 ^ 32 \<le> m \<longrightarrow> 1 \<le> sc)"
proof -
  have sizes: "f64_from_u32 DEFAULT_MIN_RING_SIZE = Fin 1024" "f64_from_u32 DEFAULT_MAX_RING_SIZE = Fin (2 ^ 23)"
    by (simp_all add: f64_from_u32_def DEFAULT_MIN_RING_SIZE_def DEFAULT_MAX_RING_SIZE_def)
  obtain y where y: "f64_round (m * 1024) = Fin y" "0 \<le> y"
    using f64_round_le [OF f64_representable_nat [of 1024], of "m * 1024"] assms by auto
  show ?thesis
  proof (cases "m = 0")
    case True
    then show ?thesis by (simp add: ring_scale_def sizes fp_min_def)
  next
    case False
    then have pos: "0 < m" using assms(1) by simp
    define q where "q = f64_round (of_int \<lceil>y\<rceil> / m)"
    have ceil: "0 \<le> \<lceil>y\<rceil>" using y(2) by linarith
    have q0: "q = PosInf \<or> (\<exists>v\<ge>0. q = Fin v)"
      unfolding q_def using f64_round_ge [of 0 "of_int \<lceil>y\<rceil> / m"] f64_representable_int [of 0] pos ceil by simp
    have q1: "q = PosInf \<or> (\<exists>v\<ge>1. q = Fin v)" if "1 / 2 ^ 32 \<le> m"
    proof -
      have "1 / 2 ^ 22 \<le> m * 1024" using that by simp
      then have "1 / 2 ^ 22 \<le> y"
        using f64_round_ge [OF f64_representable_inverse_power [of 22], of "m * 1024"] y(1) by auto
      then have "0 < y" by (rule less_le_trans [rotated]) simp
      then have "1 \<le> \<lceil>y\<rceil>" by linarith
      then have "(1 :: rat) \<le> of_int \<lceil>y\<rceil>" by simp
      then have "m \<le> of_int \<lceil>y\<rceil>" using assms(2) by (rule order_trans [rotated])
      then have "1 \<le> of_int \<lceil>y\<rceil> / m" using pos by (simp add: le_divide_eq_1_pos)
      then show ?thesis unfolding q_def using f64_round_ge [of 1] f64_representable_int [of 1] by simp
    qed
    have "ring_scale DEFAULT_MIN_RING_SIZE DEFAULT_MAX_RING_SIZE (Fin m) = fp_min q (Fin (2 ^ 23))"
      using y(1) False by (simp add: ring_scale_def sizes q_def)
    then show ?thesis using q0 q1 by (auto simp: fp_min_def)
  qed
qed

lemma normalized_ge:
  assumes "weight x \<noteq> 0" "t \<noteq> 0" "normalized t x = Fin y"
  shows "1 / 2 ^ 32 \<le> y"
proof -
  have frac: "(1 :: rat) / 2 ^ 32 \<le> of_int a / of_int b" if "1 \<le> a" "0 < b" "b \<le> 2 ^ 32" for a b :: int
  proof -
    have "(of_int b :: rat) \<le> of_int (2 ^ 32)" using that(3) by (simp only: of_int_le_iff)
    moreover have "1 * 2 ^ 32 \<le> of_int a * (2 ^ 32 :: rat)" using that(1) by (intro mult_right_mono) auto
    ultimately have "(of_int b :: rat) \<le> of_int a * 2 ^ 32" by simp
    then show ?thesis using that(2) by (simp add: field_simps)
  qed
  have "uint t \<le> 2 ^ 32" using uint_lt2p [of t] by simp
  moreover have "1 \<le> uint (weight x)" using uint_pos [OF assms(1)] by simp
  ultimately have le: "1 / 2 ^ 32 \<le> (of_int (uint (weight x)) / of_int (uint t) :: rat)"
    using uint_pos [OF assms(2)] by (intro frac)
  have "f64_round (of_int (uint (weight x)) / of_int (uint t)) = Fin y"
    using assms(3) f64_div_u32 [OF assms(2)] by metis
  then show ?thesis
    using f64_round_ge [OF f64_representable_inverse_power [of 32] _ le] by auto
qed

lemma foldl_fp_min:
  assumes "\<forall>x\<in>set xs. \<exists>r. f x = Fin r"
  shows "\<exists>m. foldl fp_min (Fin a) (map f xs) = Fin m \<and> (m = a \<or> Fin m \<in> f ` set xs)"
  using assms
proof (induction xs arbitrary: a)
  case (Cons x xs)
  obtain r where r: "f x = Fin r" using Cons.prems by auto
  have "fp_min (Fin a) (Fin r) = Fin (min a r)" by (simp add: fp_min_def min_def)
  moreover obtain m where "foldl fp_min (Fin (min a r)) (map f xs) = Fin m" "m = min a r \<or> Fin m \<in> f ` set xs"
    using Cons.IH [of "min a r"] Cons.prems by auto
  ultimately show ?case using r by (intro exI [of _ m]) (auto simp: min_def split: if_splits)
qed simp

lemma reduce_fp_min:
  assumes "xs \<noteq> []" "\<forall>x\<in>set xs. \<exists>r. f x = Fin r"
  shows "\<exists>m. iter_reduce fp_min (map f xs) = Some (Fin m) \<and> Fin m \<in> f ` set xs"
proof -
  obtain x xs' where xs: "xs = x # xs'" using assms(1) by (cases xs) auto
  then obtain a where a: "f x = Fin a" using assms(2) by auto
  obtain m where "foldl fp_min (Fin a) (map f xs') = Fin m" "m = a \<or> Fin m \<in> f ` set xs'"
    using foldl_fp_min [of xs' f a] assms(2) xs by auto
  then show ?thesis using xs a by (intro exI [of _ m]) (auto simp: iter_reduce_def image_iff)
qed

section \<open>The constructor\<close>

lemma ring_slots_index:
  "(h, i) \<in> set (ring_slots hash_slot scale index kws t) \<Longrightarrow> index \<le> i \<and> i < index + length kws"
proof (induction kws arbitrary: index t)
  case (Cons kw kws)
  obtain k w where "kw = (k, w)" by (cases kw)
  then show ?case using Cons by (fastforce simp: Let_def)
qed simp

lemma ring_slots_length:
  assumes "\<forall>(k, w)\<in>set kws. \<exists>r. w = Fin r \<and> 0 \<le> r \<and> r \<le> 1" "0 \<le> sc" "sc \<le> 2 ^ 23"
    and "f64_representable T" "0 \<le> T" "T \<le> of_nat (n * 2 ^ 23)" "(n + length kws) * 2 ^ 23 \<le> 2 ^ 52"
  shows "length (ring_slots hash_slot (Fin sc) index kws (Fin T)) + nat \<lceil>T\<rceil> \<le> (n + length kws) * 2 ^ 23"
  using assms
proof (induction kws arbitrary: T n index)
  case Nil
  then have "\<lceil>T\<rceil> \<le> int (n * 2 ^ 23)" by (simp only: ceiling_le_iff of_int_of_nat_eq)
  then show ?case by simp
next
  case (Cons kw kws)
  obtain k r where kw: "kw = (k, Fin r)" "0 \<le> r" "r \<le> 1" using Cons.prems(1) by (cases kw) auto
  have "Suc n * 2 ^ 23 \<le> (n + length (kw # kws)) * 2 ^ 23" by (intro mult_le_mono1) simp
  then have "Suc n * 2 ^ 23 \<le> (2 :: nat) ^ 52" using Cons.prems(7) by (rule le_trans)
  then obtain T' where T': "f64_add (Fin T) (f64_mul (Fin r) (Fin sc)) = Fin T'" "f64_representable T'"
      "T \<le> T'" "T' \<le> of_nat (Suc n * 2 ^ 23)" "T' \<le> 2 ^ 52"
    using next_target [OF kw(2,3) Cons.prems(2-6)] by blast
  have pos: "0 \<le> T'" using Cons.prems(5) T'(3) by simp
  have sum: "(Suc n + length kws) * 2 ^ 23 \<le> 2 ^ 52" using Cons.prems(7) by simp
  have "nat \<lceil>T\<rceil> \<le> nat \<lceil>T'\<rceil>" using ceiling_mono [OF T'(3)] by simp
  moreover have "length (ring_slots hash_slot (Fin sc) (index + 1) kws (Fin T')) + nat \<lceil>T'\<rceil> \<le> (Suc n + length kws) * 2 ^ 23"
    using Cons.IH [OF _ Cons.prems(2,3) T'(2) pos T'(4) sum] Cons.prems(1) by simp
  ultimately show ?case
    unfolding kw(1) ring_slots.simps Let_def T'(1) by simp
qed

text \<open>Every endpoint of a positive weight that comes first gets a slot, so that the ring is not empty.\<close>

lemma ring_slots_nonempty:
  assumes "1 / 2 ^ 32 \<le> w" "w \<le> 1" "1 \<le> sc" "sc \<le> 2 ^ 23"
  shows "ring_slots hash_slot (Fin sc) index ((k, Fin w) # kws) (Fin 0) \<noteq> []"
proof -
  have w: "0 \<le> w" using assms(1) by (rule order_trans [rotated]) simp
  have "1 / 2 ^ 32 * 1 \<le> w * sc" using assms(1,3) w by (intro mult_mono) auto
  then have le: "1 / 2 ^ 32 \<le> w * sc" by simp
  have sc: "0 \<le> sc" using assms(3) by simp
  obtain T' where T': "f64_add (Fin 0) (f64_mul (Fin w) (Fin sc)) = Fin T'"
    using next_target [OF w assms(2) sc assms(4), of 0 0] f64_representable_nat [of 0] by auto
  obtain x where x: "f64_round (w * sc) = Fin x" "1 / 2 ^ 32 \<le> x"
    using f64_round_ge [OF f64_representable_inverse_power [of 32] _ le] T' by (cases "f64_round (w * sc)") auto
  have "f64_round x = Fin x" by (rule f64_exact [OF f64_round_representable [OF x(1)]])
  then have "T' = x" using T' x(1) by simp
  moreover have "0 < x" by (rule less_le_trans [OF _ x(2)]) simp
  ultimately have "0 < T'" by simp
  then have "0 < nat \<lceil>T'\<rceil>" by simp
  then show ?thesis unfolding ring_slots.simps Let_def T' by simp
qed

lemma ring_loop_NaN:
  assumes "\<forall>(k, w)\<in>set kws. w = NaN" "t = Fin 0 \<or> t = NaN"
  shows "ring_loop hash_slot scale index kws (Fin 0) t ring = Some ring"
  using assms
proof (induction kws arbitrary: t index)
  case (Cons kw kws)
  obtain k where kw: "kw = (k, NaN)" using Cons.prems(1) by (cases kw) auto
  have nan: "f64_add t (f64_mul NaN scale) = NaN" using Cons.prems(2) by auto
  have "add_slots (hash_slot k) index NaN 0 (Fin 0) ring = Some (Fin 0, ring)"
    by (subst add_slots.simps) simp
  then show ?case unfolding kw ring_loop.simps Let_def nan using Cons by simp
qed simp

abbreviation ring_scale_of :: "u32 \<Rightarrow> 'e LbItem list \<Rightarrow> f64" where
  "ring_scale_of t ys \<equiv> (case iter_reduce fp_min (map (normalized t) ys) of
     None \<Rightarrow> Fin 0 | Some m \<Rightarrow> ring_scale DEFAULT_MIN_RING_SIZE DEFAULT_MAX_RING_SIZE m)"

abbreviation ring_keys :: "('e \<Rightarrow> str) \<Rightarrow> u32 \<Rightarrow> 'e LbItem list \<Rightarrow> (str \<times> f64) list" where
  "ring_keys authority t ys \<equiv> zip (map (\<lambda>y. authority (item y)) ys) (map (normalized t) ys)"

lemma ring_new_positive:
  assumes c: "collect_checked xs = (ys, t)" and t: "t \<noteq> 0" and len: "length xs \<le> 2 ^ 29"
  shows "RingHashBalancer_new authority hash_slot xs =
      Some \<lparr>rh_items = ys, rh_ring = sort_key fst (ring_slots hash_slot (ring_scale_of t ys) 0 (ring_keys authority t ys) (Fin 0))\<rparr>"
    "length (ring_slots hash_slot (ring_scale_of t ys) 0 (ring_keys authority t ys) (Fin 0)) < 2 ^ 64"
    "\<forall>y\<in>set ys. weight y \<noteq> 0 \<Longrightarrow> ring_slots hash_slot (ring_scale_of t ys) 0 (ring_keys authority t ys) (Fin 0) \<noteq> []"
proof -
  note tot = collect_checked_prefix(2) [OF c]
  have fin: "\<exists>r. normalized t y = Fin r \<and> 0 \<le> r \<and> r \<le> 1" if "y \<in> set ys" for y
    using total_bounds_weight [OF tot that t] by blast
  have ne: "ys \<noteq> []" using tot t by (auto simp: unat_eq_zero)
  obtain m where m: "iter_reduce fp_min (map (normalized t) ys) = Some (Fin m)" "Fin m \<in> normalized t ` set ys"
    using reduce_fp_min [OF ne, of "normalized t"] fin by blast
  obtain y0 where y0: "Fin m = normalized t y0" "y0 \<in> set ys" using m(2) by (rule imageE)
  have mr: "0 \<le> m" "m \<le> 1" using fin [OF y0(2)] unfolding y0(1) [symmetric] by auto
  obtain sc where sc: "ring_scale DEFAULT_MIN_RING_SIZE DEFAULT_MAX_RING_SIZE (Fin m) = Fin sc" "0 \<le> sc" "sc \<le> 2 ^ 23"
      "1 / 2 ^ 32 \<le> m \<longrightarrow> 1 \<le> sc" using ring_scale_range [OF mr] by blast
  have scale: "ring_scale_of t ys = Fin sc" using m(1) sc(1) by simp
  let ?kws = "ring_keys authority t ys"
  have kws: "\<forall>(k, w)\<in>set ?kws. \<exists>r. w = Fin r \<and> 0 \<le> r \<and> r \<le> 1"
    using fin by (auto dest!: set_zip_rightD)
  have "length ys \<le> length xs" using collect_checked_prefix(1) [OF c] by (metis length_take min.cobounded1 nat_le_linear take_all)
  then have "length ys \<le> 2 ^ 29" using len by (rule le_trans)
  then have "length ys * 2 ^ 23 \<le> 2 ^ 29 * (2 :: nat) ^ 23" by (rule mult_le_mono1)
  then have bound: "(0 + length ?kws) * 2 ^ 23 \<le> (2 :: nat) ^ 52" by simp
  have zero: "f64_representable 0" "(0 :: rat) \<le> 0" "(0 :: rat) \<le> of_nat (0 * 2 ^ 23)"
    using f64_representable_nat [of 0] by simp_all
  note loop = ring_loop_returns [OF kws sc(2,3) zero bound, of hash_slot 0 "[]"]
  have "ring_loop hash_slot (Fin sc) 0 ?kws (Fin 0) (Fin 0) [] = Some (ring_slots hash_slot (Fin sc) 0 ?kws (Fin 0))"
    using loop by simp
  then show "RingHashBalancer_new authority hash_slot xs =
      Some \<lparr>rh_items = ys, rh_ring = sort_key fst (ring_slots hash_slot (ring_scale_of t ys) 0 ?kws (Fin 0))\<rparr>"
    unfolding scale using c m(1) sc(1) by (simp add: RingHashBalancer_new_def new_with_settings_def)
  show "length (ring_slots hash_slot (ring_scale_of t ys) 0 ?kws (Fin 0)) < 2 ^ 64"
    unfolding scale using ring_slots_length [OF kws sc(2,3) zero bound, of hash_slot 0] bound by simp
  show "ring_slots hash_slot (ring_scale_of t ys) 0 ?kws (Fin 0) \<noteq> []" if pos: "\<forall>y\<in>set ys. weight y \<noteq> 0"
  proof -
    have ge: "1 / 2 ^ 32 \<le> r" if "y \<in> set ys" "normalized t y = Fin r" for y r
      using normalized_ge [OF _ t that(2)] pos that(1) by blast
    obtain y ys' where ys: "ys = y # ys'" using ne by (cases ys) auto
    obtain r where r: "normalized t y = Fin r" "r \<le> 1" using fin [of y] ys by auto
    have sc1: "1 \<le> sc" using sc(4) ge [OF y0(2)] y0(1) by simp
    have rge: "1 / 2 ^ 32 \<le> r" using ge [OF _ r(1)] ys by simp
    have "?kws = (authority (item y), Fin r) # ring_keys authority t ys'" using ys r(1) by simp
    then show ?thesis unfolding scale using ring_slots_nonempty [OF rge r(2) sc1 sc(3)] by metis
  qed
qed

lemma ring_new_zero:
  assumes c: "collect_checked xs = (ys, 0)"
  shows "RingHashBalancer_new authority hash_slot xs = Some \<lparr>rh_items = ys, rh_ring = []\<rparr>"
proof -
  have "\<forall>y\<in>set ys. weight y = 0" using collect_checked_prefix(2) [OF c] by (simp add: unat_eq_zero)
  then have nan: "\<forall>y\<in>set ys. normalized 0 y = NaN" by (simp add: f64_from_u32_def)
  then have "ring_loop hash_slot s 0 (ring_keys authority 0 ys) (Fin 0) (Fin 0) [] = Some []" for s
    by (intro ring_loop_NaN) (auto dest!: set_zip_rightD)
  then show ?thesis
    using c by (simp add: RingHashBalancer_new_def new_with_settings_def Let_def split: option.splits)
qed

section \<open>Selection\<close>

text \<open>
  Which slot serves a hash, without a search: the last slot with the same hash if there is one,
  otherwise the first with a larger hash, and the last slot of the ring if there is none.
\<close>

definition ring_owner :: "u64 \<Rightarrow> (u64 \<times> nat) list \<Rightarrow> u64 \<times> nat" where
  "ring_owner h ring =
     (case filter (\<lambda>s. fst s = h) ring of
        s # ss \<Rightarrow> last (s # ss)
      | [] \<Rightarrow> (case filter (\<lambda>s. h < fst s) ring of s # _ \<Rightarrow> s | [] \<Rightarrow> last ring))"

lemma filter_last_index:
  assumes "i < length xs" "P (xs ! i)" "\<forall>j<length xs. i < j \<longrightarrow> \<not> P (xs ! j)"
  shows "filter P xs \<noteq> []" "last (filter P xs) = xs ! i"
proof -
  have "filter P (drop (Suc i) xs) = []"
    using assms(3) by (auto simp: filter_empty_conv in_set_conv_nth)
  then have "filter P xs = filter P (take i xs) @ [xs ! i]"
    using assms(1,2) by (subst id_take_nth_drop [OF assms(1)]) simp
  then show "filter P xs \<noteq> []" "last (filter P xs) = xs ! i" by simp_all
qed

lemma filter_first_index:
  assumes "i < length xs" "P (xs ! i)" "\<forall>j<i. \<not> P (xs ! j)"
  shows "\<exists>ys. filter P xs = xs ! i # ys"
proof -
  have "filter P (take i xs) = []"
    using assms(1,3) by (auto simp: filter_empty_conv in_set_conv_nth)
  then show ?thesis using assms(1,2) by (subst id_take_nth_drop [OF assms(1)]) simp
qed

lemma ring_search_owner:
  assumes "sorted (map fst ring)" "ring \<noteq> []" "length ring < 2 ^ 64"
  shows "\<exists>i<length ring. (case binary_search (map fst ring) h of Inr i \<Rightarrow> i
      | Inl i \<Rightarrow> min i ((length ring + (2 ^ 64 - 1)) mod 2 ^ 64)) = i \<and> ring ! i = ring_owner h ring"
proof -
  have "length ring + (2 ^ 64 - 1) = (length ring - 1) + 2 ^ 64" using assms(2) by (cases ring) auto
  then have dec: "(length ring + (2 ^ 64 - 1)) mod 2 ^ 64 = length ring - 1"
    using assms(3) by (simp only: mod_add_self2 mod_less less_imp_diff_less)
  show ?thesis
  proof (cases "binary_search (map fst ring) h")
    case (Inr i)
    note sp = binary_search_spec(1) [OF assms(1) Inr]
    have i: "i < length ring" "fst (ring ! i) = h" "\<forall>j<length ring. i < j \<longrightarrow> fst (ring ! j) \<noteq> h"
      using sp by (auto simp: nth_map)
    have "ring_owner h ring = ring ! i"
      using filter_last_index [of i ring "\<lambda>s. fst s = h"] i by (auto simp: ring_owner_def split: list.splits)
    then show ?thesis using Inr i(1) by simp
  next
    case (Inl i)
    note sp = binary_search_spec(2) [OF assms(1) Inl]
    have lo: "\<forall>j<i. fst (ring ! j) < h" and hi: "\<forall>j<length ring. i \<le> j \<longrightarrow> h < fst (ring ! j)" and le: "i \<le> length ring"
      using sp by (auto simp: nth_map)
    have none: "filter (\<lambda>s. fst s = h) ring = []"
      using lo hi by (auto simp: filter_empty_conv in_set_conv_nth) (metis fst_conv less_irrefl not_le)
    show ?thesis
    proof (cases "i < length ring")
      case True
      have "\<exists>ys. filter (\<lambda>s. h < fst s) ring = ring ! i # ys"
        using True hi lo by (intro filter_first_index) (auto dest: order.asym)
      then have "ring_owner h ring = ring ! i" using none by (auto simp: ring_owner_def)
      moreover have "min i (length ring - 1) = i" using True by simp
      ultimately show ?thesis using Inl True dec by simp
    next
      case False
      then have "i = length ring" using le by simp
      then have "filter (\<lambda>s. h < fst s) ring = []"
        using lo by (auto simp: filter_empty_conv in_set_conv_nth) (metis fst_conv order.asym)
      then have "ring_owner h ring = last ring" using none by (simp add: ring_owner_def)
      then show ?thesis using Inl dec \<open>i = length ring\<close> assms(2) by (simp add: last_conv_nth)
    qed
  qed
qed

text \<open>What the constructor establishes.\<close>

definition rh_inv :: "'e RingHashBalancer \<Rightarrow> bool" where
  "rh_inv b \<longleftrightarrow> sorted (map fst (rh_ring b)) \<and> length (rh_ring b) < 2 ^ 64 \<and>
     (\<forall>(h, i)\<in>set (rh_ring b). i < length (rh_items b))"

lemma ring_new_inv:
  assumes c: "collect_checked xs = (ys, t)" and len: "length xs \<le> 2 ^ 29"
  shows "\<exists>b. RingHashBalancer_new authority hash_slot xs = Some b \<and> rh_inv b \<and> rh_items b = ys \<and>
    ((\<forall>y\<in>set ys. weight y \<noteq> 0) \<and> ys \<noteq> [] \<longrightarrow> rh_ring b \<noteq> [])"
proof (cases "t = 0")
  case True
  have "weight y = 0" if "y \<in> set ys" for y
    using collect_checked_prefix(2) [OF c] that True by (simp add: unat_eq_zero)
  then show ?thesis
    using ring_new_zero [of xs ys authority hash_slot] c True by (auto simp: rh_inv_def neq_Nil_conv)
next
  case False
  define sl where "sl = ring_slots hash_slot (ring_scale_of t ys) 0 (ring_keys authority t ys) (Fin 0)"
  note new = ring_new_positive [OF c False len, where authority = authority and hash_slot = hash_slot, folded sl_def]
  have "i < length ys" if "(h, i) \<in> set sl" for h i
    using ring_slots_index [OF that [unfolded sl_def]] by simp
  then have "rh_inv \<lparr>rh_items = ys, rh_ring = sort_key fst sl\<rparr>" using new(2) by (auto simp: rh_inv_def)
  moreover have "sort_key fst sl \<noteq> []" if "\<forall>y\<in>set ys. weight y \<noteq> 0"
    using new(3) [OF that] by (metis length_0_conv length_sort)
  ultimately show ?thesis using new(1) by auto
qed

lemma ring_next_item_owner:
  assumes "rh_inv b" "2 \<le> length (rh_items b)" "rh_ring b \<noteq> []"
  shows "ring_next_item random (Some h) b = (Some (item (rh_items b ! snd (ring_owner h (rh_ring b)))), b)"
    "snd (ring_owner h (rh_ring b)) < length (rh_items b)"
proof -
  obtain i where i: "i < length (rh_ring b)" "rh_ring b ! i = ring_owner h (rh_ring b)"
      "(case binary_search (map fst (rh_ring b)) h of Inr i \<Rightarrow> i
        | Inl i \<Rightarrow> min i ((length (rh_ring b) + (2 ^ 64 - 1)) mod 2 ^ 64)) = i"
    using ring_search_owner [of "rh_ring b" h] assms(1,3) by (auto simp: rh_inv_def)
  obtain k v where o: "ring_owner h (rh_ring b) = (k, v)" by (cases "ring_owner h (rh_ring b)")
  have "(k, v) \<in> set (rh_ring b)" using i(1,2) o by (metis nth_mem)
  then have v: "v < length (rh_items b)" using assms(1) by (auto simp: rh_inv_def)
  then show "snd (ring_owner h (rh_ring b)) < length (rh_items b)" by (simp add: o)
  have "slice_get (rh_ring b) i = Some (k, v)" "slice_get (rh_items b) v = Some (rh_items b ! v)"
    using i(1,2) o v by (simp_all add: slice_get_def)
  then show "ring_next_item random (Some h) b = (Some (item (rh_items b ! snd (ring_owner h (rh_ring b)))), b)"
    unfolding ring_next_item_def Let_def option.case i(3) using assms(2) o by (simp del: slice_get_Some_iff)
qed

text \<open>
  The balancer as an implementation of the interface. A construction that would not return has no
  endpoints and selects none.
\<close>

definition rh_members :: "'e RingHashBalancer option \<Rightarrow> 'e list" where
  "rh_members b = (case b of None \<Rightarrow> [] | Some b \<Rightarrow> map item (rh_items b))"

definition ring_next_item_opt ::
  "u64 \<Rightarrow> u64 option \<Rightarrow> 'e RingHashBalancer option \<Rightarrow> 'e option \<times> 'e RingHashBalancer option" where
  "ring_next_item_opt random hash b =
     (case b of None \<Rightarrow> (None, None) | Some b \<Rightarrow> map_prod id Some (ring_next_item random hash b))"

lemma ring_next_item_member:
  "fst (ring_next_item random h b) = Some e \<Longrightarrow> e \<in> item ` set (rh_items b)"
  "snd (ring_next_item random h b) = b"
  by (auto simp: ring_next_item_def Let_def slice_get_def split: if_splits option.splits prod.splits sum.splits)

interpretation rh: balancer "ring_from_iter weight_of authority hash_slot" "ring_next_item_opt random"
    rh_members "\<lambda>_. True"
  for weight_of :: "'e \<Rightarrow> u32" and authority hash_slot random
proof unfold_locales
  fix es :: "'e list" and b :: "'e RingHashBalancer option" and h e
  obtain ys t where c: "collect_checked (items_of weight_of es) = (ys, t)" by fastforce
  have "rh_items r = ys" if "ring_from_iter weight_of authority hash_slot es = Some r" for r
    using that c by (auto simp: ring_from_iter_def RingHashBalancer_new_def new_with_settings_def Let_def split: option.splits)
  then show "set (rh_members (ring_from_iter weight_of authority hash_slot es)) \<subseteq> set es"
    using collect_checked_items(1) [OF c] by (auto simp: rh_members_def split: option.splits)
  show "set (rh_members (snd (ring_next_item_opt random h b))) = set (rh_members b)"
    by (auto simp: ring_next_item_opt_def rh_members_def ring_next_item_member split: option.splits)
  show "fst (ring_next_item_opt random h b) = Some e \<Longrightarrow> e \<in> set (rh_members b)"
    using ring_next_item_member(1) by (fastforce simp: ring_next_item_opt_def rh_members_def split: option.splits)
qed simp_all

section \<open>Properties\<close>

text \<open>C24: The construction of a hash ring terminates, and the ring always serves. For up to half a
  billion endpoints of positive weights the floating point loops return; every slot names an
  endpoint; and every request, with a hash or without, is given an endpoint of the collection.\<close>

theorem ring_hash_serves:
  assumes "es \<noteq> []" "length es \<le> 2 ^ 29" "\<forall>e\<in>set es. weight_of e \<noteq> 0"
  shows "\<exists>b. ring_from_iter weight_of authority hash_slot es = Some b \<and> sorted (map fst (rh_ring b)) \<and>
    (\<forall>random h. \<exists>e\<in>set es. ring_next_item random h b = (Some e, b))"
proof -
  obtain ys t where c: "collect_checked (items_of weight_of es) = (ys, t)" by fastforce
  note ys = collect_checked_items [OF c]
  have pos: "\<forall>y\<in>set ys. weight y \<noteq> 0" and ne: "ys \<noteq> []" using ys assms(1,3) by auto
  obtain b where b: "ring_from_iter weight_of authority hash_slot es = Some b" "rh_inv b" "rh_items b = ys" "rh_ring b \<noteq> []"
    using ring_new_inv [OF c, of authority hash_slot] assms(2) pos ne by (auto simp: ring_from_iter_def)
  have "\<exists>e\<in>set es. ring_next_item random h b = (Some e, b)" for random h
  proof (cases "length ys \<le> 1")
    case True
    then obtain y where "ys = [y]" using ne by (cases ys) auto
    then show ?thesis using ys(1) b(3) by (simp add: ring_next_item_def slice_get_def)
  next
    case False
    define k where "k = (case h of Some h \<Rightarrow> h | None \<Rightarrow> random)"
    have "ring_next_item random h b = ring_next_item random (Some k) b" by (simp add: ring_next_item_def k_def)
    then show ?thesis
      using ring_next_item_owner(1) [OF b(2) _ b(4), of random k] ring_next_item_owner(2) [OF b(2) _ b(4), of k]
        False b(3) ys(1) by auto
  qed
  then show ?thesis using b(1,2) by (auto simp: rh_inv_def)
qed

theorem ring_hash_serves_witness:
  "\<exists>b. ring_from_iter (\<lambda>_. 1) id (\<lambda>_ n. of_nat n) [''a'', ''b''] = Some b \<and> sorted (map fst (rh_ring b)) \<and>
    (\<forall>random h. \<exists>e\<in>set [''a'', ''b'']. ring_next_item random h b = (Some e, b))"
  by (rule ring_hash_serves) simp_all



end
