(* ===== verification/Least_Request.thy ===== *)
theory Least_Request
  imports Weighted_Items
begin

text \<open>
  The random balancer (\<^verbatim>\<open>clusters/balancers/random.rs\<close>) and the balancer of least requests
  (\<^verbatim>\<open>clusters/balancers/least.rs\<close>). The generator of random numbers and the sampling of the
  crate \<^verbatim>\<open>rand\<close> are parameters with their documented behaviour as laws; the load of an endpoint
  is an argument of every call, since it changes between the calls.
\<close>

section \<open>Random\<close>

text \<open>\<^verbatim>\<open>rand::distributions::WeightedIndex\<close>: \<open>wi_new\<close> fails without a positive weight,
  \<open>wi_sample\<close> draws an index and advances the generator.\<close>

record ('w, 'g) weighted_index_api =
  wi_new :: "u32 list \<Rightarrow> 'w option"
  wi_sample :: "'w \<Rightarrow> 'g \<Rightarrow> nat \<times> 'g"

record ('e, 'w, 'g) RandomBalancer =
  rb_items :: "'e LbItem list"
  rb_weighted_index :: "'w option"
  rb_rng :: 'g

definition new_with_rng ::
  "('w, 'g) weighted_index_api \<Rightarrow> 'e LbItem list \<Rightarrow> 'g \<Rightarrow> ('e, 'w, 'g) RandomBalancer" where
  "new_with_rng api xs rng =
     (let ys = fst (collect_checked xs)
      in \<lparr>rb_items = ys, rb_weighted_index = wi_new api (map weight ys), rb_rng = rng\<rparr>)"

definition random_from_iter ::
  "('w, 'g) weighted_index_api \<Rightarrow> 'g \<Rightarrow> ('e \<Rightarrow> u32) \<Rightarrow> 'e list \<Rightarrow> ('e, 'w, 'g) RandomBalancer" where
  "random_from_iter api rng weight_of es = new_with_rng api (items_of weight_of es) rng"

definition random_next_item ::
  "('w, 'g) weighted_index_api \<Rightarrow> u64 option \<Rightarrow> ('e, 'w, 'g) RandomBalancer
     \<Rightarrow> 'e option \<times> ('e, 'w, 'g) RandomBalancer" where
  "random_next_item api hash b =
     (case rb_weighted_index b of
        None \<Rightarrow> (None, b)
      | Some w \<Rightarrow>
          let (index, rng) = wi_sample api w (rb_rng b)
          in (map_option item (slice_get (rb_items b) index), b\<lparr>rb_rng := rng\<rparr>))"

text \<open>The documented behaviour: the index is in range and its weight is positive, and there is a
  distribution exactly if some weight is positive and the total does not overflow.\<close>

definition weighted_index_laws :: "('w, 'g) weighted_index_api \<Rightarrow> bool" where
  "weighted_index_laws api \<longleftrightarrow>
     (\<forall>ws w g. wi_new api ws = Some w \<longrightarrow>
        fst (wi_sample api w g) < length ws \<and> ws ! fst (wi_sample api w g) \<noteq> 0) \<and>
     (\<forall>ws. total_weight_of id ws < 2 ^ 32 \<longrightarrow> (wi_new api ws = None \<longleftrightarrow> (\<forall>w\<in>set ws. w = 0)))"

section \<open>Least requests\<close>

record 'e LeastItem =
  li_weight :: u32
  li_current_weight :: f64
  li_item :: 'e

definition LeastItem_new :: "u32 \<Rightarrow> 'e \<Rightarrow> 'e LeastItem" where
  "LeastItem_new w e = \<lparr>li_weight = w, li_current_weight = Fin 0, li_item = e\<rparr>"

definition least_adjust :: "f64 \<Rightarrow> 'e LeastItem \<Rightarrow> 'e LeastItem" where
  "least_adjust v x = x\<lparr>li_current_weight := f64_add (li_current_weight x) v\<rparr>"

text \<open>\<open>powf\<close> is \<^verbatim>\<open>f64::powf\<close>; the load plus one wraps.\<close>

definition least_weight ::
  "(f64 \<Rightarrow> f64 \<Rightarrow> f64) \<Rightarrow> ('e \<Rightarrow> u32) \<Rightarrow> f64 \<Rightarrow> 'e LeastItem \<Rightarrow> f64" where
  "least_weight powf load active_request_bias x =
     (if active_request_bias = Fin 0 then f64_from_u32 (li_weight x)
      else f64_div (f64_from_u32 (li_weight x)) (powf (f64_from_u32 (load (li_item x) + 1)) active_request_bias))"

record ('e, 'g) WeightedLeastRequestBalancer =
  lr_items :: "'e LeastItem list"
  lr_active_request_bias :: f64
  lr_p2c_choice_count :: u32
  lr_all_weights_equal :: bool
  lr_rng :: 'g

definition all_equal :: "'e LeastItem list \<Rightarrow> bool" where
  "all_equal xs = (case xs of [] \<Rightarrow> True | first # rest \<Rightarrow> list_all (\<lambda>x. li_weight x = li_weight first) rest)"

definition least_new_with_settings_and_rng ::
  "'e LeastItem list \<Rightarrow> f64 \<Rightarrow> u32 \<Rightarrow> 'g \<Rightarrow> ('e, 'g) WeightedLeastRequestBalancer" where
  "least_new_with_settings_and_rng xs active_request_bias p2c_choice_count rng =
     \<lparr>lr_items = xs, lr_active_request_bias = active_request_bias, lr_p2c_choice_count = p2c_choice_count,
      lr_all_weights_equal = all_equal xs, lr_rng = rng\<rparr>"

definition DEFAULT_ACTIVE_REQUEST_BIAS :: f64 where
  "DEFAULT_ACTIVE_REQUEST_BIAS = Fin 1"

definition DEFAULT_P2C_CHOICE_COUNT :: u32 where
  "DEFAULT_P2C_CHOICE_COUNT = 2"

definition least_from_iter ::
  "'g \<Rightarrow> ('e \<Rightarrow> u32) \<Rightarrow> 'e list \<Rightarrow> ('e, 'g) WeightedLeastRequestBalancer" where
  "least_from_iter rng weight_of es =
     least_new_with_settings_and_rng (map (\<lambda>e. LeastItem_new (weight_of e) e) es)
       DEFAULT_ACTIVE_REQUEST_BIAS DEFAULT_P2C_CHOICE_COUNT rng"

text \<open>The scan for the highest running weight; the first one wins among equals.\<close>

fun best_scan :: "nat \<Rightarrow> nat \<Rightarrow> f64 \<Rightarrow> 'e LeastItem list \<Rightarrow> nat" where
  "best_scan idx best_index best_weight [] = best_index"
| "best_scan idx best_index best_weight (x # xs) =
     (if fp_less best_weight (li_current_weight x)
      then best_scan (Suc idx) idx (li_current_weight x) xs
      else best_scan (Suc idx) best_index best_weight xs)"

definition next_item_wrr ::
  "(f64 \<Rightarrow> f64 \<Rightarrow> f64) \<Rightarrow> ('e \<Rightarrow> u32) \<Rightarrow> ('e, 'g) WeightedLeastRequestBalancer
     \<Rightarrow> 'e option \<times> ('e, 'g) WeightedLeastRequestBalancer" where
  "next_item_wrr powf load b =
     (if length (lr_items b) \<le> 1 then (map_option li_item (slice_get (lr_items b) 0), b)
      else
        let weights = map (least_weight powf load (lr_active_request_bias b)) (lr_items b);
            xs = map2 least_adjust weights (lr_items b);
            tot = f64_sum weights;
            best_index = best_scan 0 0 NegInf xs
        in case slice_get xs best_index of
             None \<Rightarrow> (None, b\<lparr>lr_items := xs\<rparr>)
           | Some x \<Rightarrow>
               (Some (li_item x), b\<lparr>lr_items := xs[best_index := least_adjust (fp_neg tot) x]\<rparr>))"

text \<open>
  The sampling of \<^verbatim>\<open>rand\<close>: \<open>choose_multiple\<close> draws the positions of that many distinct
  elements, or of all elements if there are fewer, and \<open>gen_range\<close> a number below its bound.
\<close>

record 'g sampling_api =
  choose_multiple :: "nat \<Rightarrow> nat \<Rightarrow> 'g \<Rightarrow> nat list \<times> 'g"
  gen_range :: "nat \<Rightarrow> 'g \<Rightarrow> nat \<times> 'g"

definition sampling_laws :: "'g sampling_api \<Rightarrow> bool" where
  "sampling_laws api \<longleftrightarrow>
     (\<forall>n k g. distinct (fst (choose_multiple api n k g)) \<and> set (fst (choose_multiple api n k g)) \<subseteq> {..<n} \<and>
        length (fst (choose_multiple api n k g)) = min k n) \<and>
     (\<forall>n g. 0 < n \<longrightarrow> fst (gen_range api n g) < n)"

text \<open>\<^verbatim>\<open>cycle().skip(offset).take(count)\<close> of a nonempty list.\<close>

definition cycle_skip_take :: "'a list \<Rightarrow> nat \<Rightarrow> nat \<Rightarrow> 'a list" where
  "cycle_skip_take xs offset count = map (\<lambda>k. xs ! ((offset + k) mod length xs)) [0..<count]"

definition least_loaded :: "('e \<Rightarrow> u32) \<Rightarrow> 'e LeastItem \<Rightarrow> 'e LeastItem list \<Rightarrow> 'e LeastItem" where
  "least_loaded load first rest =
     fst (foldl (\<lambda>(best, best_load) x.
            let l = load (li_item x) in if l < best_load then (x, l) else (best, best_load))
          (first, load (li_item first)) rest)"

text \<open>The choice among a few random candidates. An empty choice panics in \<^verbatim>\<open>gen_range\<close>.\<close>

definition next_item_p2c ::
  "'g sampling_api \<Rightarrow> ('e \<Rightarrow> u32) \<Rightarrow> ('e, 'g) WeightedLeastRequestBalancer
     \<Rightarrow> ('e option \<times> ('e, 'g) WeightedLeastRequestBalancer) option" where
  "next_item_p2c api load b =
     (if length (lr_items b) \<le> 1 then Some (map_option li_item (slice_get (lr_items b) 0), b)
      else
        let choice_count = unat (lr_p2c_choice_count b);
            (positions, rng) = choose_multiple api (length (lr_items b)) choice_count (lr_rng b);
            chosen_items = List.map_filter (slice_get (lr_items b)) positions
        in if chosen_items = [] then None
           else
             let (random_offset, rng) = gen_range api (length chosen_items) rng
             in (case cycle_skip_take chosen_items random_offset choice_count of
                   [] \<Rightarrow> Some (None, b\<lparr>lr_rng := rng\<rparr>)
                 | first # rest \<Rightarrow> Some (Some (li_item (least_loaded load first rest)), b\<lparr>lr_rng := rng\<rparr>)))"

definition least_next_item ::
  "'g sampling_api \<Rightarrow> (f64 \<Rightarrow> f64 \<Rightarrow> f64) \<Rightarrow> ('e \<Rightarrow> u32) \<Rightarrow> u64 option
     \<Rightarrow> ('e, 'g) WeightedLeastRequestBalancer \<Rightarrow> ('e option \<times> ('e, 'g) WeightedLeastRequestBalancer) option" where
  "least_next_item api powf load hash b =
     (if lr_all_weights_equal b then next_item_p2c api load b else Some (next_item_wrr powf load b))"

section \<open>Random selection\<close>

definition rb_members :: "('e, 'w, 'g) RandomBalancer \<Rightarrow> 'e list" where
  "rb_members b = map item (rb_items b)"

lemma random_next_item_simps:
  "rb_items (snd (random_next_item api h b)) = rb_items b"
  "rb_weighted_index (snd (random_next_item api h b)) = rb_weighted_index b"
  "fst (random_next_item api h b) = Some e \<Longrightarrow> e \<in> item ` set (rb_items b)"
  by (auto simp: random_next_item_def slice_get_def split: option.splits prod.splits if_splits)

interpretation rb: balancer "random_from_iter api rng weight_of" "random_next_item api" rb_members "\<lambda>_. True"
  for api :: "('w, 'g) weighted_index_api" and rng and weight_of :: "'e \<Rightarrow> u32"
proof unfold_locales
  fix es :: "'e list" and b :: "('e, 'w, 'g) RandomBalancer" and h e
  obtain ys t where c: "collect_checked (items_of weight_of es) = (ys, t)" by fastforce
  show "set (rb_members (random_from_iter api rng weight_of es)) \<subseteq> set es"
    using collect_checked_items(1) [OF c]
    by (simp add: rb_members_def random_from_iter_def new_with_rng_def c Let_def)
  show "set (rb_members (snd (random_next_item api h b))) = set (rb_members b)"
    "fst (random_next_item api h b) = Some e \<Longrightarrow> e \<in> set (rb_members b)"
    using random_next_item_simps(3) [of api h b e] by (simp_all add: rb_members_def random_next_item_simps)
qed simp_all

text \<open>The distribution stays the one over the weights of the items.\<close>

definition rb_ok :: "('w, 'g) weighted_index_api \<Rightarrow> ('e \<Rightarrow> u32) \<Rightarrow> ('e, 'w, 'g) RandomBalancer \<Rightarrow> bool" where
  "rb_ok api weight_of b \<longleftrightarrow> rb_weighted_index b = wi_new api (map weight (rb_items b)) \<and>
     (\<forall>x\<in>set (rb_items b). weight x = weight_of (item x))"

lemma random_positive:
  assumes "weighted_index_laws api" "rb_ok api weight_of b" "fst (random_next_item api h b) = Some e"
  shows "weight_of e \<noteq> 0"
proof -
  obtain w where w: "rb_weighted_index b = Some w" using assms(3) by (auto simp: random_next_item_def split: option.splits)
  define i where "i = fst (wi_sample api w (rb_rng b))"
  have new: "wi_new api (map weight (rb_items b)) = Some w" using w assms(2) by (simp add: rb_ok_def)
  have i: "i < length (rb_items b)" "weight (rb_items b ! i) \<noteq> 0"
    using assms(1) new unfolding weighted_index_laws_def i_def by (metis length_map nth_map)+
  then have "e = item (rb_items b ! i)"
    using assms(3) w by (simp add: random_next_item_def i_def case_prod_beta slice_get_def)
  then show ?thesis using i assms(2) by (auto simp: rb_ok_def)
qed

lemma random_serves:
  assumes "weighted_index_laws api" "rb_ok api weight_of b" "rb_weighted_index b \<noteq> None"
  shows "fst (random_next_item api h b) \<noteq> None"
proof -
  obtain w where w: "rb_weighted_index b = Some w" using assms(3) by auto
  have new: "wi_new api (map weight (rb_items b)) = Some w" using w assms(2) by (simp add: rb_ok_def)
  have "fst (wi_sample api w (rb_rng b)) < length (rb_items b)"
    using assms(1) new unfolding weighted_index_laws_def by (metis length_map)
  then show ?thesis using w by (simp add: random_next_item_def case_prod_beta slice_get_def)
qed

text \<open>The first endpoint is always kept.\<close>

lemma random_weighted_index:
  assumes "weighted_index_laws api" "es \<noteq> []" "weight_of (hd es) \<noteq> 0"
  shows "rb_weighted_index (random_from_iter api rng weight_of es) \<noteq> None"
proof -
  obtain ys t where c: "collect_checked (items_of weight_of es) = (ys, t)" by fastforce
  have ne: "ys \<noteq> []" using collect_checked_items(2) [OF c assms(2)] .
  have "hd ys = hd (items_of weight_of es)" using collect_checked_prefix(1) [OF c] ne by (metis hd_take length_greater_0_conv)
  then have "weight (hd ys) \<noteq> 0" using assms(2,3) by (simp add: hd_map)
  moreover have "weight (hd ys) \<in> set (map weight ys)" using ne by simp
  moreover have "total_weight_of id (map weight ys) < 2 ^ 32"
    using collect_checked_prefix(2) [OF c] unat_u32_less [of t] by (simp add: comp_def)
  ultimately have "wi_new api (map weight ys) \<noteq> None"
    using assms(1) unfolding weighted_index_laws_def by blast
  then show ?thesis by (simp add: random_from_iter_def new_with_rng_def c)
qed

section \<open>Least requests: the choice among candidates\<close>

definition least_step :: "('e \<Rightarrow> u32) \<Rightarrow> 'e LeastItem \<times> u32 \<Rightarrow> 'e LeastItem \<Rightarrow> 'e LeastItem \<times> u32" where
  "least_step load = (\<lambda>(best, best_load) x.
     let l = load (li_item x) in if l < best_load then (x, l) else (best, best_load))"

lemma least_fold:
  assumes "r = foldl (least_step load) (b, load (li_item b)) xs"
  shows "snd r = load (li_item (fst r)) \<and> fst r \<in> set (b # xs) \<and> (\<forall>x\<in>set (b # xs). snd r \<le> load (li_item x))"
  using assms
proof (induction xs arbitrary: b)
  case (Cons x xs)
  define c where "c = (if load (li_item x) < load (li_item b) then x else b)"
  have "r = foldl (least_step load) (c, load (li_item c)) xs"
    using Cons.prems by (simp add: least_step_def c_def Let_def)
  note IH = Cons.IH [OF this]
  have le: "load (li_item c) \<le> load (li_item b)" "load (li_item c) \<le> load (li_item x)"
    by (auto simp: c_def not_less)
  have r: "snd r \<le> load (li_item c)" using IH by (meson list.set_intros(1))
  have "snd r \<le> load (li_item b)" "snd r \<le> load (li_item x)" by (rule order_trans [OF r le(1)], rule order_trans [OF r le(2)])
  moreover have "c = x \<or> c = b" by (simp add: c_def)
  ultimately show ?case using IH by auto
qed simp

lemma least_loaded_min:
  "least_loaded load b xs \<in> set (b # xs)"
  "x \<in> set (b # xs) \<Longrightarrow> load (li_item (least_loaded load b xs)) \<le> load (li_item x)"
  using least_fold [OF refl, of load b xs] by (auto simp: least_loaded_def least_step_def)

lemma map_filter_slice_get:
  "set is \<subseteq> {..<length xs} \<Longrightarrow> List.map_filter (slice_get xs) is = map ((!) xs) is"
  by (induction "is") (auto simp: List.map_filter_simps slice_get_def)

lemma cycle_skip_take_all:
  assumes "length xs \<le> count" "xs \<noteq> []"
  shows "set (cycle_skip_take xs offset count) = set xs"
proof
  have "0 < length xs" using assms(2) by simp
  then show "set (cycle_skip_take xs offset count) \<subseteq> set xs"
    by (auto simp: cycle_skip_take_def)
  show "set xs \<subseteq> set (cycle_skip_take xs offset count)"
  proof
    fix x assume "x \<in> set xs"
    then obtain j where j: "j < length xs" "x = xs ! j" by (metis in_set_conv_nth)
    define k where "k = (j + (length xs - offset mod length xs)) mod length xs"
    have "(offset + k) mod length xs = (offset mod length xs + (j + (length xs - offset mod length xs))) mod length xs"
      unfolding k_def by (metis mod_add_left_eq mod_add_right_eq)
    also have "offset mod length xs + (j + (length xs - offset mod length xs)) = j + length xs"
      using mod_less_divisor [OF \<open>0 < length xs\<close>, of offset] by linarith
    also have "(j + length xs) mod length xs = j" using j(1) by simp
    finally have "xs ! ((offset + k) mod length xs) = x" using j(2) by simp
    moreover have "k < count"
      unfolding k_def by (rule less_le_trans [OF mod_less_divisor [OF \<open>0 < length xs\<close>] assms(1)])
    ultimately show "x \<in> set (cycle_skip_take xs offset count)"
      unfolding cycle_skip_take_def by (auto intro: rev_image_eqI)
  qed
qed

lemma cycle_skip_take_members: "xs \<noteq> [] \<Longrightarrow> set (cycle_skip_take xs offset count) \<subseteq> set xs"
  by (auto simp: cycle_skip_take_def)

text \<open>The selected item is one of the candidates, and none of them has less load.\<close>

lemma next_item_p2c_selects:
  assumes "sampling_laws api" "2 \<le> length (lr_items b)" "0 < unat (lr_p2c_choice_count b)"
  shows "\<exists>is rng i. next_item_p2c api load b = Some (Some (li_item (lr_items b ! i)), b\<lparr>lr_rng := rng\<rparr>) \<and>
    i \<in> set is \<and> distinct is \<and> set is \<subseteq> {..<length (lr_items b)} \<and>
    length is = min (unat (lr_p2c_choice_count b)) (length (lr_items b)) \<and>
    (\<forall>j\<in>set is. load (li_item (lr_items b ! i)) \<le> load (li_item (lr_items b ! j)))"
proof -
  let ?n = "length (lr_items b)" and ?k = "unat (lr_p2c_choice_count b)"
  obtain "is" rng1 where ch: "choose_multiple api ?n ?k (lr_rng b) = (is, rng1)" by fastforce
  have is1: "distinct is" "set is \<subseteq> {..<?n}" "length is = min ?k ?n"
    using assms(1) ch unfolding sampling_laws_def by (metis fst_conv)+
  define cs where "cs = map ((!) (lr_items b)) is"
  have cs: "List.map_filter (slice_get (lr_items b)) is = cs" using map_filter_slice_get [OF is1(2)] by (simp add: cs_def)
  have ne: "cs \<noteq> []" using is1(3) assms(2,3) by (auto simp: cs_def)
  obtain off rng2 where off: "gen_range api (length cs) rng1 = (off, rng2)" by fastforce
  have all: "set (cycle_skip_take cs off ?k) = set cs"
    using cycle_skip_take_all [of cs ?k off] ne is1(3) by (simp add: cs_def)
  then obtain first rest where fr: "cycle_skip_take cs off ?k = first # rest"
    using ne by (cases "cycle_skip_take cs off ?k") auto
  have mem: "set (first # rest) = set cs" using all fr by simp
  have "least_loaded load first rest \<in> set cs" unfolding mem [symmetric] by (rule least_loaded_min(1))
  then obtain i where i: "i \<in> set is" "least_loaded load first rest = lr_items b ! i" by (auto simp: cs_def)
  have "load (li_item (lr_items b ! i)) \<le> load (li_item (lr_items b ! j))" if "j \<in> set is" for j
  proof -
    have "lr_items b ! j \<in> set (first # rest)" unfolding mem using that by (simp add: cs_def)
    then show ?thesis using least_loaded_min(2) [of _ first rest load] i(2) by metis
  qed
  moreover have "next_item_p2c api load b = Some (Some (li_item (lr_items b ! i)), b\<lparr>lr_rng := rng2\<rparr>)"
    using assms(2) ch cs ne off fr i(2) by (simp add: next_item_p2c_def Let_def)
  ultimately show ?thesis using is1 i(1) by blast
qed

section \<open>Least requests: the weighted choice\<close>

lemma best_scan_range:
  "best_index < n \<Longrightarrow> idx + length xs \<le> n \<Longrightarrow> best_scan idx best_index best_weight xs < n"
  by (induction xs arbitrary: idx best_index best_weight) auto

text \<open>On finite weights the scan finds the first maximum.\<close>

lemma best_scan_max:
  assumes "\<forall>x\<in>set xs. \<exists>r. li_current_weight x = Fin r" "best_weight = NegInf \<or> (\<exists>r. best_weight = Fin r)"
  shows "(xs = [] \<or> best_scan idx best best_weight xs = best \<and> (\<forall>x\<in>set xs. \<not> fp_less best_weight (li_current_weight x)) \<or>
    (\<exists>i<length xs. best_scan idx best best_weight xs = idx + i \<and> fp_less best_weight (li_current_weight (xs ! i)) \<and>
      (\<forall>x\<in>set xs. \<not> fp_less (li_current_weight (xs ! i)) (li_current_weight x))))"
  using assms
proof (induction xs arbitrary: idx best best_weight)
  case (Cons x xs)
  obtain r where r: "li_current_weight x = Fin r" using Cons.prems(1) by auto
  show ?case
  proof (cases "fp_less best_weight (Fin r)")
    case True
    then have step: "best_scan idx best best_weight (x # xs) = best_scan (Suc idx) idx (Fin r) xs" using r by simp
    have IH: "xs = [] \<or> best_scan (Suc idx) idx (Fin r) xs = idx \<and> (\<forall>y\<in>set xs. \<not> fp_less (Fin r) (li_current_weight y)) \<or>
      (\<exists>i<length xs. best_scan (Suc idx) idx (Fin r) xs = Suc idx + i \<and> fp_less (Fin r) (li_current_weight (xs ! i)) \<and>
        (\<forall>y\<in>set xs. \<not> fp_less (li_current_weight (xs ! i)) (li_current_weight y)))"
      using Cons.IH [of "Fin r" "Suc idx" idx] Cons.prems(1) by auto
    show ?thesis
    proof (cases "best_scan (Suc idx) idx (Fin r) xs = idx")
      case at: True
      then have "\<forall>y\<in>set xs. \<not> fp_less (Fin r) (li_current_weight y)" using IH by auto
      then show ?thesis using at step True r by (intro disjI2 exI [of _ 0]) auto
    next
      case False
      then have "xs \<noteq> []" by auto
      then obtain i where i: "i < length xs" "best_scan (Suc idx) idx (Fin r) xs = Suc idx + i"
          "fp_less (Fin r) (li_current_weight (xs ! i))"
          "\<forall>y\<in>set xs. \<not> fp_less (li_current_weight (xs ! i)) (li_current_weight y)"
        using IH False by blast
      obtain q where q: "li_current_weight (xs ! i) = Fin q" using Cons.prems(1) nth_mem [OF i(1)] by auto
      have "r < q" using i(3) q by simp
      then have "fp_less best_weight (Fin q)" "\<not> fp_less (Fin q) (Fin r)"
        using True Cons.prems(2) by auto
      then show ?thesis using i step q r by (intro disjI2 exI [of _ "Suc i"]) auto
    qed
  next
    case False
    then have step: "best_scan idx best best_weight (x # xs) = best_scan (Suc idx) best best_weight xs" using r by simp
    have IH: "xs = [] \<or> best_scan (Suc idx) best best_weight xs = best \<and> (\<forall>y\<in>set xs. \<not> fp_less best_weight (li_current_weight y)) \<or>
      (\<exists>i<length xs. best_scan (Suc idx) best best_weight xs = Suc idx + i \<and> fp_less best_weight (li_current_weight (xs ! i)) \<and>
        (\<forall>y\<in>set xs. \<not> fp_less (li_current_weight (xs ! i)) (li_current_weight y)))"
      using Cons.IH [of best_weight "Suc idx" best] Cons.prems by auto
    then consider "xs = []"
      | "best_scan (Suc idx) best best_weight xs = best" "\<forall>y\<in>set xs. \<not> fp_less best_weight (li_current_weight y)"
      | i where "i < length xs" "best_scan (Suc idx) best best_weight xs = Suc idx + i"
          "fp_less best_weight (li_current_weight (xs ! i))"
          "\<forall>y\<in>set xs. \<not> fp_less (li_current_weight (xs ! i)) (li_current_weight y)"
      by blast
    then show ?thesis
    proof cases
      case 3
      obtain q where q: "li_current_weight (xs ! i) = Fin q" using Cons.prems(1) nth_mem [OF 3(1)] by auto
      have "\<not> fp_less (Fin q) (Fin r)" using 3(3) q False Cons.prems(2) by auto
      then show ?thesis using 3 step q r by (intro disjI2 exI [of _ "Suc i"]) auto
    qed (use step r False in auto)
  qed
qed simp

lemma f64_quotient_u32:
  assumes "t \<noteq> 0"
  shows "\<exists>r. f64_div (f64_from_u32 w) (f64_from_u32 t) = Fin r \<and> f64_add (Fin 0) (Fin r) = Fin r"
proof -
  have "0 \<le> of_int a / (of_int b :: rat) \<and> of_int a / (of_int b :: rat) \<le> of_int (2 ^ 32)"
    if "0 \<le> a" "a \<le> 2 ^ 32" "1 \<le> b" for a b :: int
  proof -
    have "of_int a / (of_int b :: rat) \<le> of_int a" using that(1,3) by (simp add: divide_le_eq mult_le_cancel_left1)
    also have "\<dots> \<le> of_int (2 ^ 32)" using that(2) by (simp only: of_int_le_iff)
    finally show ?thesis using that by simp
  qed
  moreover have "uint w \<le> 2 ^ 32" using uint_lt2p [of w] by simp
  moreover have "1 \<le> uint t" using uint_pos [OF assms] by simp
  ultimately have z: "0 \<le> of_int (uint w) / (of_int (uint t) :: rat)"
      "of_int (uint w) / (of_int (uint t) :: rat) \<le> of_int (2 ^ 32)"
    using uint_ge_0 [of w] by blast+
  have "f64_representable (of_int (2 ^ 32))" by (rule f64_representable_int) simp
  then obtain r where r: "f64_round (of_int (uint w) / of_int (uint t)) = Fin r"
    using f64_round_le [OF _ z] by blast
  have "f64_round r = Fin r" by (rule f64_exact [OF f64_round_representable [OF r]])
  then show ?thesis using r f64_div_u32 [OF assms, of w] by simp
qed

text \<open>
  The first call on a fresh balancer selects an endpoint with the largest quotient of weight and
  load.
\<close>

lemma next_item_wrr_first:
  assumes "2 \<le> length es" "\<And>x. powf x (Fin 1) = x" "\<forall>e\<in>set es. load e + 1 \<noteq> 0"
    and b: "b = least_from_iter rng weight_of es"
  defines "share \<equiv> \<lambda>e. f64_div (f64_from_u32 (weight_of e)) (f64_from_u32 (load e + 1))"
  shows "\<exists>e b'. next_item_wrr powf load b = (Some e, b') \<and> e \<in> set es \<and> (\<forall>e'\<in>set es. \<not> fp_less (share e) (share e'))"
proof -
  define ws where "ws = map share es"
  have items: "lr_items b = map (\<lambda>e. LeastItem_new (weight_of e) e) es"
    "lr_active_request_bias b = Fin 1"
    by (simp_all add: b least_from_iter_def least_new_with_settings_and_rng_def DEFAULT_ACTIVE_REQUEST_BIAS_def)
  have weights: "map (least_weight powf load (lr_active_request_bias b)) (lr_items b) = ws"
    unfolding items ws_def by (simp add: least_weight_def share_def LeastItem_new_def assms(2) comp_def)
  have fin: "\<exists>r. share e = Fin r \<and> f64_add (Fin 0) (Fin r) = Fin r" if "e \<in> set es" for e
    using f64_quotient_u32 [of "load e + 1" "weight_of e"] assms(3) that unfolding share_def by auto
  define xs where "xs = map2 least_adjust ws (lr_items b)"
  have len: "length xs = length es" by (simp add: xs_def ws_def items)
  have nth: "li_item (xs ! i) = es ! i \<and> li_current_weight (xs ! i) = share (es ! i)" if "i < length es" for i
    using that fin [of "es ! i"] by (auto simp: xs_def ws_def items least_adjust_def LeastItem_new_def)
  have "\<forall>x\<in>set xs. \<exists>r. li_current_weight x = Fin r" using nth fin len by (metis in_set_conv_nth nth_mem)
  note scan = best_scan_max [OF this, of NegInf 0 0]
  have "\<not> (\<forall>x\<in>set xs. \<not> fp_less NegInf (li_current_weight x))"
  proof -
    have i0: "0 < length es" using assms(1) by linarith
    then have "xs ! 0 \<in> set xs" using len by simp
    moreover have "fp_less NegInf (li_current_weight (xs ! 0))" using nth [OF i0] fin [of "es ! 0"] i0 by auto
    ultimately show ?thesis by blast
  qed
  moreover have "xs \<noteq> []" using len assms(1) by auto
  ultimately obtain i where i: "i < length xs" "best_scan 0 0 NegInf xs = i"
      "\<forall>x\<in>set xs. \<not> fp_less (li_current_weight (xs ! i)) (li_current_weight x)"
    using scan by auto
  have "\<not> fp_less (share (es ! i)) (share e')" if mem: "e' \<in> set es" for e'
  proof -
    obtain j where j: "j < length es" "es ! j = e'" using mem by (auto simp: in_set_conv_nth)
    have "\<not> fp_less (li_current_weight (xs ! i)) (li_current_weight (xs ! j))" using i(3) j(1) len by simp
    then show ?thesis using nth [of i] nth [OF j(1)] i(1) len j(2) by simp
  qed
  moreover have "slice_get xs i = Some (xs ! i)" using i(1) by simp
  then have "\<exists>b'. next_item_wrr powf load b = (Some (es ! i), b')"
    using assms(1) weights i(2) nth [of i] i(1) len unfolding next_item_wrr_def Let_def weights xs_def [symmetric]
    by (simp add: items(1) slice_get_def)
  ultimately show ?thesis using i(1) len by auto
qed

section \<open>The balancer implements the interface\<close>

text \<open>A panic ends the call without an endpoint.\<close>

definition least_call ::
  "'g sampling_api \<Rightarrow> (f64 \<Rightarrow> f64 \<Rightarrow> f64) \<Rightarrow> ('e \<Rightarrow> u32) \<Rightarrow> u64 option
     \<Rightarrow> ('e, 'g) WeightedLeastRequestBalancer \<Rightarrow> 'e option \<times> ('e, 'g) WeightedLeastRequestBalancer" where
  "least_call api powf load hash b =
     (case least_next_item api powf load hash b of Some r \<Rightarrow> r | None \<Rightarrow> (None, b))"

definition lr_members :: "('e, 'g) WeightedLeastRequestBalancer \<Rightarrow> 'e list" where
  "lr_members b = map li_item (lr_items b)"

lemma map2_least_adjust: "length ws = length xs \<Longrightarrow> map li_item (map2 least_adjust ws xs) = map li_item xs"
  by (induction ws xs rule: list_induct2) (simp_all add: least_adjust_def)

lemma next_item_wrr_member:
  "lr_members (snd (next_item_wrr powf load b)) = lr_members b"
  "fst (next_item_wrr powf load b) = Some e \<Longrightarrow> e \<in> set (lr_members b)"
proof -
  define ws where "ws = map (least_weight powf load (lr_active_request_bias b)) (lr_items b)"
  define xs where "xs = map2 least_adjust ws (lr_items b)"
  have xs: "map li_item xs = map li_item (lr_items b)"
    unfolding xs_def by (rule map2_least_adjust) (simp add: ws_def)
  have upd: "map li_item (xs[i := least_adjust v (xs ! i)]) = map li_item xs" for i v
    by (cases "i < length xs") (simp_all add: map_update least_adjust_def list_update_same_conv list_update_beyond)
  show "lr_members (snd (next_item_wrr powf load b)) = lr_members b"
    using xs upd unfolding next_item_wrr_def Let_def ws_def [symmetric] xs_def [symmetric] lr_members_def
    by (auto simp: slice_get_def)
  assume "fst (next_item_wrr powf load b) = Some e"
  then have "e \<in> set (map li_item (lr_items b)) \<or> e \<in> set (map li_item xs)"
    unfolding next_item_wrr_def Let_def ws_def [symmetric] xs_def [symmetric]
    by (auto simp: slice_get_def split: if_splits)
  then show "e \<in> set (lr_members b)" unfolding xs lr_members_def by simp
qed

lemma next_item_p2c_member:
  assumes "next_item_p2c api load b = Some (r, b')"
  shows "lr_members b' = lr_members b" "r = Some e \<Longrightarrow> e \<in> set (lr_members b)"
proof -
  show "lr_members b' = lr_members b"
    using assms by (auto simp: next_item_p2c_def Let_def lr_members_def split: if_splits prod.splits list.splits)
  assume e: "r = Some e"
  have sub: "set (List.map_filter (slice_get xs) is) \<subseteq> set xs" for xs :: "'a LeastItem list" and "is"
    by (auto simp: List.map_filter_def slice_get_def)
  have in_cycle: "x \<in> set (lr_items b)"
    if "cs = List.map_filter (slice_get (lr_items b)) is" "cs \<noteq> []" "cycle_skip_take cs off k = f # rest"
      "x = least_loaded load f rest" for cs "is" off k f rest x
    using least_loaded_min(1) [of load f rest] cycle_skip_take_members [OF that(2), of off k] that sub by fastforce
  show "e \<in> set (lr_members b)"
    using assms e in_cycle
    by (fastforce simp: next_item_p2c_def Let_def lr_members_def slice_get_def split: if_splits prod.splits list.splits)
qed

interpretation lr: balancer "least_from_iter rng weight_of" "least_call api powf load" lr_members "\<lambda>_. True"
  for rng :: 'g and weight_of :: "'e \<Rightarrow> u32" and api powf load
proof unfold_locales
  fix es :: "'e list" and b :: "('e, 'g) WeightedLeastRequestBalancer" and h e
  show "set (lr_members (least_from_iter rng weight_of es)) \<subseteq> set es"
    by (simp add: lr_members_def least_from_iter_def least_new_with_settings_and_rng_def LeastItem_new_def)
  show "set (lr_members (snd (least_call api powf load h b))) = set (lr_members b)"
    using next_item_wrr_member(1) [of powf load b] next_item_p2c_member(1) [of api load b]
    by (auto simp: least_call_def least_next_item_def split: option.splits)
  show "fst (least_call api powf load h b) = Some e \<Longrightarrow> e \<in> set (lr_members b)"
    using next_item_wrr_member(2) [of powf load b e] next_item_p2c_member(2) [of api load b _ _ e]
    by (auto simp: least_call_def least_next_item_def split: option.splits if_splits)
qed simp_all

section \<open>Properties\<close>

text \<open>The random balancer never selects an endpoint of weight zero, and it always selects one if
  the first endpoint has a positive weight, whatever the generator draws.\<close>

theorem random_selects_positive:
  assumes "weighted_index_laws api"
    and "rs = fst (next_items (random_next_item api) hs (random_from_iter api rng weight_of es))"
  shows "(\<forall>e. Some e \<in> set rs \<longrightarrow> e \<in> set es \<and> weight_of e \<noteq> 0) \<and>
    (es \<noteq> [] \<and> weight_of (hd es) \<noteq> 0 \<longrightarrow> None \<notin> set rs)"
proof -
  obtain ys t where c: "collect_checked (items_of weight_of es) = (ys, t)" by fastforce
  define b where "b = random_from_iter api rng weight_of es"
  have b: "rb_items b = ys" "rb_ok api weight_of b"
    using collect_checked_items(3) [OF c] by (auto simp: b_def random_from_iter_def new_with_rng_def c rb_ok_def)
  have run: "(Some e \<in> set (fst (next_items (random_next_item api) hs b)) \<longrightarrow> weight_of e \<noteq> 0) \<and>
      (rb_weighted_index b \<noteq> None \<longrightarrow> None \<notin> set (fst (next_items (random_next_item api) hs b)))"
    if "rb_ok api weight_of b" for b e
    using that
  proof (induction hs arbitrary: b)
    case (Cons h hs)
    have ok: "rb_ok api weight_of (snd (random_next_item api h b))"
      using Cons.prems by (simp add: rb_ok_def random_next_item_simps)
    have "fst (random_next_item api h b) \<noteq> None" if "rb_weighted_index b \<noteq> None"
      using random_serves [OF assms(1) Cons.prems that] .
    then show ?case
      using Cons.IH [OF ok] random_positive [OF assms(1) Cons.prems, of h e]
      by (auto simp: Let_def case_prod_beta random_next_item_simps)
  qed simp
  have "rb_weighted_index b \<noteq> None" if "es \<noteq> []" "weight_of (hd es) \<noteq> 0"
    using random_weighted_index [where weight_of = weight_of, OF assms(1) that] by (simp add: b_def)
  then show ?thesis
    using run [OF b(2)] rb.selected_from_iter [of _ api hs rng weight_of es] assms(2) by (auto simp: b_def)
qed

text \<open>A generator for examples: it takes the first positions and the first positive weight.\<close>

definition demo_index_api :: "(u32 list, unit) weighted_index_api" where
  "demo_index_api =
     \<lparr>wi_new = (\<lambda>ws. if \<exists>w\<in>set ws. w \<noteq> 0 then Some ws else None),
      wi_sample = (\<lambda>ws g. (length (takeWhile (\<lambda>w. w = 0) ws), g))\<rparr>"

lemma demo_index_laws: "weighted_index_laws demo_index_api"
proof -
  have "length (takeWhile (\<lambda>w. w = 0) ws) < length ws \<and> ws ! length (takeWhile (\<lambda>w. w = 0) ws) \<noteq> 0"
    if "\<exists>w\<in>set ws. w \<noteq> 0" for ws :: "u32 list"
  proof
    show less: "length (takeWhile (\<lambda>w. w = 0) ws) < length ws"
      using that by (induction ws) auto
    show "ws ! length (takeWhile (\<lambda>w. w = 0) ws) \<noteq> 0" using nth_length_takeWhile [OF less] by simp
  qed
  then show ?thesis by (auto simp: weighted_index_laws_def demo_index_api_def split: if_splits)
qed

definition demo_weight :: "str \<Rightarrow> u32" where
  "demo_weight e = (if e = ''b'' then 0 else 1)"

theorem random_selects_positive_witness:
  "Some ''b'' \<notin> set (fst (next_items (random_next_item demo_index_api) [None, Some 3]
      (random_from_iter demo_index_api () demo_weight [''a'', ''b'', ''c'']))) \<and>
   None \<notin> set (fst (next_items (random_next_item demo_index_api) [None, Some 3]
      (random_from_iter demo_index_api () demo_weight [''a'', ''b'', ''c''])))"
  using random_selects_positive [OF demo_index_laws refl, of "[None, Some 3]" "()" demo_weight "[''a'', ''b'', ''c'']"]
  by (auto simp: demo_weight_def)

text \<open>C35: The balancer of least requests chooses well among endpoints of equal weight: every call
  selects an endpoint, and some other endpoint has at least as much load. So the one endpoint
  that is busier than all others is never selected, and of two endpoints always the less busy one.\<close>

theorem least_request_avoids_busiest:
  assumes "sampling_laws api" "2 \<le> length (lr_items b)" "lr_all_weights_equal b"
    and "lr_p2c_choice_count b = DEFAULT_P2C_CHOICE_COUNT"
  shows "\<exists>i j rng. i < length (lr_items b) \<and> j < length (lr_items b) \<and> i \<noteq> j \<and>
    least_next_item api powf load h b = Some (Some (li_item (lr_items b ! i)), b\<lparr>lr_rng := rng\<rparr>) \<and>
    load (li_item (lr_items b ! i)) \<le> load (li_item (lr_items b ! j))"
proof -
  have k: "unat (lr_p2c_choice_count b) = 2" using assms(4) by (simp add: DEFAULT_P2C_CHOICE_COUNT_def)
  then obtain "is" rng i where sel: "next_item_p2c api load b = Some (Some (li_item (lr_items b ! i)), b\<lparr>lr_rng := rng\<rparr>)"
      "i \<in> set is" "distinct is" "set is \<subseteq> {..<length (lr_items b)}" "length is = 2"
      "\<forall>j\<in>set is. load (li_item (lr_items b ! i)) \<le> load (li_item (lr_items b ! j))"
    using next_item_p2c_selects [OF assms(1,2), of load] assms(2) by auto
  have "card (set is) = 2" using sel(3,5) distinct_card by metis
  then obtain j where "j \<in> set is" "j \<noteq> i" using sel(2) by (metis card_2_iff' )
  then show ?thesis
    using sel assms(3) by (intro exI [of _ i] exI [of _ j] exI [of _ rng]) (auto simp: least_next_item_def)
qed

definition demo_sampling :: "unit sampling_api" where
  "demo_sampling = \<lparr>choose_multiple = (\<lambda>n k g. ([0..<min k n], g)), gen_range = (\<lambda>n g. (0, g))\<rparr>"

lemma demo_sampling_laws: "sampling_laws demo_sampling"
  by (auto simp: sampling_laws_def demo_sampling_def)

theorem least_request_avoids_busiest_witness:
  "\<exists>b'. least_next_item demo_sampling (\<lambda>x _. x) (\<lambda>e. if e = ''a'' then 5 else 1) None
      (least_from_iter () (\<lambda>_. 1) [''a'', ''b'']) = Some (Some ''b'', b')"
proof -
  let ?b = "least_from_iter () (\<lambda>_. 1) [''a'', ''b'']" and ?load = "\<lambda>e. if e = ''a'' then 5 else (1 :: u32)"
  have items: "lr_items ?b = [LeastItem_new 1 ''a'', LeastItem_new 1 ''b'']"
    "lr_all_weights_equal ?b" "lr_p2c_choice_count ?b = DEFAULT_P2C_CHOICE_COUNT"
    by (simp_all add: least_from_iter_def least_new_with_settings_and_rng_def all_equal_def LeastItem_new_def)
  obtain i j rng where ij: "i < length (lr_items ?b)" "j < length (lr_items ?b)" "i \<noteq> j"
      "least_next_item demo_sampling (\<lambda>x _. x) ?load None ?b = Some (Some (li_item (lr_items ?b ! i)), ?b\<lparr>lr_rng := rng\<rparr>)"
      "?load (li_item (lr_items ?b ! i)) \<le> ?load (li_item (lr_items ?b ! j))"
    using least_request_avoids_busiest [OF demo_sampling_laws _ items(2,3), of "\<lambda>x _. x" ?load None] items(1) by auto
  have "i = 1"
    using ij(1,2,3,5) unfolding items(1) by (auto simp: LeastItem_new_def less_Suc_eq word_le_nat_alt)
  then show ?thesis using ij(4) unfolding items(1) by (simp add: LeastItem_new_def)
qed

end
