(* ===== verification/Hash_Policy.thy ===== *)
theory Hash_Policy
  imports Matchers
begin

text \<open>
  The hash of a request for the consistent hashing balancers: \<^verbatim>\<open>HashPolicy\<close> of the
  configuration (\<^verbatim>\<open>config/.../route.rs\<close>) and \<^verbatim>\<open>HashState\<close> of
  \<^verbatim>\<open>clusters/balancers/hash_policy.rs\<close>, with the proof that the hash depends only on the
  parts of the request that the policies up to the first terminal one name.
\<close>

section \<open>The policies\<close>

text \<open>
  The hasher is \<^verbatim>\<open>XxHash64\<close> of the crate \<^verbatim>\<open>twox_hash\<close>: its initial state, how
  it takes an address, a header value and a string, and its result.
\<close>

record ('x, 'a) hasher_api =
  hasher_new :: 'x
  hash_addr :: "'a \<Rightarrow> 'x \<Rightarrow> 'x"
  hash_header_value :: "str \<Rightarrow> 'x \<Rightarrow> 'x"
  hash_str :: "str \<Rightarrow> 'x \<Rightarrow> 'x"
  hasher_finish :: "'x \<Rightarrow> u64"

datatype PolicySpecifier = SourceIp bool | HashHeader str | QueryParameter str

record HashPolicy =
  policy_specifier :: PolicySpecifier
  terminal :: bool

datatype HashPolicyResult = Applied | Skipped | Terminal

definition header_get :: "str \<Rightarrow> (str \<times> str) list \<Rightarrow> str option" where
  "header_get name hs = (case get_all name hs of [] \<Rightarrow> None | v # _ \<Rightarrow> Some v)"

definition query_get :: "(str \<Rightarrow> (str \<times> str) list) \<Rightarrow> str \<Rightarrow> Request \<Rightarrow> str option" where
  "query_get parse_query name req =
     (case uri_query req of
        None \<Rightarrow> None
      | Some query \<Rightarrow> map_option snd (List.find (\<lambda>(key, _). key = name) (parse_query query)))"

definition HashPolicy_apply ::
  "('x, 'a) hasher_api \<Rightarrow> (str \<Rightarrow> (str \<times> str) list) \<Rightarrow> HashPolicy \<Rightarrow> 'x \<Rightarrow> Request \<Rightarrow> 'a
     \<Rightarrow> HashPolicyResult \<times> 'x" where
  "HashPolicy_apply api parse_query policy hasher req src_addr =
     (let (applied, hasher) =
        (case policy_specifier policy of
           SourceIp True \<Rightarrow> (True, hash_addr api src_addr hasher)
         | SourceIp False \<Rightarrow> (False, hasher)
         | HashHeader name \<Rightarrow>
             (case header_get name (req_headers req) of
                Some value \<Rightarrow> (True, hash_header_value api value hasher)
              | None \<Rightarrow> (False, hasher))
         | QueryParameter name \<Rightarrow>
             (case query_get parse_query name req of
                Some value \<Rightarrow> (True, hash_str api value hasher)
              | None \<Rightarrow> (False, hasher)))
      in (case (applied, terminal policy) of
            (True, True) \<Rightarrow> (Terminal, hasher)
          | (True, False) \<Rightarrow> (Applied, hasher)
          | (False, _) \<Rightarrow> (Skipped, hasher)))"

section \<open>The hash of a request\<close>

record 'a HashState =
  policies :: "HashPolicy list"
  hs_req :: Request
  hs_src_addr :: 'a

definition HashState_new :: "HashPolicy list \<Rightarrow> Request \<Rightarrow> 'a \<Rightarrow> 'a HashState" where
  "HashState_new ps req src_addr = \<lparr>policies = ps, hs_req = req, hs_src_addr = src_addr\<rparr>"

text \<open>\<^verbatim>\<open>try_fold\<close> over the policies; a terminal policy breaks out of it.\<close>

fun hash_try_fold ::
  "('x, 'a) hasher_api \<Rightarrow> (str \<Rightarrow> (str \<times> str) list) \<Rightarrow> Request \<Rightarrow> 'a \<Rightarrow> bool \<Rightarrow> HashPolicy list \<Rightarrow> 'x
     \<Rightarrow> (unit + bool) \<times> 'x" where
  "hash_try_fold api parse_query req src_addr prev [] hasher = (Inr prev, hasher)"
| "hash_try_fold api parse_query req src_addr prev (policy # ps) hasher =
     (case HashPolicy_apply api parse_query policy hasher req src_addr of
        (Applied, hasher) \<Rightarrow> hash_try_fold api parse_query req src_addr True ps hasher
      | (Skipped, hasher) \<Rightarrow> hash_try_fold api parse_query req src_addr prev ps hasher
      | (Terminal, hasher) \<Rightarrow> (Inl (), hasher))"

definition HashState_compute ::
  "('x, 'a) hasher_api \<Rightarrow> (str \<Rightarrow> (str \<times> str) list) \<Rightarrow> 'a HashState \<Rightarrow> u64 option" where
  "HashState_compute api parse_query s =
     (if policies s = [] then None
      else case hash_try_fold api parse_query (hs_req s) (hs_src_addr s) False (policies s) (hasher_new api) of
             (Inr applied, hasher) \<Rightarrow> if applied then Some (hasher_finish api hasher) else None
           | (Inl _, hasher) \<Rightarrow> Some (hasher_finish api hasher))"

section \<open>What the hash depends on\<close>

text \<open>The parts of a request that enter the hash, in the order of the policies.\<close>

datatype 'a hash_input = Addr_Input 'a | Header_Input str | Query_Input str

definition hash_input_of ::
  "(str \<Rightarrow> (str \<times> str) list) \<Rightarrow> Request \<Rightarrow> 'a \<Rightarrow> HashPolicy \<Rightarrow> 'a hash_input option" where
  "hash_input_of parse_query req src_addr policy =
     (case policy_specifier policy of
        SourceIp on \<Rightarrow> if on then Some (Addr_Input src_addr) else None
      | HashHeader name \<Rightarrow> map_option Header_Input (header_get name (req_headers req))
      | QueryParameter name \<Rightarrow> map_option Query_Input (query_get parse_query name req))"

fun hash_inputs ::
  "(str \<Rightarrow> (str \<times> str) list) \<Rightarrow> Request \<Rightarrow> 'a \<Rightarrow> HashPolicy list \<Rightarrow> 'a hash_input list" where
  "hash_inputs parse_query req src_addr [] = []"
| "hash_inputs parse_query req src_addr (policy # ps) =
     (case hash_input_of parse_query req src_addr policy of
        None \<Rightarrow> hash_inputs parse_query req src_addr ps
      | Some i \<Rightarrow> i # (if terminal policy then [] else hash_inputs parse_query req src_addr ps))"

primrec hash_feed :: "('x, 'a) hasher_api \<Rightarrow> 'a hash_input \<Rightarrow> 'x \<Rightarrow> 'x" where
  "hash_feed api (Addr_Input a) = hash_addr api a"
| "hash_feed api (Header_Input v) = hash_header_value api v"
| "hash_feed api (Query_Input v) = hash_str api v"

lemma HashPolicy_apply_eq:
  "HashPolicy_apply api parse_query policy hasher req src_addr =
     (case hash_input_of parse_query req src_addr policy of
        None \<Rightarrow> (Skipped, hasher)
      | Some i \<Rightarrow> (if terminal policy then Terminal else Applied, hash_feed api i hasher))"
  by (simp add: HashPolicy_apply_def hash_input_of_def split: PolicySpecifier.splits option.splits bool.splits)

lemma hash_try_fold_eq:
  "let (r, h) = hash_try_fold api parse_query req src_addr prev ps hasher; is = hash_inputs parse_query req src_addr ps
   in h = fold (hash_feed api) is hasher \<and> (r = Inr False \<longleftrightarrow> \<not> prev \<and> is = [])"
proof (induction ps arbitrary: prev hasher)
  case (Cons policy ps)
  then show ?case
    by (cases "hash_input_of parse_query req src_addr policy")
      (simp_all add: HashPolicy_apply_eq Let_def case_prod_beta)
qed simp

lemma HashState_compute_eq:
  "HashState_compute api parse_query s =
     (let is = hash_inputs parse_query (hs_req s) (hs_src_addr s) (policies s)
      in if is = [] then None else Some (hasher_finish api (fold (hash_feed api) is (hasher_new api))))"
  using hash_try_fold_eq [of api parse_query "hs_req s" "hs_src_addr s" False "policies s" "hasher_new api"]
  by (auto simp: HashState_compute_def Let_def split: prod.splits sum.splits)

end
