(* ===== verification/Load_Assignment.thy ===== *)
theory Load_Assignment
  imports Priority_Balancer Maglev_Table Ring_Hash Least_Request Hash_Policy
begin

text \<open>
  The load assignment of a cluster: \<^verbatim>\<open>clusters/load_assignment.rs\<close> with the balancer
  that prefers the hosts named by a header (\<^verbatim>\<open>clusters/balancers/override_host.rs\<close>) and
  the addresses of \<^verbatim>\<open>transport/connector.rs\<close>. The endpoints are built from the
  configuration and distributed over the balancer of the policy; requests select channels, health
  checks update the balancer, and a new TLS secret rebuilds the endpoints.
\<close>

section \<open>Endpoints\<close>

datatype ConnectUsing =
    Socket str "str option" "duration option" "duration option"
  | InternalListener str str

text \<open>The fields of \<open>Socket\<close> are the authority, the device, the connect and the idle timeout.\<close>

primrec cu_authority :: "ConnectUsing \<Rightarrow> str" where
  "cu_authority (Socket authority _ _ _) = authority"
| "cu_authority (InternalListener _ synthetic_authority) = synthetic_authority"

primrec cu_with_bind_device :: "str option \<Rightarrow> ConnectUsing \<Rightarrow> ConnectUsing" where
  "cu_with_bind_device device (Socket authority _ connect_timeout idle_timeout) =
     Socket authority device connect_timeout idle_timeout"
| "cu_with_bind_device device (InternalListener n a) = InternalListener n a"

primrec cu_with_connect_timeout :: "duration option \<Rightarrow> ConnectUsing \<Rightarrow> ConnectUsing" where
  "cu_with_connect_timeout t (Socket authority bind_device _ idle_timeout) =
     Socket authority bind_device t idle_timeout"
| "cu_with_connect_timeout t (InternalListener n a) = InternalListener n a"

primrec cu_with_idle_timeout :: "duration option \<Rightarrow> ConnectUsing \<Rightarrow> ConnectUsing" where
  "cu_with_idle_timeout t (Socket authority bind_device connect_timeout _) =
     Socket authority bind_device connect_timeout t"
| "cu_with_idle_timeout t (InternalListener n a) = InternalListener n a"

datatype Address = SocketAddress str u16 | Pipe str u32 | Internal str

text \<open>
  \<open>to_authority\<close> is \<^verbatim>\<open>Authority::try_from\<close> of the crate \<^verbatim>\<open>http\<close>, as the text
  of the authority; \<open>show_u16\<close> prints a port.
\<close>

definition from_address ::
  "(str \<Rightarrow> str option) \<Rightarrow> (u16 \<Rightarrow> str) \<Rightarrow> Address \<Rightarrow> str option \<Rightarrow> duration option \<Rightarrow> duration option
     \<Rightarrow> str + ConnectUsing" where
  "from_address to_authority show_u16 address bind_device connect_timeout idle_timeout =
     (case address of
        SocketAddress host port \<Rightarrow>
          (case to_authority (host @ '':'' @ show_u16 port) of
             None \<Rightarrow> Inl ''invalid authority''
           | Some authority \<Rightarrow> Inr (Socket authority bind_device connect_timeout idle_timeout))
      | Internal server_listener_name \<Rightarrow>
          (case to_authority (server_listener_name @ ''.listener.internal:80'') of
             None \<Rightarrow> Inl ''invalid authority''
           | Some synthetic_authority \<Rightarrow> Inr (InternalListener server_listener_name synthetic_authority))
      | Pipe path _ \<Rightarrow> Inl (''Pipe addresses are not supported for upstream connections: '' @ path))"

text \<open>
  The channels are built by \<^verbatim>\<open>transport/http_channel.rs\<close> and
  \<^verbatim>\<open>transport/tcp_channel.rs\<close>; what an endpoint passes to them is recorded here.
  \<open>tls_configurator\<close> reads the TLS part of a transport socket, \<open>http_build\<close> takes the target, the
  cluster, the TLS configuration, the server name and the protocol options, and \<open>http_load\<close> is the
  number of requests in flight on a channel.
\<close>

record ('s, 't, 'o, 'h, 'c) channel_api =
  tls_configurator :: "'s \<Rightarrow> 't option"
  http_build :: "ConnectUsing \<Rightarrow> str \<Rightarrow> 't option \<Rightarrow> str option \<Rightarrow> 'o \<Rightarrow> str + 'h"
  tcp_new :: "ConnectUsing \<Rightarrow> str \<Rightarrow> 's \<Rightarrow> 'c"

record ('h, 'c) LbEndpoint =
  le_name :: str
  le_connect_using :: ConnectUsing
  le_weight :: u32
  le_health_status :: HealthStatus
  le_http_channel :: 'h
  le_tcp_channel :: 'c

definition le_authority :: "('h, 'c) LbEndpoint \<Rightarrow> str" where
  "le_authority e = cu_authority (le_connect_using e)"

text \<open>Authorities are compared without regard to case.\<close>

definition le_key :: "('h, 'c) LbEndpoint \<Rightarrow> str" where
  "le_key e = lower (le_authority e)"

definition LbEndpoint_eq :: "('h, 'c) LbEndpoint \<Rightarrow> ('h, 'c) LbEndpoint \<Rightarrow> bool" where
  "LbEndpoint_eq a b = eq_ignore_ascii_case (le_authority a) (le_authority b)"

record PartialLbEndpoint =
  pe_connect_using :: ConnectUsing
  pe_weight :: u32
  pe_health_status :: HealthStatus

definition PartialLbEndpoint_new :: "('h, 'c) LbEndpoint \<Rightarrow> PartialLbEndpoint" where
  "PartialLbEndpoint_new value = \<lparr>pe_connect_using = le_connect_using value, pe_weight = le_weight value,
     pe_health_status = le_health_status value\<rparr>"

definition pe_with_bind_device :: "str option \<Rightarrow> PartialLbEndpoint \<Rightarrow> PartialLbEndpoint" where
  "pe_with_bind_device d e = e\<lparr>pe_connect_using := cu_with_bind_device d (pe_connect_using e)\<rparr>"

definition pe_with_connect_timeout :: "duration option \<Rightarrow> PartialLbEndpoint \<Rightarrow> PartialLbEndpoint" where
  "pe_with_connect_timeout t e = e\<lparr>pe_connect_using := cu_with_connect_timeout t (pe_connect_using e)\<rparr>"

definition pe_with_idle_timeout :: "duration option \<Rightarrow> PartialLbEndpoint \<Rightarrow> PartialLbEndpoint" where
  "pe_with_idle_timeout t e = e\<lparr>pe_connect_using := cu_with_idle_timeout t (pe_connect_using e)\<rparr>"

definition LbEndpointBuilder_build ::
  "('s, 't, 'o, 'h, 'c) channel_api \<Rightarrow> str \<Rightarrow> PartialLbEndpoint \<Rightarrow> 'o \<Rightarrow> 's \<Rightarrow> str option
     \<Rightarrow> str + ('h, 'c) LbEndpoint" where
  "LbEndpointBuilder_build api cluster_name e http_protocol_options transport_socket server_name =
     (case http_build api (pe_connect_using e) cluster_name (tls_configurator api transport_socket) server_name
             http_protocol_options of
        Inl err \<Rightarrow> Inl err
      | Inr http_channel \<Rightarrow>
          Inr \<lparr>le_name = cluster_name, le_connect_using = pe_connect_using e, le_weight = pe_weight e,
               le_health_status = pe_health_status e, le_http_channel = http_channel,
               le_tcp_channel = tcp_new api (pe_connect_using e) cluster_name transport_socket\<rparr>)"

text \<open>\<^verbatim>\<open>collect::<Result<_>>\<close>: the first error, or all the values.\<close>

fun collect_result :: "('a \<Rightarrow> 'e + 'b) \<Rightarrow> 'a list \<Rightarrow> 'e + 'b list" where
  "collect_result f [] = Inr []"
| "collect_result f (x # xs) =
     (case f x of
        Inl e \<Rightarrow> Inl e
      | Inr y \<Rightarrow> (case collect_result f xs of Inl e \<Rightarrow> Inl e | Inr ys \<Rightarrow> Inr (y # ys)))"

section \<open>Localities\<close>

record LbEndpointConfig =
  lec_address :: Address
  lec_health_status :: HealthStatus
  lec_load_balancing_weight :: u32

record LocalityLbEndpointsConfig =
  llc_priority :: u32
  llc_lb_endpoints :: "LbEndpointConfig list"

record PartialLocalityLbEndpoints =
  pl_endpoints :: "PartialLbEndpoint list"
  pl_priority :: u32

definition PartialLbEndpoint_try_from ::
  "(str \<Rightarrow> str option) \<Rightarrow> (u16 \<Rightarrow> str) \<Rightarrow> LbEndpointConfig \<Rightarrow> str + PartialLbEndpoint" where
  "PartialLbEndpoint_try_from to_authority show_u16 c =
     (case from_address to_authority show_u16 (lec_address c) None None None of
        Inl e \<Rightarrow> Inl e
      | Inr connect_using \<Rightarrow>
          Inr \<lparr>pe_connect_using = connect_using, pe_weight = lec_load_balancing_weight c,
               pe_health_status = lec_health_status c\<rparr>)"

definition PartialLocalityLbEndpoints_try_from ::
  "(str \<Rightarrow> str option) \<Rightarrow> (u16 \<Rightarrow> str) \<Rightarrow> LocalityLbEndpointsConfig \<Rightarrow> str + PartialLocalityLbEndpoints" where
  "PartialLocalityLbEndpoints_try_from to_authority show_u16 c =
     (case collect_result (PartialLbEndpoint_try_from to_authority show_u16) (llc_lb_endpoints c) of
        Inl e \<Rightarrow> Inl e
      | Inr es \<Rightarrow> Inr \<lparr>pl_endpoints = es, pl_priority = llc_priority c\<rparr>)"

definition PartialClusterLoadAssignment_try_from ::
  "(str \<Rightarrow> str option) \<Rightarrow> (u16 \<Rightarrow> str) \<Rightarrow> LocalityLbEndpointsConfig list \<Rightarrow> str + PartialLocalityLbEndpoints list" where
  "PartialClusterLoadAssignment_try_from to_authority show_u16 ls =
     (case collect_result (PartialLocalityLbEndpoints_try_from to_authority show_u16) ls of
        Inl e \<Rightarrow> Inl e
      | Inr es \<Rightarrow> if es = [] then Inl ''At least one locality must be specified'' else Inr es)"

text \<open>A locality extends the part of it that the balancers read.\<close>

record ('s, 'o, 'h, 'c) Locality = "('h, 'c) LbEndpoint LocalityLbEndpoints" +
  loc_name :: str
  loc_transport_socket :: 's
  loc_http_protocol_options :: 'o
  loc_connection_timeout :: "duration option"
  loc_idle_timeout :: "duration option"

definition locality_slice :: "('s, 'o, 'h, 'c) Locality \<Rightarrow> ('h, 'c) LbEndpoint LocalityLbEndpoints" where
  "locality_slice l = \<lparr>endpoints = endpoints l, priority = priority l, healthy_endpoints = healthy_endpoints l,
     total_endpoints = total_endpoints l\<rparr>"

definition LocalityLbEndpoints_rebuild ::
  "('s, 't, 'o, 'h, 'c) channel_api \<Rightarrow> ('s, 'o, 'h, 'c) Locality \<Rightarrow> str + ('s, 'o, 'h, 'c) Locality" where
  "LocalityLbEndpoints_rebuild api l =
     (case collect_result (\<lambda>e. LbEndpointBuilder_build api (loc_name l) (PartialLbEndpoint_new e)
              (loc_http_protocol_options l) (loc_transport_socket l) None) (endpoints l) of
        Inl e \<Rightarrow> Inl e
      | Inr es \<Rightarrow> Inr (l\<lparr>endpoints := es\<rparr>))"

definition u32_try_from :: "nat \<Rightarrow> u32 option" where
  "u32_try_from n = (if n < 2 ^ 32 then Some (of_nat n) else None)"

definition LocalityLbEndpointsBuilder_build ::
  "('s, 't, 'o, 'h, 'c) channel_api \<Rightarrow> str \<Rightarrow> str option \<Rightarrow> PartialLocalityLbEndpoints \<Rightarrow> 'o \<Rightarrow> 's \<Rightarrow> str option
     \<Rightarrow> duration option \<Rightarrow> duration option \<Rightarrow> str + ('s, 'o, 'h, 'c) Locality" where
  "LocalityLbEndpointsBuilder_build api cluster_name bind_device pl http_protocol_options transport_socket
      server_name connection_timeout idle_timeout =
     (case collect_result (\<lambda>e.
              let server_name = (case tls_configurator api transport_socket of None \<Rightarrow> None | Some _ \<Rightarrow> server_name);
                  e = pe_with_idle_timeout idle_timeout (pe_with_connect_timeout connection_timeout
                        (pe_with_bind_device bind_device e))
              in LbEndpointBuilder_build api cluster_name e http_protocol_options transport_socket server_name)
              (pl_endpoints pl) of
        Inl err \<Rightarrow> Inl err
      | Inr es \<Rightarrow>
          (case (u32_try_from (length es),
                 u32_try_from (length (filter (\<lambda>e. is_healthy (le_health_status e)) es))) of
             (Some tot, Some healthy) \<Rightarrow>
               if healthy > 4294967295 div 100 then Inl ''Too many endpoints''
               else Inr \<lparr>endpoints = es, priority = pl_priority pl, healthy_endpoints = healthy,
                         total_endpoints = tot, loc_name = cluster_name, loc_transport_socket = transport_socket,
                         loc_http_protocol_options = http_protocol_options,
                         loc_connection_timeout = connection_timeout, loc_idle_timeout = idle_timeout\<rparr>
           | _ \<Rightarrow> Inl ''Too many endpoints''))"

section \<open>The balancers\<close>

datatype StandardLbPolicy = LbRoundRobin | LbRandom | LbLeastRequest | LbRingHash | LbMaglev | LbClusterProvided

datatype OverrideHostSource = OverrideHeader str | OverrideMetadata str

record OverrideHostConfig =
  override_host_source :: OverrideHostSource
  fallback_policy :: StandardLbPolicy

datatype LbPolicy = Standard StandardLbPolicy | ExtendedOverrideHost OverrideHostConfig

definition LbPolicy_requires_hash :: "LbPolicy \<Rightarrow> bool" where
  "LbPolicy_requires_hash p \<longleftrightarrow> p = Standard LbRingHash \<or> p = Standard LbMaglev"

text \<open>
  What the balancers take from outside: the hash functions, the samplers and the power function of
  the crates, and the generator of a new balancer. A call brings the number that the generator of the
  thread produces and the loads of the channels at that moment.
\<close>

record ('w, 'g) lb_env =
  env_hash_one :: "u64 \<Rightarrow> str \<Rightarrow> u64"
  env_hash_slot :: "str \<Rightarrow> nat \<Rightarrow> u64"
  env_index :: "('w, 'g) weighted_index_api"
  env_sampling :: "'g sampling_api"
  env_powf :: "f64 \<Rightarrow> f64 \<Rightarrow> f64"
  env_rng :: 'g

record 'h lb_call =
  lc_random :: u64
  lc_load :: "'h \<Rightarrow> u32"

record 'e OverrideEndpoint =
  oe_endpoint :: 'e
  oe_healthy :: bool

datatype ('e, 'w, 'g) BalancerType =
    RoundRobin "('e WeightedRoundRobinBalancer, 'e) DefaultBalancer"
  | Random "(('e, 'w, 'g) RandomBalancer, 'e) DefaultBalancer"
  | LeastRequests "(('e, 'g) WeightedLeastRequestBalancer, 'e) DefaultBalancer"
  | RingHash "('e RingHashBalancer option, 'e) DefaultBalancer"
  | MaglevHash "('e MaglevBalancer, 'e) DefaultBalancer"
  | OverrideHost "('e, 'w, 'g) OverrideHostLoadBalancer"
and ('e, 'w, 'g) OverrideHostLoadBalancer =
    OverrideHostLoadBalancer (oh_header: str) (oh_fallback: "('e, 'w, 'g) BalancerType")
      (oh_endpoints: "(str \<times> 'e OverrideEndpoint) list")

type_synonym ('h, 'c, 'w, 'g) endpoint_balancer = "(('h, 'c) LbEndpoint, 'w, 'g) BalancerType"
type_synonym ('h, 'c, 'w, 'g) override_balancer = "(('h, 'c) LbEndpoint, 'w, 'g) OverrideHostLoadBalancer"

text \<open>The constructors of the inner balancers.\<close>

abbreviation rr_from :: "('h, 'c) LbEndpoint list \<Rightarrow> ('h, 'c) LbEndpoint WeightedRoundRobinBalancer" where
  "rr_from \<equiv> wrr_from_iter le_weight"
abbreviation rnd_from :: "('w, 'g) lb_env \<Rightarrow> ('h, 'c) LbEndpoint list \<Rightarrow> (('h, 'c) LbEndpoint, 'w, 'g) RandomBalancer" where
  "rnd_from env \<equiv> random_from_iter (env_index env) (env_rng env) le_weight"
abbreviation lst_from ::
  "('w, 'g) lb_env \<Rightarrow> ('h, 'c) LbEndpoint list \<Rightarrow> (('h, 'c) LbEndpoint, 'g) WeightedLeastRequestBalancer" where
  "lst_from env \<equiv> least_from_iter (env_rng env) le_weight"
abbreviation rng_from :: "('w, 'g) lb_env \<Rightarrow> ('h, 'c) LbEndpoint list \<Rightarrow> ('h, 'c) LbEndpoint RingHashBalancer option" where
  "rng_from env \<equiv> ring_from_iter le_weight le_authority (env_hash_slot env)"
abbreviation mag_from :: "('w, 'g) lb_env \<Rightarrow> ('h, 'c) LbEndpoint list \<Rightarrow> ('h, 'c) LbEndpoint MaglevBalancer" where
  "mag_from env \<equiv> maglev_from_iter le_weight le_authority (env_hash_one env)"

abbreviation call_load :: "'h lb_call \<Rightarrow> ('h, 'c) LbEndpoint \<Rightarrow> u32" where
  "call_load call \<equiv> \<lambda>e. lc_load call (le_http_channel e)"

fun BalancerType_next_item ::
  "('w, 'g) lb_env \<Rightarrow> 'h lb_call \<Rightarrow> u64 option \<Rightarrow> ('h, 'c, 'w, 'g) endpoint_balancer
     \<Rightarrow> ('h, 'c) LbEndpoint option \<times> ('h, 'c, 'w, 'g) endpoint_balancer"
and OverrideHost_next_item ::
  "('w, 'g) lb_env \<Rightarrow> 'h lb_call \<Rightarrow> u64 option \<Rightarrow> ('h, 'c, 'w, 'g) override_balancer
     \<Rightarrow> ('h, 'c) LbEndpoint option \<times> ('h, 'c, 'w, 'g) override_balancer" where
  "BalancerType_next_item env call hash (RoundRobin b) =
     map_prod id RoundRobin (DefaultBalancer_next_item wrr_next_item hash b)"
| "BalancerType_next_item env call hash (Random b) =
     map_prod id Random (DefaultBalancer_next_item (random_next_item (env_index env)) hash b)"
| "BalancerType_next_item env call hash (LeastRequests b) =
     map_prod id LeastRequests
       (DefaultBalancer_next_item (least_call (env_sampling env) (env_powf env) (call_load call)) hash b)"
| "BalancerType_next_item env call hash (RingHash b) =
     map_prod id RingHash (DefaultBalancer_next_item (ring_next_item_opt (lc_random call)) hash b)"
| "BalancerType_next_item env call hash (MaglevHash b) =
     map_prod id MaglevHash (DefaultBalancer_next_item (maglev_next_item (lc_random call)) hash b)"
| "BalancerType_next_item env call hash (OverrideHost b) =
     map_prod id OverrideHost (OverrideHost_next_item env call hash b)"
| "OverrideHost_next_item env call hash (OverrideHostLoadBalancer header fallback es) =
     map_prod id (\<lambda>f. OverrideHostLoadBalancer header f es) (BalancerType_next_item env call hash fallback)"

text \<open>A health update is undefined where the code panics.\<close>

definition override_update_entry ::
  "str \<Rightarrow> HealthStatus \<Rightarrow> (str \<times> 'e OverrideEndpoint) list \<Rightarrow> (str \<times> 'e OverrideEndpoint) list" where
  "override_update_entry key h es =
     map (\<lambda>(k, entry). (k, if k = key then entry\<lparr>oe_healthy := is_healthy h\<rparr> else entry)) es"

fun BalancerType_update_health ::
  "('w, 'g) lb_env \<Rightarrow> ('h, 'c) LbEndpoint \<Rightarrow> HealthStatus \<Rightarrow> ('h, 'c, 'w, 'g) endpoint_balancer
     \<Rightarrow> ((lb_error + ValueUpdated) \<times> ('h, 'c, 'w, 'g) endpoint_balancer) option"
and OverrideHost_update_health ::
  "('w, 'g) lb_env \<Rightarrow> ('h, 'c) LbEndpoint \<Rightarrow> HealthStatus \<Rightarrow> ('h, 'c, 'w, 'g) override_balancer
     \<Rightarrow> ((lb_error + ValueUpdated) \<times> ('h, 'c, 'w, 'g) override_balancer) option" where
  "BalancerType_update_health env ep h (RoundRobin b) =
     map_option (map_prod id RoundRobin) (DefaultBalancer_update_health rr_from LbEndpoint_eq ep h b)"
| "BalancerType_update_health env ep h (Random b) =
     map_option (map_prod id Random) (DefaultBalancer_update_health (rnd_from env) LbEndpoint_eq ep h b)"
| "BalancerType_update_health env ep h (LeastRequests b) =
     map_option (map_prod id LeastRequests) (DefaultBalancer_update_health (lst_from env) LbEndpoint_eq ep h b)"
| "BalancerType_update_health env ep h (RingHash b) =
     map_option (map_prod id RingHash) (DefaultBalancer_update_health (rng_from env) LbEndpoint_eq ep h b)"
| "BalancerType_update_health env ep h (MaglevHash b) =
     map_option (map_prod id MaglevHash) (DefaultBalancer_update_health (mag_from env) LbEndpoint_eq ep h b)"
| "BalancerType_update_health env ep h (OverrideHost b) =
     map_option (map_prod id OverrideHost) (OverrideHost_update_health env ep h b)"
| "OverrideHost_update_health env ep h (OverrideHostLoadBalancer header fallback es) =
     map_option (map_prod id (\<lambda>f. OverrideHostLoadBalancer header f (override_update_entry (le_authority ep) h es)))
       (BalancerType_update_health env ep h fallback)"

fun BalancerType_requires_hash :: "('e, 'w, 'g) BalancerType \<Rightarrow> bool"
and fallback_requires_hash :: "('e, 'w, 'g) OverrideHostLoadBalancer \<Rightarrow> bool" where
  "BalancerType_requires_hash (RingHash _) = True"
| "BalancerType_requires_hash (MaglevHash _) = True"
| "BalancerType_requires_hash (OverrideHost b) = fallback_requires_hash b"
| "BalancerType_requires_hash _ = False"
| "fallback_requires_hash (OverrideHostLoadBalancer _ fallback _) = BalancerType_requires_hash fallback"

subsection \<open>The hosts named by a header\<close>

definition override_insert ::
  "(str \<times> ('h, 'c) LbEndpoint OverrideEndpoint) list option \<Rightarrow> ('h, 'c) LbEndpoint
     \<Rightarrow> (str \<times> ('h, 'c) LbEndpoint OverrideEndpoint) list \<Rightarrow> (str \<times> ('h, 'c) LbEndpoint OverrideEndpoint) list" where
  "override_insert previous e m =
     (let key = le_authority e;
          healthy = (case Option.bind previous (\<lambda>prev. map_of prev key) of
                       Some entry \<Rightarrow> oe_healthy entry
                     | None \<Rightarrow> is_healthy (le_health_status e))
      in AList.update key \<lparr>oe_endpoint = e, oe_healthy = healthy\<rparr> m)"

definition OverrideHost_build ::
  "str \<Rightarrow> ('h, 'c, 'w, 'g) endpoint_balancer \<Rightarrow> ('s, 'o, 'h, 'c) Locality list
     \<Rightarrow> (str \<times> ('h, 'c) LbEndpoint OverrideEndpoint) list option \<Rightarrow> ('h, 'c, 'w, 'g) override_balancer" where
  "OverrideHost_build header fallback locs previous =
     OverrideHostLoadBalancer header fallback
       (fold (\<lambda>locality m. fold (override_insert previous) (endpoints locality) m) locs [])"

definition OverrideHost_new ::
  "str \<Rightarrow> ('h, 'c, 'w, 'g) endpoint_balancer \<Rightarrow> ('s, 'o, 'h, 'c) Locality list \<Rightarrow> ('h, 'c, 'w, 'g) override_balancer" where
  "OverrideHost_new header fallback locs = OverrideHost_build header fallback locs None"

definition OverrideHost_rebuild ::
  "('h, 'c, 'w, 'g) override_balancer \<Rightarrow> ('s, 'o, 'h, 'c) Locality list \<Rightarrow> ('h, 'c, 'w, 'g) override_balancer" where
  "OverrideHost_rebuild b locs = OverrideHost_build (oh_header b) (oh_fallback b) locs (Some (oh_endpoints b))"

definition BalancerType_rebuild ::
  "('h, 'c, 'w, 'g) endpoint_balancer \<Rightarrow> ('s, 'o, 'h, 'c) Locality list \<Rightarrow> ('h, 'c, 'w, 'g) endpoint_balancer" where
  "BalancerType_rebuild b locs =
     (case b of OverrideHost ob \<Rightarrow> OverrideHost (OverrideHost_rebuild ob locs) | other \<Rightarrow> other)"

datatype 'h HttpChannels = Single 'h | MultiWithFailover 'h "'h list"

primrec channel_list :: "'h HttpChannels \<Rightarrow> 'h list" where
  "channel_list (Single h) = [h]"
| "channel_list (MultiWithFailover h hs) = h # hs"

text \<open>
  The functions of the crates \<^verbatim>\<open>http\<close> and \<^verbatim>\<open>url\<close> and the hasher.
  \<open>to_str\<close> succeeds on visible ASCII, of which \<^verbatim>\<open>trim\<close> strips spaces and tabs.
\<close>

record ('x, 'a) http_api =
  ha_hasher :: "('x, 'a) hasher_api"
  ha_parse_query :: "str \<Rightarrow> (str \<times> str) list"
  ha_to_str :: "str \<Rightarrow> str option"
  ha_to_authority :: "str \<Rightarrow> str option"

definition override_lookup ::
  "('x, 'a) http_api \<Rightarrow> (str \<times> 'e OverrideEndpoint) list \<Rightarrow> str \<Rightarrow> 'e option" where
  "override_lookup http es raw =
     (let trimmed = str_trim raw
      in if trimmed = [] then None
         else case ha_to_authority http trimmed of
                None \<Rightarrow> None
              | Some authority \<Rightarrow>
                  (case map_of es authority of
                     Some entry \<Rightarrow> if oe_healthy entry then Some (oe_endpoint entry) else None
                   | None \<Rightarrow> None))"

definition select_fallback ::
  "('w, 'g) lb_env \<Rightarrow> 'h lb_call \<Rightarrow> u64 option \<Rightarrow> ('h, 'c, 'w, 'g) override_balancer
     \<Rightarrow> (str + 'h HttpChannels) \<times> ('h, 'c, 'w, 'g) override_balancer" where
  "select_fallback env call fallback_hash b =
     (case OverrideHost_next_item env call fallback_hash b of
        (None, b) \<Rightarrow> (Inl ''No active endpoint'', b)
      | (Some e, b) \<Rightarrow> (Inr (Single (le_http_channel e)), b))"

definition select_override ::
  "('x, 'a) http_api \<Rightarrow> ('w, 'g) lb_env \<Rightarrow> 'h lb_call \<Rightarrow> str \<Rightarrow> u64 option \<Rightarrow> ('h, 'c, 'w, 'g) override_balancer
     \<Rightarrow> (str + 'h HttpChannels) \<times> ('h, 'c, 'w, 'g) override_balancer" where
  "select_override http env call header_value fallback_hash b =
     (case ha_to_str http header_value of
        None \<Rightarrow> select_fallback env call fallback_hash b
      | Some value_str \<Rightarrow>
          (case List.map_filter (override_lookup http (oh_endpoints b)) (str_split CHR '','' value_str) of
             primary # rest \<Rightarrow>
               (Inr (MultiWithFailover (le_http_channel primary) (map le_http_channel rest)), b)
           | [] \<Rightarrow> select_fallback env call fallback_hash b))"

section \<open>The load assignment\<close>

datatype RoutingRequirement =
    ReqNone | ReqHeader str | ReqMetadataKey str | ReqAuthority | ReqHash | ReqOverrideHost str bool

datatype 'a RoutingContext =
    CtxNone | CtxHeader str | CtxDynamicDest str | CtxAuthority str | CtxHash "'a HashState"
  | CtxOverrideHost str "'a HashState option"

record ('s, 'o, 'h, 'c, 'w, 'g) ClusterLoadAssignment =
  cla_cluster_name :: str
  cla_transport_socket :: 's
  cla_protocol_options :: 'o
  cla_balancer :: "('h, 'c, 'w, 'g) endpoint_balancer"
  cla_endpoints :: "('s, 'o, 'h, 'c) Locality list"

definition cla_get_routing_requirements :: "('s, 'o, 'h, 'c, 'w, 'g) ClusterLoadAssignment \<Rightarrow> RoutingRequirement" where
  "cla_get_routing_requirements cla =
     (case cla_balancer cla of
        OverrideHost b \<Rightarrow> ReqOverrideHost (oh_header b) (fallback_requires_hash b)
      | b \<Rightarrow> if BalancerType_requires_hash b then ReqHash else ReqNone)"

definition cla_next_item ::
  "('w, 'g) lb_env \<Rightarrow> 'h lb_call \<Rightarrow> u64 option \<Rightarrow> ('s, 'o, 'h, 'c, 'w, 'g) ClusterLoadAssignment
     \<Rightarrow> (str + ('h, 'c) LbEndpoint) \<times> ('s, 'o, 'h, 'c, 'w, 'g) ClusterLoadAssignment" where
  "cla_next_item env call hash cla =
     (let (r, b) = BalancerType_next_item env call hash (cla_balancer cla)
      in (case r of None \<Rightarrow> Inl ''No active endpoint'' | Some e \<Rightarrow> Inr e, cla\<lparr>cla_balancer := b\<rparr>))"

abbreviation single_channel :: "str + ('h, 'c) LbEndpoint \<Rightarrow> str + 'h HttpChannels" where
  "single_channel \<equiv> map_sum id (\<lambda>e. Single (le_http_channel e))"

definition get_http_channel ::
  "('x, 'a) http_api \<Rightarrow> ('w, 'g) lb_env \<Rightarrow> 'h lb_call \<Rightarrow> 'a RoutingContext
     \<Rightarrow> ('s, 'o, 'h, 'c, 'w, 'g) ClusterLoadAssignment
     \<Rightarrow> (str + 'h HttpChannels) \<times> ('s, 'o, 'h, 'c, 'w, 'g) ClusterLoadAssignment" where
  "get_http_channel http env call context cla =
     (let compute = HashState_compute (ha_hasher http) (ha_parse_query http)
      in case context of
           CtxOverrideHost header fallback_hash \<Rightarrow>
             (let hash = Option.bind fallback_hash compute
              in case cla_balancer cla of
                   OverrideHost b \<Rightarrow>
                     (let (r, b) = select_override http env call header hash b
                      in (r, cla\<lparr>cla_balancer := OverrideHost b\<rparr>))
                 | _ \<Rightarrow> map_prod single_channel id (cla_next_item env call hash cla))
         | CtxHash hash_state \<Rightarrow> map_prod single_channel id (cla_next_item env call (compute hash_state) cla)
         | _ \<Rightarrow> map_prod single_channel id (cla_next_item env call None cla))"

definition get_tcp_channel ::
  "('w, 'g) lb_env \<Rightarrow> 'h lb_call \<Rightarrow> ('s, 'o, 'h, 'c, 'w, 'g) ClusterLoadAssignment
     \<Rightarrow> (str + 'c) \<times> ('s, 'o, 'h, 'c, 'w, 'g) ClusterLoadAssignment" where
  "get_tcp_channel env call cla = map_prod (map_sum id le_tcp_channel) id (cla_next_item env call None cla)"

text \<open>\<open>grpc_new\<close> is \<^verbatim>\<open>GrpcService::try_new\<close> on the channel and the authority.\<close>

definition grpc_service :: "('h \<Rightarrow> str \<Rightarrow> str + 'r) \<Rightarrow> ('h, 'c) LbEndpoint \<Rightarrow> str + 'r" where
  "grpc_service grpc_new e = grpc_new (le_http_channel e) (le_authority e)"

definition get_grpc_channel ::
  "('h \<Rightarrow> str \<Rightarrow> str + 'r) \<Rightarrow> ('w, 'g) lb_env \<Rightarrow> 'h lb_call \<Rightarrow> ('s, 'o, 'h, 'c, 'w, 'g) ClusterLoadAssignment
     \<Rightarrow> (str + 'r) \<times> ('s, 'o, 'h, 'c, 'w, 'g) ClusterLoadAssignment" where
  "get_grpc_channel grpc_new env call cla =
     (case cla_next_item env call None cla of
        (Inl e, cla) \<Rightarrow> (Inl e, cla)
      | (Inr endp, cla) \<Rightarrow> (grpc_service grpc_new endp, cla))"

definition all_endpoints :: "('s, 'o, 'h, 'c, 'w, 'g) ClusterLoadAssignment \<Rightarrow> ('h, 'c) LbEndpoint list" where
  "all_endpoints cla = concat (map endpoints (cla_endpoints cla))"

definition all_http_channels :: "('s, 'o, 'h, 'c, 'w, 'g) ClusterLoadAssignment \<Rightarrow> (str \<times> 'h) list" where
  "all_http_channels cla = map (\<lambda>e. (le_authority e, le_http_channel e)) (all_endpoints cla)"

definition all_tcp_channels :: "('s, 'o, 'h, 'c, 'w, 'g) ClusterLoadAssignment \<Rightarrow> (str \<times> 'c) list" where
  "all_tcp_channels cla = map (\<lambda>e. (le_authority e, le_tcp_channel e)) (all_endpoints cla)"

definition try_all_grpc_channels ::
  "('h \<Rightarrow> str \<Rightarrow> str + 'r) \<Rightarrow> ('s, 'o, 'h, 'c, 'w, 'g) ClusterLoadAssignment \<Rightarrow> (str + str \<times> 'r) list" where
  "try_all_grpc_channels grpc_new cla =
     map (\<lambda>e. map_sum id (Pair (le_authority e)) (grpc_service grpc_new e)) (all_endpoints cla)"

text \<open>An endpoint that the balancer does not know is reported to the log only.\<close>

fun update_list ::
  "('e \<Rightarrow> HealthStatus \<Rightarrow> 'b \<Rightarrow> ('r \<times> 'b) option) \<Rightarrow> HealthStatus \<Rightarrow> 'e list \<Rightarrow> 'b \<Rightarrow> 'b option" where
  "update_list update_health h [] b = Some b"
| "update_list update_health h (e # es) b =
     (case update_health e h b of
        None \<Rightarrow> None
      | Some (_, b) \<Rightarrow> update_list update_health h es b)"

definition update_endpoint_health ::
  "('w, 'g) lb_env \<Rightarrow> str \<Rightarrow> HealthStatus \<Rightarrow> ('s, 'o, 'h, 'c, 'w, 'g) ClusterLoadAssignment
     \<Rightarrow> ('s, 'o, 'h, 'c, 'w, 'g) ClusterLoadAssignment option" where
  "update_endpoint_health env authority h cla =
     map_option (\<lambda>b. cla\<lparr>cla_balancer := b\<rparr>)
       (update_list (BalancerType_update_health env) h
          (concat (map (\<lambda>locality. filter (\<lambda>e. eq_ignore_ascii_case (le_authority e) authority) (endpoints locality))
             (cla_endpoints cla)))
          (cla_balancer cla))"

definition cla_rebuild ::
  "('s, 't, 'o, 'h, 'c) channel_api \<Rightarrow> ('s, 'o, 'h, 'c, 'w, 'g) ClusterLoadAssignment
     \<Rightarrow> str + ('s, 'o, 'h, 'c, 'w, 'g) ClusterLoadAssignment" where
  "cla_rebuild api cla =
     (case collect_result (\<lambda>l. LocalityLbEndpoints_rebuild api
              (l\<lparr>loc_transport_socket := cla_transport_socket cla\<rparr>)) (cla_endpoints cla) of
        Inl e \<Rightarrow> Inl e
      | Inr locs \<Rightarrow> Inr (cla\<lparr>cla_balancer := BalancerType_rebuild (cla_balancer cla) locs, cla_endpoints := locs\<rparr>))"

section \<open>Building the load assignment\<close>

record ('s, 'o) ClusterLoadAssignmentBuilder =
  clb_cluster_name :: str
  clb_cla :: "PartialLocalityLbEndpoints list"
  clb_bind_device :: "str option"
  clb_protocol_options :: "'o option"
  clb_lb_policy :: LbPolicy
  clb_transport_socket :: 's
  clb_server_name :: "str option"
  clb_connection_timeout :: "duration option"
  clb_idle_timeout :: "duration option"

abbreviation from_localities ::
  "((('h, 'c) LbEndpoint) list \<Rightarrow> 'b) \<Rightarrow> ('s, 'o, 'h, 'c) Locality list \<Rightarrow> ('b, ('h, 'c) LbEndpoint) DefaultBalancer option" where
  "from_localities from_iter locs \<equiv> DefaultBalancer_from_slice from_iter le_health_status (map locality_slice locs)"

primrec build_balancer_from_policy ::
  "('w, 'g) lb_env \<Rightarrow> ('s, 'o, 'h, 'c) Locality list \<Rightarrow> StandardLbPolicy \<Rightarrow> ('h, 'c, 'w, 'g) endpoint_balancer option" where
  "build_balancer_from_policy env locs LbRandom = map_option Random (from_localities (rnd_from env) locs)"
| "build_balancer_from_policy env locs LbClusterProvided = map_option Random (from_localities (rnd_from env) locs)"
| "build_balancer_from_policy env locs LbRoundRobin = map_option RoundRobin (from_localities rr_from locs)"
| "build_balancer_from_policy env locs LbLeastRequest = map_option LeastRequests (from_localities (lst_from env) locs)"
| "build_balancer_from_policy env locs LbRingHash = map_option RingHash (from_localities (rng_from env) locs)"
| "build_balancer_from_policy env locs LbMaglev = map_option MaglevHash (from_localities (mag_from env) locs)"

text \<open>
  The outer option is a panic, which happens in the priorities of a locality without endpoints.
\<close>

definition ClusterLoadAssignmentBuilder_build ::
  "('s, 't, 'o, 'h, 'c) channel_api \<Rightarrow> ('w, 'g) lb_env \<Rightarrow> 'o \<Rightarrow> ('s, 'o) ClusterLoadAssignmentBuilder
     \<Rightarrow> (str + ('s, 'o, 'h, 'c, 'w, 'g) ClusterLoadAssignment) option" where
  "ClusterLoadAssignmentBuilder_build api env default_options clb =
     (let protocol_options = (case clb_protocol_options clb of Some os \<Rightarrow> os | None \<Rightarrow> default_options);
          transport_socket = clb_transport_socket clb
      in case collect_result (\<lambda>e.
                let server_name = (case tls_configurator api transport_socket of
                                     None \<Rightarrow> None | Some _ \<Rightarrow> clb_server_name clb)
                in LocalityLbEndpointsBuilder_build api (clb_cluster_name clb) (clb_bind_device clb) e protocol_options
                     transport_socket server_name (clb_connection_timeout clb) (clb_idle_timeout clb))
                (clb_cla clb) of
           Inl e \<Rightarrow> Some (Inl e)
         | Inr locs \<Rightarrow>
             (let finish = (\<lambda>b. Inr \<lparr>cla_cluster_name = clb_cluster_name clb, cla_transport_socket = transport_socket,
                                  cla_protocol_options = protocol_options, cla_balancer = b, cla_endpoints = locs\<rparr>)
              in case clb_lb_policy clb of
                   Standard policy \<Rightarrow> map_option finish (build_balancer_from_policy env locs policy)
                 | ExtendedOverrideHost config \<Rightarrow>
                     (case override_host_source config of
                        OverrideHeader header \<Rightarrow>
                          map_option (\<lambda>fallback. finish (OverrideHost (OverrideHost_new header fallback locs)))
                            (build_balancer_from_policy env locs (fallback_policy config))
                      | OverrideMetadata _ \<Rightarrow> Some (Inl ''Metadata override host source is not supported''))))"

end
