(* ===== verification/Clusters.thy ===== *)
theory Clusters
  imports Load_Assignment Circuit_Breaker
begin

text \<open>
  The clusters: \<^verbatim>\<open>clusters/cluster.rs\<close> with its three kinds (\<^verbatim>\<open>static.rs\<close>,
  \<^verbatim>\<open>dynamic.rs\<close>, \<^verbatim>\<open>original_dst.rs\<close>), the transport socket of an upstream
  (\<^verbatim>\<open>transport/transport_socket.rs\<close>), and the functions of \<^verbatim>\<open>clusters_manager.rs\<close>
  that change clusters or take channels from them. The circuit breaker of a cluster and the cluster
  map are those of \<^verbatim>\<open>Circuit_Breaker\<close>, with the kind of a cluster as the rest.
\<close>

section \<open>Transport sockets\<close>

text \<open>
  A TLS configuration is a value of \<open>'t\<close> and a secret one of \<open>'q\<close>; whether a configuration uses a
  secret and how a new one is built from it is the code of \<^verbatim>\<open>secrets\<close>.
\<close>

record ('t, 'q) tls_api =
  uses_secret :: "str \<Rightarrow> 't \<Rightarrow> bool"
  tls_update :: "'t \<Rightarrow> str \<Rightarrow> 'q \<Rightarrow> str + 't"

datatype ('t, 'p) UpstreamTransportSocketConfigurator = TlsSocket 't | ProxyProtocolSocket 'p "'t option" | NoSocket

fun socket_tls_configurator :: "('t, 'p) UpstreamTransportSocketConfigurator \<Rightarrow> 't option" where
  "socket_tls_configurator (TlsSocket tls_conf) = Some tls_conf"
| "socket_tls_configurator (ProxyProtocolSocket _ inner_tls_configurator) = inner_tls_configurator"
| "socket_tls_configurator NoSocket = None"

definition proxy_protocol_update_secret ::
  "('t, 'q) tls_api \<Rightarrow> str \<Rightarrow> 'q \<Rightarrow> 'p \<Rightarrow> 't option
     \<Rightarrow> str + bool \<times> ('t, 'p) UpstreamTransportSocketConfigurator" where
  "proxy_protocol_update_secret tls secret_id secret p inner =
     (case inner of
        Some inner_tls_configurator \<Rightarrow>
          if uses_secret tls secret_id inner_tls_configurator
          then (case tls_update tls inner_tls_configurator secret_id secret of
                  Inl e \<Rightarrow> Inl e
                | Inr updated_tls \<Rightarrow> Inr (True, ProxyProtocolSocket p (Some updated_tls)))
          else Inr (False, ProxyProtocolSocket p inner)
      | None \<Rightarrow> Inr (False, ProxyProtocolSocket p inner))"

definition update_secret ::
  "('t, 'q) tls_api \<Rightarrow> str \<Rightarrow> 'q \<Rightarrow> ('t, 'p) UpstreamTransportSocketConfigurator
     \<Rightarrow> str + bool \<times> ('t, 'p) UpstreamTransportSocketConfigurator" where
  "update_secret tls secret_id secret socket =
     (case socket of
        TlsSocket tls_conf \<Rightarrow>
          if uses_secret tls secret_id tls_conf
          then (case tls_update tls tls_conf secret_id secret of
                  Inl e \<Rightarrow> Inl e
                | Inr updated_tls \<Rightarrow> Inr (True, TlsSocket updated_tls))
          else Inr (False, socket)
      | ProxyProtocolSocket p inner \<Rightarrow> proxy_protocol_update_secret tls secret_id secret p inner
      | NoSocket \<Rightarrow> Inr (False, socket))"

type_synonym ('t, 'p) socket = "('t, 'p) UpstreamTransportSocketConfigurator"

section \<open>The kinds of clusters\<close>

record ('t, 'p, 'o, 'h, 'c, 'w, 'g) StaticCluster =
  st_transport_socket :: "('t, 'p) socket"
  st_load_assignment :: "(('t, 'p) socket, 'o, 'h, 'c, 'w, 'g) ClusterLoadAssignment"

text \<open>Of the configuration of a dynamic cluster, the fields that a new load assignment takes from it.\<close>

record ('t, 'p, 'o, 'h, 'c, 'w, 'g) DynamicCluster =
  dy_name :: str
  dy_bind_device :: "str option"
  dy_load_balancing_policy :: LbPolicy
  dy_connect_timeout :: "duration option"
  dy_idle_timeout :: "duration option"
  dy_http_protocol_options :: 'o
  dy_load_assignment :: "(('t, 'p) socket, 'o, 'h, 'c, 'w, 'g) ClusterLoadAssignment option"
  dy_transport_socket :: "('t, 'p) socket"

record ('t, 'o) HttpChannelConfig =
  hc_tls_configurator :: "'t option"
  hc_connect_timeout :: "duration option"
  hc_server_name :: "str option"
  hc_http_protocol_options :: 'o

record ('h, 'c) Endpoint =
  ep_http_channel :: 'h
  ep_tcp_channel :: 'c

text \<open>
  The endpoints of an original destination cluster are kept in an \<^verbatim>\<open>LruCache\<close> of the crate
  \<^verbatim>\<open>lru_time_cache\<close>, of which every operation takes the current time.
\<close>

record ('l, 'v) lru_api =
  lru_with_expiry :: "duration \<Rightarrow> nat \<Rightarrow> 'l"
  lru_get :: "int \<Rightarrow> str \<Rightarrow> 'l \<Rightarrow> 'v option \<times> 'l"
  lru_insert :: "int \<Rightarrow> str \<Rightarrow> 'v \<Rightarrow> 'l \<Rightarrow> 'l"
  lru_items :: "'l \<Rightarrow> (str \<times> 'v) list"

record ('t, 'p, 'o, 'l) OriginalDstCluster =
  od_name :: str
  od_transport_socket :: "('t, 'p) socket"
  od_bind_device :: "str option"
  od_routing_requirements :: RoutingRequirement
  od_upstream_port_override :: "u16 option"
  od_endpoints :: 'l
  od_http_config :: "('t, 'o) HttpChannelConfig"

text \<open>
  What the operations take from outside: the constructors of the channels, the transport of
  \<^verbatim>\<open>http\<close>, the cache, the host of an authority, the digits of a port and the idle timeout of
  the protocol options.
\<close>

record ('t, 'p, 'o, 'h, 'c, 'w, 'g, 'l, 'x, 'a, 'q) cluster_env =
  ce_channels :: "(('t, 'p) socket, 't, 'o, 'h, 'c) channel_api"
  ce_lb :: "('w, 'g) lb_env"
  ce_http :: "('x, 'a) http_api"
  ce_lru :: "('l, ('h, 'c) Endpoint) lru_api"
  ce_host :: "str \<Rightarrow> str"
  ce_show_u16 :: "u16 \<Rightarrow> str"
  ce_idle_timeout :: "'o \<Rightarrow> duration option"
  ce_tls :: "('t, 'q) tls_api"

text \<open>The constructors of the channels with the transport sockets of the code.\<close>

definition channels_of ::
  "('t, 'p, 'o, 'h, 'c, 'w, 'g, 'l, 'x, 'a, 'q) cluster_env \<Rightarrow> (('t, 'p) socket, 't, 'o, 'h, 'c) channel_api" where
  "channels_of ce = (ce_channels ce)\<lparr>tls_configurator := socket_tls_configurator\<rparr>"

subsection \<open>Original destination clusters\<close>

datatype OriginalDstRoutingMethod = HttpHeaderMethod "str option" | MetadataKeyMethod str | DefaultMethod

definition MAXIMUM_ENDPOINTS :: nat where
  "MAXIMUM_ENDPOINTS = 10000"

definition DEFAULT_CLEANUP_INTERVAL :: duration where
  "DEFAULT_CLEANUP_INTERVAL = 5 * 10 ^ 9"

text \<open>\<open>discovery\<close> is the configuration of the original destination, if the cluster has one.\<close>

definition OriginalDstClusterBuilder_build ::
  "('t, 'p, 'o, 'h, 'c, 'w, 'g, 'l, 'x, 'a, 'q) cluster_env \<Rightarrow> str \<Rightarrow> str option \<Rightarrow> ('t, 'p) socket \<Rightarrow> duration option
     \<Rightarrow> str option \<Rightarrow> (OriginalDstRoutingMethod \<times> u16 option) option \<Rightarrow> duration option \<Rightarrow> 'o
     \<Rightarrow> ('t, 'p, 'o, 'l) OriginalDstCluster" where
  "OriginalDstClusterBuilder_build ce name bind_device transport_socket connect_timeout server_name discovery
      cleanup_interval http_protocol_options =
     (let (routing_requirements, upstream_port_override) =
        (case discovery of
           Some (routing_method, port_override) \<Rightarrow>
             (case routing_method of
                HttpHeaderMethod http_header_name \<Rightarrow>
                  ReqHeader (case http_header_name of Some n \<Rightarrow> n | None \<Rightarrow> ''x-envoy-original-dst-host'')
              | MetadataKeyMethod key \<Rightarrow> ReqMetadataKey key
              | DefaultMethod \<Rightarrow> ReqAuthority, port_override)
         | None \<Rightarrow> (ReqAuthority, None));
        config_cleanup_interval = (case cleanup_interval of Some d \<Rightarrow> d | None \<Rightarrow> DEFAULT_CLEANUP_INTERVAL);
        http_config = \<lparr>hc_tls_configurator = socket_tls_configurator transport_socket,
          hc_connect_timeout = connect_timeout, hc_server_name = server_name,
          hc_http_protocol_options = http_protocol_options\<rparr>
      in \<lparr>od_name = name, od_transport_socket = transport_socket, od_bind_device = bind_device,
          od_routing_requirements = routing_requirements, od_upstream_port_override = upstream_port_override,
          od_endpoints = lru_with_expiry (ce_lru ce) config_cleanup_interval MAXIMUM_ENDPOINTS,
          od_http_config = http_config\<rparr>)"

definition Endpoint_try_new ::
  "('t, 'p, 'o, 'h, 'c, 'w, 'g, 'l, 'x, 'a, 'q) cluster_env \<Rightarrow> str \<Rightarrow> str \<Rightarrow> ('t, 'o) HttpChannelConfig
     \<Rightarrow> str option \<Rightarrow> ('t, 'p) socket \<Rightarrow> str + ('h, 'c) Endpoint" where
  "Endpoint_try_new ce cluster_name authority http_config bind_device transport_socket =
     (let connect_using = Socket authority bind_device (hc_connect_timeout http_config)
            (ce_idle_timeout ce (hc_http_protocol_options http_config));
          server_name = (case hc_tls_configurator http_config of Some _ \<Rightarrow> hc_server_name http_config | None \<Rightarrow> None)
      in case http_build (channels_of ce) connect_using cluster_name (hc_tls_configurator http_config) server_name
                (hc_http_protocol_options http_config) of
           Inl e \<Rightarrow> Inl e
         | Inr http_channel \<Rightarrow>
             Inr \<lparr>ep_http_channel = http_channel,
                  ep_tcp_channel = tcp_new (channels_of ce) connect_using cluster_name transport_socket\<rparr>)"

definition apply_port_override ::
  "('t, 'p, 'o, 'h, 'c, 'w, 'g, 'l, 'x, 'a, 'q) cluster_env \<Rightarrow> ('t, 'p, 'o, 'l) OriginalDstCluster \<Rightarrow> str \<Rightarrow> str + str" where
  "apply_port_override ce od authority =
     (case od_upstream_port_override od of
        Some port_override \<Rightarrow>
          (case ha_to_authority (ce_http ce) (ce_host ce authority @ '':'' @ ce_show_u16 ce port_override) of
             None \<Rightarrow> Inl ''invalid uri''
           | Some upd_auth \<Rightarrow> Inr upd_auth)
      | None \<Rightarrow> Inr authority)"

text \<open>
  The three ways to take a channel share the lookup; \<open>take_from\<close> is what is taken from the endpoint,
  and a new endpoint is cached only if that succeeds.
\<close>

definition get_connection_by_authority ::
  "('t, 'p, 'o, 'h, 'c, 'w, 'g, 'l, 'x, 'a, 'q) cluster_env \<Rightarrow> (('h, 'c) Endpoint \<Rightarrow> str + 'r) \<Rightarrow> int \<Rightarrow> str
     \<Rightarrow> ('t, 'p, 'o, 'l) OriginalDstCluster \<Rightarrow> (str + 'r) \<times> ('t, 'p, 'o, 'l) OriginalDstCluster" where
  "get_connection_by_authority ce take_from now authority od =
     (case apply_port_override ce od authority of
        Inl e \<Rightarrow> (Inl e, od)
      | Inr endpoint_addr \<Rightarrow>
          (let (cached, lru) = lru_get (ce_lru ce) now endpoint_addr (od_endpoints od); od = od\<lparr>od_endpoints := lru\<rparr>
           in case cached of
                Some endp \<Rightarrow> (take_from endp, od)
              | None \<Rightarrow>
                  (case Endpoint_try_new ce (od_name od) endpoint_addr (od_http_config od) (od_bind_device od)
                          (od_transport_socket od) of
                     Inl e \<Rightarrow> (Inl e, od)
                   | Inr endp \<Rightarrow>
                       (case take_from endp of
                          Inl e \<Rightarrow> (Inl e, od)
                        | Inr r \<Rightarrow>
                            (Inr r, od\<lparr>od_endpoints := lru_insert (ce_lru ce) now endpoint_addr endp (od_endpoints od)\<rparr>)))))"

definition get_http_connection_by_authority where
  "get_http_connection_by_authority ce = get_connection_by_authority ce (\<lambda>e. Inr (ep_http_channel e))"

definition get_tcp_connection_by_authority where
  "get_tcp_connection_by_authority ce = get_connection_by_authority ce (\<lambda>e. Inr (ep_tcp_channel e))"

text \<open>\<open>grpc_new\<close> reads the authority from the channel.\<close>

definition get_grpc_connection_by_authority where
  "get_grpc_connection_by_authority ce grpc_new = get_connection_by_authority ce (\<lambda>e. grpc_new (ep_http_channel e))"

definition get_http_connection_by_dynamic_dest ::
  "('t, 'p, 'o, 'h, 'c, 'w, 'g, 'l, 'x, 'a, 'q) cluster_env \<Rightarrow> int \<Rightarrow> str \<Rightarrow> ('t, 'p, 'o, 'l) OriginalDstCluster
     \<Rightarrow> (str + 'h) \<times> ('t, 'p, 'o, 'l) OriginalDstCluster" where
  "get_http_connection_by_dynamic_dest ce now dynamic_dest od =
     (case ha_to_authority (ce_http ce) dynamic_dest of
        None \<Rightarrow> (Inl (''Invalid Authority in dynamic_dest metadata ('' @ dynamic_dest @
                      '') for ORIGINAL_DST cluster '' @ od_name od), od)
      | Some authority \<Rightarrow> get_http_connection_by_authority ce now authority od)"

definition get_http_connection_by_header ::
  "('t, 'p, 'o, 'h, 'c, 'w, 'g, 'l, 'x, 'a, 'q) cluster_env \<Rightarrow> int \<Rightarrow> str \<Rightarrow> ('t, 'p, 'o, 'l) OriginalDstCluster
     \<Rightarrow> (str + 'h) \<times> ('t, 'p, 'o, 'l) OriginalDstCluster" where
  "get_http_connection_by_header ce now header_value od =
     (case ha_to_authority (ce_http ce) header_value of
        None \<Rightarrow> (Inl (''Invalid authority in header for ORIGINAL_DST cluster '' @ od_name od), od)
      | Some authority \<Rightarrow> get_http_connection_by_authority ce now authority od)"

definition od_get_http_connection ::
  "('t, 'p, 'o, 'h, 'c, 'w, 'g, 'l, 'x, 'a, 'q) cluster_env \<Rightarrow> int \<Rightarrow> 'a RoutingContext
     \<Rightarrow> ('t, 'p, 'o, 'l) OriginalDstCluster \<Rightarrow> (str + 'h HttpChannels) \<times> ('t, 'p, 'o, 'l) OriginalDstCluster" where
  "od_get_http_connection ce now ctx od =
     (let single = map_prod (map_sum id Single) id
      in case ctx of
           CtxAuthority authority \<Rightarrow> single (get_http_connection_by_authority ce now authority od)
         | CtxHeader header_value \<Rightarrow> single (get_http_connection_by_header ce now header_value od)
         | CtxDynamicDest dynamic_dest \<Rightarrow> single (get_http_connection_by_dynamic_dest ce now dynamic_dest od)
         | _ \<Rightarrow> (Inl (''ORIGINAL_DST cluster '' @ od_name od @ '' requires authority or header routing context''), od))"

definition od_get_tcp_connection ::
  "('t, 'p, 'o, 'h, 'c, 'w, 'g, 'l, 'x, 'a, 'q) cluster_env \<Rightarrow> int \<Rightarrow> 'a RoutingContext
     \<Rightarrow> ('t, 'p, 'o, 'l) OriginalDstCluster \<Rightarrow> (str + 'c) \<times> ('t, 'p, 'o, 'l) OriginalDstCluster" where
  "od_get_tcp_connection ce now ctx od =
     (case ctx of
        CtxAuthority authority \<Rightarrow> get_tcp_connection_by_authority ce now authority od
      | _ \<Rightarrow> (Inl (''ORIGINAL_DST cluster '' @ od_name od @ '' requires authority routing context''), od))"

definition od_get_grpc_connection ::
  "('t, 'p, 'o, 'h, 'c, 'w, 'g, 'l, 'x, 'a, 'q) cluster_env \<Rightarrow> ('h \<Rightarrow> str + 'r) \<Rightarrow> int \<Rightarrow> 'a RoutingContext
     \<Rightarrow> ('t, 'p, 'o, 'l) OriginalDstCluster \<Rightarrow> (str + 'r) \<times> ('t, 'p, 'o, 'l) OriginalDstCluster" where
  "od_get_grpc_connection ce grpc_new now ctx od =
     (case ctx of
        CtxAuthority authority \<Rightarrow> get_grpc_connection_by_authority ce grpc_new now authority od
      | _ \<Rightarrow> (Inl (''ORIGINAL_DST cluster '' @ od_name od @ '' requires authority routing context''), od))"

definition od_change_tls_context ::
  "('t, 'p, 'o, 'h, 'c, 'w, 'g, 'l, 'x, 'a, 'q) cluster_env \<Rightarrow> str \<Rightarrow> 'q \<Rightarrow> ('t, 'p, 'o, 'l) OriginalDstCluster
     \<Rightarrow> (str + bool) \<times> ('t, 'p, 'o, 'l) OriginalDstCluster" where
  "od_change_tls_context ce secret_id secret od =
     (case hc_tls_configurator (od_http_config od) of
        Some tls \<Rightarrow>
          if uses_secret (ce_tls ce) secret_id tls
          then (case tls_update (ce_tls ce) tls secret_id secret of
                  Inl e \<Rightarrow> (Inl e, od)
                | Inr tls \<Rightarrow> (Inr True, od\<lparr>od_http_config := (od_http_config od)\<lparr>hc_tls_configurator := Some tls\<rparr>\<rparr>))
          else (Inr False, od)
      | None \<Rightarrow> (Inr False, od))"

subsection \<open>Static and dynamic clusters\<close>

text \<open>A static cluster keeps its old load assignment if the new one cannot be built; the socket is changed before.\<close>

definition st_change_tls_context ::
  "('t, 'p, 'o, 'h, 'c, 'w, 'g, 'l, 'x, 'a, 'q) cluster_env \<Rightarrow> str \<Rightarrow> 'q
     \<Rightarrow> ('t, 'p, 'o, 'h, 'c, 'w, 'g) StaticCluster \<Rightarrow> (str + bool) \<times> ('t, 'p, 'o, 'h, 'c, 'w, 'g) StaticCluster" where
  "st_change_tls_context ce secret_id secret st =
     (case update_secret (ce_tls ce) secret_id secret (st_transport_socket st) of
        Inl e \<Rightarrow> (Inl e, st)
      | Inr (False, socket) \<Rightarrow> (Inr False, st\<lparr>st_transport_socket := socket\<rparr>)
      | Inr (True, socket) \<Rightarrow>
          (let st = st\<lparr>st_transport_socket := socket\<rparr>
           in case cla_rebuild (channels_of ce) ((st_load_assignment st)\<lparr>cla_transport_socket := socket\<rparr>) of
                Inl e \<Rightarrow> (Inl e, st)
              | Inr cla \<Rightarrow> (Inr True, st\<lparr>st_load_assignment := cla\<rparr>)))"

definition change_load_assignment ::
  "(('t, 'p) socket, 'o, 'h, 'c, 'w, 'g) ClusterLoadAssignment option
     \<Rightarrow> ('t, 'p, 'o, 'h, 'c, 'w, 'g) DynamicCluster \<Rightarrow> ('t, 'p, 'o, 'h, 'c, 'w, 'g) DynamicCluster" where
  "change_load_assignment cla dy = dy\<lparr>dy_load_assignment := cla\<rparr>"

text \<open>A dynamic cluster takes its load assignment out before it is rebuilt.\<close>

definition dy_change_tls_context ::
  "('t, 'p, 'o, 'h, 'c, 'w, 'g, 'l, 'x, 'a, 'q) cluster_env \<Rightarrow> str \<Rightarrow> 'q
     \<Rightarrow> ('t, 'p, 'o, 'h, 'c, 'w, 'g) DynamicCluster \<Rightarrow> (str + bool) \<times> ('t, 'p, 'o, 'h, 'c, 'w, 'g) DynamicCluster" where
  "dy_change_tls_context ce secret_id secret dy =
     (case update_secret (ce_tls ce) secret_id secret (dy_transport_socket dy) of
        Inl e \<Rightarrow> (Inl e, dy)
      | Inr (False, socket) \<Rightarrow> (Inr False, dy\<lparr>dy_transport_socket := socket\<rparr>)
      | Inr (True, socket) \<Rightarrow>
          (let dy = dy\<lparr>dy_transport_socket := socket\<rparr>
           in case dy_load_assignment dy of
                None \<Rightarrow> (Inr True, dy)
              | Some cla \<Rightarrow>
                  (let dy = dy\<lparr>dy_load_assignment := None\<rparr>
                   in case cla_rebuild (channels_of ce) (cla\<lparr>cla_transport_socket := socket\<rparr>) of
                        Inl e \<Rightarrow> (Inl e, dy)
                      | Inr cla \<Rightarrow> (Inr True, dy\<lparr>dy_load_assignment := Some cla\<rparr>))))"

definition no_channels :: "('t, 'p, 'o, 'h, 'c, 'w, 'g) DynamicCluster \<Rightarrow> str" where
  "no_channels dy = dy_name dy @ '' No channels available''"

definition dy_get_http_connection ::
  "('t, 'p, 'o, 'h, 'c, 'w, 'g, 'l, 'x, 'a, 'q) cluster_env \<Rightarrow> 'h lb_call \<Rightarrow> 'a RoutingContext
     \<Rightarrow> ('t, 'p, 'o, 'h, 'c, 'w, 'g) DynamicCluster
     \<Rightarrow> (str + 'h HttpChannels) \<times> ('t, 'p, 'o, 'h, 'c, 'w, 'g) DynamicCluster" where
  "dy_get_http_connection ce call ctx dy =
     (case dy_load_assignment dy of
        Some cla \<Rightarrow>
          (let (r, cla) = get_http_channel (ce_http ce) (ce_lb ce) call ctx cla in (r, dy\<lparr>dy_load_assignment := Some cla\<rparr>))
      | None \<Rightarrow> (Inl (no_channels dy), dy))"

definition dy_get_tcp_connection ::
  "('t, 'p, 'o, 'h, 'c, 'w, 'g, 'l, 'x, 'a, 'q) cluster_env \<Rightarrow> 'h lb_call
     \<Rightarrow> ('t, 'p, 'o, 'h, 'c, 'w, 'g) DynamicCluster \<Rightarrow> (str + 'c) \<times> ('t, 'p, 'o, 'h, 'c, 'w, 'g) DynamicCluster" where
  "dy_get_tcp_connection ce call dy =
     (case dy_load_assignment dy of
        Some cla \<Rightarrow> (let (r, cla) = get_tcp_channel (ce_lb ce) call cla in (r, dy\<lparr>dy_load_assignment := Some cla\<rparr>))
      | None \<Rightarrow> (Inl (no_channels dy), dy))"

definition dy_get_grpc_connection ::
  "('t, 'p, 'o, 'h, 'c, 'w, 'g, 'l, 'x, 'a, 'q) cluster_env \<Rightarrow> ('h \<Rightarrow> str \<Rightarrow> str + 'r) \<Rightarrow> 'h lb_call
     \<Rightarrow> ('t, 'p, 'o, 'h, 'c, 'w, 'g) DynamicCluster \<Rightarrow> (str + 'r) \<times> ('t, 'p, 'o, 'h, 'c, 'w, 'g) DynamicCluster" where
  "dy_get_grpc_connection ce grpc_new call dy =
     (case dy_load_assignment dy of
        Some cla \<Rightarrow>
          (let (r, cla) = get_grpc_channel grpc_new (ce_lb ce) call cla in (r, dy\<lparr>dy_load_assignment := Some cla\<rparr>))
      | None \<Rightarrow> (Inl (no_channels dy), dy))"

definition dy_get_routing_requirements :: "('t, 'p, 'o, 'h, 'c, 'w, 'g) DynamicCluster \<Rightarrow> RoutingRequirement" where
  "dy_get_routing_requirements dy =
     (case dy_load_assignment dy of
        Some cla \<Rightarrow> cla_get_routing_requirements cla
      | None \<Rightarrow> if LbPolicy_requires_hash (dy_load_balancing_policy dy) then ReqHash else ReqNone)"

section \<open>All clusters\<close>

datatype ('t, 'p, 'o, 'h, 'c, 'w, 'g, 'l) ClusterKind =
    Static "('t, 'p, 'o, 'h, 'c, 'w, 'g) StaticCluster"
  | Dynamic "('t, 'p, 'o, 'h, 'c, 'w, 'g) DynamicCluster"
  | OnDemand "('t, 'p, 'o, 'l) OriginalDstCluster"

definition cluster_get_routing_requirements :: "('t, 'p, 'o, 'h, 'c, 'w, 'g, 'l) ClusterKind \<Rightarrow> RoutingRequirement" where
  "cluster_get_routing_requirements k =
     (case k of
        Static st \<Rightarrow> cla_get_routing_requirements (st_load_assignment st)
      | Dynamic dy \<Rightarrow> dy_get_routing_requirements dy
      | OnDemand od \<Rightarrow> od_routing_requirements od)"

definition cluster_get_http_connection ::
  "('t, 'p, 'o, 'h, 'c, 'w, 'g, 'l, 'x, 'a, 'q) cluster_env \<Rightarrow> 'h lb_call \<Rightarrow> int \<Rightarrow> 'a RoutingContext
     \<Rightarrow> ('t, 'p, 'o, 'h, 'c, 'w, 'g, 'l) ClusterKind
     \<Rightarrow> (str + 'h HttpChannels) \<times> ('t, 'p, 'o, 'h, 'c, 'w, 'g, 'l) ClusterKind" where
  "cluster_get_http_connection ce call now ctx k =
     (case k of
        Static st \<Rightarrow>
          (let (r, cla) = get_http_channel (ce_http ce) (ce_lb ce) call ctx (st_load_assignment st)
           in (r, Static (st\<lparr>st_load_assignment := cla\<rparr>)))
      | Dynamic dy \<Rightarrow> map_prod id Dynamic (dy_get_http_connection ce call ctx dy)
      | OnDemand od \<Rightarrow> map_prod id OnDemand (od_get_http_connection ce now ctx od))"

definition cluster_get_tcp_connection ::
  "('t, 'p, 'o, 'h, 'c, 'w, 'g, 'l, 'x, 'a, 'q) cluster_env \<Rightarrow> 'h lb_call \<Rightarrow> int \<Rightarrow> 'a RoutingContext
     \<Rightarrow> ('t, 'p, 'o, 'h, 'c, 'w, 'g, 'l) ClusterKind
     \<Rightarrow> (str + 'c) \<times> ('t, 'p, 'o, 'h, 'c, 'w, 'g, 'l) ClusterKind" where
  "cluster_get_tcp_connection ce call now ctx k =
     (case k of
        Static st \<Rightarrow>
          (let (r, cla) = get_tcp_channel (ce_lb ce) call (st_load_assignment st)
           in (r, Static (st\<lparr>st_load_assignment := cla\<rparr>)))
      | Dynamic dy \<Rightarrow> map_prod id Dynamic (dy_get_tcp_connection ce call dy)
      | OnDemand od \<Rightarrow> map_prod id OnDemand (od_get_tcp_connection ce now ctx od))"

text \<open>A health report; original destination clusters have no health checks. A panic is \<^const>\<open>None\<close>.\<close>

definition cluster_update_health ::
  "('t, 'p, 'o, 'h, 'c, 'w, 'g, 'l, 'x, 'a, 'q) cluster_env \<Rightarrow> str \<Rightarrow> HealthStatus
     \<Rightarrow> ('t, 'p, 'o, 'h, 'c, 'w, 'g, 'l) ClusterKind \<Rightarrow> ('t, 'p, 'o, 'h, 'c, 'w, 'g, 'l) ClusterKind option" where
  "cluster_update_health ce authority h k =
     (case k of
        Static st \<Rightarrow>
          map_option (\<lambda>cla. Static (st\<lparr>st_load_assignment := cla\<rparr>))
            (update_endpoint_health (ce_lb ce) authority h (st_load_assignment st))
      | Dynamic dy \<Rightarrow>
          (case dy_load_assignment dy of
             Some cla \<Rightarrow> map_option (\<lambda>cla. Dynamic (dy\<lparr>dy_load_assignment := Some cla\<rparr>))
               (update_endpoint_health (ce_lb ce) authority h cla)
           | None \<Rightarrow> Some (Dynamic dy))
      | OnDemand od \<Rightarrow> Some (OnDemand od))"

definition cluster_change_tls_context ::
  "('t, 'p, 'o, 'h, 'c, 'w, 'g, 'l, 'x, 'a, 'q) cluster_env \<Rightarrow> str \<Rightarrow> 'q
     \<Rightarrow> ('t, 'p, 'o, 'h, 'c, 'w, 'g, 'l) ClusterKind \<Rightarrow> (str + bool) \<times> ('t, 'p, 'o, 'h, 'c, 'w, 'g, 'l) ClusterKind" where
  "cluster_change_tls_context ce secret_id secret k =
     (case k of
        Static st \<Rightarrow> map_prod id Static (st_change_tls_context ce secret_id secret st)
      | Dynamic dy \<Rightarrow> map_prod id Dynamic (dy_change_tls_context ce secret_id secret dy)
      | OnDemand od \<Rightarrow> map_prod id OnDemand (od_change_tls_context ce secret_id secret od))"

definition cluster_all_http_channels ::
  "('t, 'p, 'o, 'h, 'c, 'w, 'g, 'l, 'x, 'a, 'q) cluster_env \<Rightarrow> ('t, 'p, 'o, 'h, 'c, 'w, 'g, 'l) ClusterKind \<Rightarrow> (str \<times> 'h) list" where
  "cluster_all_http_channels ce k =
     (case k of
        Static st \<Rightarrow> all_http_channels (st_load_assignment st)
      | Dynamic dy \<Rightarrow> (case dy_load_assignment dy of Some cla \<Rightarrow> all_http_channels cla | None \<Rightarrow> [])
      | OnDemand od \<Rightarrow> map (\<lambda>(a, e). (a, ep_http_channel e)) (lru_items (ce_lru ce) (od_endpoints od)))"

definition cluster_all_tcp_channels :: "('t, 'p, 'o, 'h, 'c, 'w, 'g, 'l, 'x, 'a, 'q) cluster_env \<Rightarrow> ('t, 'p, 'o, 'h, 'c, 'w, 'g, 'l) ClusterKind \<Rightarrow> (str \<times> 'c) list" where
  "cluster_all_tcp_channels ce k =
     (case k of
        Static st \<Rightarrow> all_tcp_channels (st_load_assignment st)
      | Dynamic dy \<Rightarrow> (case dy_load_assignment dy of Some cla \<Rightarrow> all_tcp_channels cla | None \<Rightarrow> [])
      | OnDemand od \<Rightarrow> map (\<lambda>(a, e). (a, ep_tcp_channel e)) (lru_items (ce_lru ce) (od_endpoints od)))"

text \<open>
  \<open>grpc_new\<close> is \<^verbatim>\<open>GrpcService::try_new\<close> of a channel and an authority, and \<open>upstream_authority\<close>
  the authority of a channel.
\<close>

definition cluster_get_grpc_connection ::
  "('t, 'p, 'o, 'h, 'c, 'w, 'g, 'l, 'x, 'a, 'q) cluster_env \<Rightarrow> ('h \<Rightarrow> str \<Rightarrow> str + 'r) \<Rightarrow> ('h \<Rightarrow> str) \<Rightarrow> 'h lb_call \<Rightarrow> int \<Rightarrow> 'a RoutingContext \<Rightarrow> ('t, 'p, 'o, 'h, 'c, 'w, 'g, 'l) ClusterKind
     \<Rightarrow> (str + 'r) \<times> ('t, 'p, 'o, 'h, 'c, 'w, 'g, 'l) ClusterKind" where
  "cluster_get_grpc_connection ce grpc_new upstream_authority call now ctx k =
     (case k of
        Static st \<Rightarrow>
          (let (r, cla) = get_grpc_channel grpc_new (ce_lb ce) call (st_load_assignment st)
           in (r, Static (st\<lparr>st_load_assignment := cla\<rparr>)))
      | Dynamic dy \<Rightarrow> map_prod id Dynamic (dy_get_grpc_connection ce grpc_new call dy)
      | OnDemand od \<Rightarrow>
          map_prod id OnDemand (od_get_grpc_connection ce (\<lambda>ch. grpc_new ch (upstream_authority ch)) now ctx od))"

definition cluster_all_grpc_channels ::
  "('t, 'p, 'o, 'h, 'c, 'w, 'g, 'l, 'x, 'a, 'q) cluster_env \<Rightarrow> ('h \<Rightarrow> str \<Rightarrow> str + 'r) \<Rightarrow> ('h \<Rightarrow> str) \<Rightarrow> ('t, 'p, 'o, 'h, 'c, 'w, 'g, 'l) ClusterKind \<Rightarrow> (str + str \<times> 'r) list" where
  "cluster_all_grpc_channels ce grpc_new upstream_authority k =
     (case k of
        Static st \<Rightarrow> try_all_grpc_channels grpc_new (st_load_assignment st)
      | Dynamic dy \<Rightarrow> (case dy_load_assignment dy of Some cla \<Rightarrow> try_all_grpc_channels grpc_new cla | None \<Rightarrow> [])
      | OnDemand od \<Rightarrow>
          map (\<lambda>(a, e). map_sum id (Pair a) (grpc_new (ep_http_channel e) (upstream_authority (ep_http_channel e))))
            (lru_items (ce_lru ce) (od_endpoints od)))"

end
