(* ===== verification/Assignment_Health.thy ===== *)
theory Assignment_Health
  imports Load_Assignment Priority_Load
begin

text \<open>
  What a load assignment promises about the health of the endpoints it selects. The interface
  \<open>health_selector\<close> is what a balancer keeps of it: its endpoints, their last known health, and that
  a selection returns a healthy one. The balancers of all policies implement it, the one that prefers
  the hosts of a header included, and the operations of the load assignment are its clients.
\<close>

section \<open>The interface\<close>

locale health_selector =
  fixes next_item :: "'k \<Rightarrow> u64 option \<Rightarrow> 'b \<Rightarrow> 'e option \<times> 'b"
    and update_health :: "'e \<Rightarrow> HealthStatus \<Rightarrow> 'b \<Rightarrow> ('r \<times> 'b) option"
    and key :: "'e \<Rightarrow> 'a"
    and tracks :: "'e set \<Rightarrow> ('a \<Rightarrow> HealthStatus) \<Rightarrow> 'b \<Rightarrow> bool"
  assumes next_tracks: "tracks E hs b \<Longrightarrow> tracks E hs (snd (next_item k hash b))"
    and next_healthy: "tracks E hs b \<Longrightarrow> fst (next_item k hash b) = Some e \<Longrightarrow> e \<in> E \<and> hs (key e) = Healthy"
    and update_tracks: "tracks E hs b \<Longrightarrow> inj_on key E \<Longrightarrow> ep \<in> E \<Longrightarrow> update_health ep h b = Some (r, b') \<Longrightarrow>
      tracks E (hs(key ep := h)) b'"
    and tracks_cong: "tracks E hs b \<Longrightarrow> (\<And>e. e \<in> E \<Longrightarrow> hs (key e) = hs' (key e)) \<Longrightarrow> tracks E hs' b"
begin

text \<open>All endpoints with a given key are told the same.\<close>

lemma update_list_tracks:
  assumes "tracks E hs b" "inj_on key E" "set es \<subseteq> {e \<in> E. key e = a}" "es \<noteq> []"
    and "update_list update_health h es b = Some b'"
  shows "tracks E (hs(a := h)) b'"
  using assms
proof (induction es arbitrary: b hs)
  case (Cons e es)
  obtain r c where c: "update_health e h b = Some (r, c)" "update_list update_health h es c = Some b'"
    using Cons.prems(5) by (auto split: option.splits)
  have "e \<in> E" "key e = a" using Cons.prems(3) by auto
  then have t: "tracks E (hs(a := h)) c"
    using update_tracks [OF Cons.prems(1,2) _ c(1)] by simp
  show ?case
  proof (cases "es = []")
    case True
    then have "c = b'" using c(2) by simp
    then show ?thesis using t by (simp only:)
  next
    case False
    have "set es \<subseteq> {e \<in> E. key e = a}" using Cons.prems(3) by simp
    then show ?thesis using Cons.IH [OF t Cons.prems(2) _ False c(2)] by (simp only: fun_upd_upd)
  qed
qed simp

lemma update_matching_tracks:
  assumes "tracks E hs b" "inj_on key E" "set es = {e \<in> E. key e = a}"
    and "update_list update_health h es b = Some b'"
  shows "tracks E (hs(a := h)) b'"
proof (cases "es = []")
  case True
  then have "hs (key e) = (hs(a := h)) (key e)" if "e \<in> E" for e using assms(3) that by auto
  moreover have "b' = b" using assms(4) True by simp
  ultimately show ?thesis using tracks_cong [OF assms(1)] by (simp only:)
next
  case False
  then show ?thesis using update_list_tracks [OF assms(1,2) _ False assms(4)] assms(3) by simp
qed

end

section \<open>The balancers implement it\<close>

lemma LbEndpoint_eq_key: "LbEndpoint_eq = (\<lambda>a b. le_key a = le_key b)"
  by (simp add: LbEndpoint_eq_def le_key_def eq_ignore_ascii_case_def fun_eq_iff)

text \<open>The map of the named hosts: its keys are the authorities of the endpoints.\<close>

definition entries_track ::
  "('h, 'c) LbEndpoint set \<Rightarrow> (str \<Rightarrow> HealthStatus) \<Rightarrow> (str \<times> ('h, 'c) LbEndpoint OverrideEndpoint) list \<Rightarrow> bool" where
  "entries_track E hs es \<longleftrightarrow> distinct (map fst es) \<and> fst ` set es = le_authority ` E \<and>
     (\<forall>(k, x)\<in>set es. oe_endpoint x \<in> E \<and> le_authority (oe_endpoint x) = k \<and> oe_healthy x = is_healthy (hs (lower k)))"

fun bt_tracks :: "('h, 'c) LbEndpoint set \<Rightarrow> (str \<Rightarrow> HealthStatus) \<Rightarrow> ('h, 'c, 'w, 'g) endpoint_balancer \<Rightarrow> bool"
and oh_tracks :: "('h, 'c) LbEndpoint set \<Rightarrow> (str \<Rightarrow> HealthStatus) \<Rightarrow> ('h, 'c, 'w, 'g) override_balancer \<Rightarrow> bool" where
  "bt_tracks E hs (RoundRobin b) = balancer.db_tracks wrr_members wrr_inv le_key E hs b"
| "bt_tracks E hs (Random b) = balancer.db_tracks rb_members (\<lambda>_. True) le_key E hs b"
| "bt_tracks E hs (LeastRequests b) = balancer.db_tracks lr_members (\<lambda>_. True) le_key E hs b"
| "bt_tracks E hs (RingHash b) = balancer.db_tracks rh_members (\<lambda>_. True) le_key E hs b"
| "bt_tracks E hs (MaglevHash b) = balancer.db_tracks mg_members mg_inv le_key E hs b"
| "bt_tracks E hs (OverrideHost b) = oh_tracks E hs b"
| "oh_tracks E hs (OverrideHostLoadBalancer header fallback es) = (bt_tracks E hs fallback \<and> entries_track E hs es)"

context balancer
begin

lemma db_tracks_cong:
  "db_tracks key E hs b \<Longrightarrow> (\<And>e. e \<in> E \<Longrightarrow> hs (key e) = hs' (key e)) \<Longrightarrow> db_tracks key E hs' b"
  by (fastforce simp: db_tracks_def ps_tracks_def)

end

lemmas rh_tracks = balancer.db_tracks_next_item [OF rh.balancer_axioms]
  balancer.db_tracks_update_health [OF rh.balancer_axioms] balancer.db_tracks_cong [OF rh.balancer_axioms]
  balancer.db_tracks_from_slice [OF rh.balancer_axioms]
lemmas mg_tracks = balancer.db_tracks_next_item [OF mg.balancer_axioms]
  balancer.db_tracks_update_health [OF mg.balancer_axioms] balancer.db_tracks_cong [OF mg.balancer_axioms]
  balancer.db_tracks_from_slice [OF mg.balancer_axioms]
lemmas rb_tracks = balancer.db_tracks_next_item [OF rb.balancer_axioms]
  balancer.db_tracks_update_health [OF rb.balancer_axioms] balancer.db_tracks_cong [OF rb.balancer_axioms]
  balancer.db_tracks_from_slice [OF rb.balancer_axioms]
lemmas lr_tracks = balancer.db_tracks_next_item [OF lr.balancer_axioms]
  balancer.db_tracks_update_health [OF lr.balancer_axioms] balancer.db_tracks_cong [OF lr.balancer_axioms]
  balancer.db_tracks_from_slice [OF lr.balancer_axioms]
lemmas wrr_tracks = balancer.db_tracks_next_item [OF wrr.balancer_axioms]
  balancer.db_tracks_update_health [OF wrr.balancer_axioms] balancer.db_tracks_cong [OF wrr.balancer_axioms]
  balancer.db_tracks_from_slice [OF wrr.balancer_axioms]

lemma entries_track_cong:
  assumes "entries_track E hs es" "\<And>e. e \<in> E \<Longrightarrow> hs (le_key e) = hs' (le_key e)"
  shows "entries_track E hs' es"
  using assms by (fastforce simp: entries_track_def le_key_def)

lemma fst_override_update_entry [simp]: "map fst (override_update_entry key h es) = map fst es"
  by (simp add: override_update_entry_def case_prod_beta comp_def)

lemma entries_track_update:
  assumes "entries_track E hs es" "inj_on le_key E" "ep \<in> E"
  shows "entries_track E (hs(le_key ep := h)) (override_update_entry (le_authority ep) h es)"
proof -
  have same: "k = le_authority ep \<longleftrightarrow> lower k = le_key ep" if "(k, x) \<in> set es" for k x
  proof -
    have "oe_endpoint x \<in> E" "le_authority (oe_endpoint x) = k" using assms(1) that by (auto simp: entries_track_def)
    then show ?thesis using inj_onD [OF assms(2), of "oe_endpoint x" ep] assms(3) by (auto simp: le_key_def)
  qed
  let ?es = "override_update_entry (le_authority ep) h es"
  have elem: "oe_endpoint y \<in> E \<and> le_authority (oe_endpoint y) = k \<and>
      oe_healthy y = is_healthy ((hs(le_key ep := h)) (lower k))" if mem: "(k, y) \<in> set ?es" for k y
  proof -
    obtain x where x: "(k, x) \<in> set es" "y = (if k = le_authority ep then x\<lparr>oe_healthy := is_healthy h\<rparr> else x)"
      using mem by (auto simp: override_update_entry_def)
    moreover have "oe_endpoint x \<in> E \<and> le_authority (oe_endpoint x) = k \<and> oe_healthy x = is_healthy (hs (lower k))"
      using assms(1) x(1) by (auto simp: entries_track_def)
    ultimately show ?thesis using same [OF x(1)] by simp
  qed
  have old: "distinct (map fst es)" "fst ` set es = le_authority ` E"
    using assms(1) by (simp_all add: entries_track_def)
  have "fst ` set ?es = fst ` set es"
    by (metis fst_override_update_entry list.set_map)
  moreover have "\<forall>(k, y)\<in>set ?es. oe_endpoint y \<in> E \<and> le_authority (oe_endpoint y) = k \<and>
      oe_healthy y = is_healthy ((hs(le_key ep := h)) (lower k))"
    using elem by blast
  ultimately show ?thesis
    using old by (simp only: entries_track_def fst_override_update_entry simp_thms)
qed

lemma bt_tracks_next:
  "bt_tracks E hs b \<Longrightarrow> bt_tracks E hs (snd (BalancerType_next_item env call hash b)) \<and>
     (\<forall>e. fst (BalancerType_next_item env call hash b) = Some e \<longrightarrow> e \<in> E \<and> hs (le_key e) = Healthy)"
  "oh_tracks E hs ob \<Longrightarrow> oh_tracks E hs (snd (OverrideHost_next_item env call hash ob)) \<and>
     (\<forall>e. fst (OverrideHost_next_item env call hash ob) = Some e \<longrightarrow> e \<in> E \<and> hs (le_key e) = Healthy)"
  by (induction env call hash b and env call hash ob rule: BalancerType_next_item_OverrideHost_next_item.induct)
    (auto simp: rh_tracks(1) mg_tracks(1) rb_tracks(1) lr_tracks(1) wrr_tracks(1)
      dest: rh_tracks(2) mg_tracks(2) rb_tracks(2) lr_tracks(2) wrr_tracks(2))

lemmas bt_update_eval = BalancerType_update_health.simps OverrideHost_update_health.simps bt_tracks.simps
  oh_tracks.simps LbEndpoint_eq_key map_option_eq_Some map_prod_simp id_apply prod.inject

lemma bt_tracks_update:
  "bt_tracks E hs b \<Longrightarrow> inj_on le_key E \<Longrightarrow> ep \<in> E \<Longrightarrow> BalancerType_update_health env ep h b = Some (r, b') \<Longrightarrow>
     bt_tracks E (hs(le_key ep := h)) b'"
  "oh_tracks E hs ob \<Longrightarrow> inj_on le_key E \<Longrightarrow> ep \<in> E \<Longrightarrow> OverrideHost_update_health env ep h ob = Some (r, ob') \<Longrightarrow>
     oh_tracks E (hs(le_key ep := h)) ob'"
proof (induction env ep h b and env ep h ob arbitrary: b' and ob'
    rule: BalancerType_update_health_OverrideHost_update_health.induct)
  case (1 env ep h b)
  then show ?case using wrr_tracks(3) by (auto simp only: bt_update_eval)
next
  case (2 env ep h b)
  then show ?case using rb_tracks(3) by (auto simp only: bt_update_eval)
next
  case (3 env ep h b)
  then show ?case using lr_tracks(3) by (auto simp only: bt_update_eval)
next
  case (4 env ep h b)
  then show ?case using rh_tracks(3) by (auto simp only: bt_update_eval)
next
  case (5 env ep h b)
  then show ?case using mg_tracks(3) by (auto simp only: bt_update_eval)
next
  case (6 env ep h b)
  then show ?case by auto
next
  case (7 env ep h header fallback es)
  obtain f where f: "BalancerType_update_health env ep h fallback = Some (r, f)"
    "ob' = OverrideHostLoadBalancer header f (override_update_entry (le_authority ep) h es)"
    using 7(5) by (auto simp only: bt_update_eval)
  have old: "bt_tracks E hs fallback" "entries_track E hs es" using 7(2) by simp_all
  from 7(1) [OF old(1) 7(3,4) f(1)] have "bt_tracks E (hs(le_key ep := h)) f" .
  moreover have "entries_track E (hs(le_key ep := h)) (override_update_entry (le_authority ep) h es)"
    by (rule entries_track_update [OF old(2) 7(3,4)])
  ultimately show ?case unfolding f(2) oh_tracks.simps ..
qed

lemma bt_tracks_cong:
  fixes b :: "('h, 'c, 'w, 'g) endpoint_balancer" and ob :: "('h, 'c, 'w, 'g) override_balancer"
  shows "bt_tracks E hs b \<Longrightarrow> (\<And>e. e \<in> E \<Longrightarrow> hs (le_key e) = hs' (le_key e)) \<Longrightarrow> bt_tracks E hs' b"
  "oh_tracks E hs ob \<Longrightarrow> (\<And>e. e \<in> E \<Longrightarrow> hs (le_key e) = hs' (le_key e)) \<Longrightarrow> oh_tracks E hs' ob"
proof (induction E hs b and E hs ob rule: bt_tracks_oh_tracks.induct)
  case (7 E hs header fallback es)
  then show ?case using entries_track_cong [of E hs es hs'] by simp
qed (auto elim!: wrr_tracks(4) rb_tracks(4) lr_tracks(4) rh_tracks(4) mg_tracks(4))

interpretation bt: health_selector "BalancerType_next_item env" "BalancerType_update_health env" le_key
    "bt_tracks :: ('h, 'c) LbEndpoint set \<Rightarrow> _ \<Rightarrow> ('h, 'c, 'w, 'g) endpoint_balancer \<Rightarrow> bool"
  for env :: "('w, 'g) lb_env"
  by unfold_locales (use bt_tracks_next(1) bt_tracks_update(1) bt_tracks_cong(1) in blast)+

section \<open>Building\<close>

text \<open>The health an endpoint is configured with.\<close>

definition configured_health :: "('h, 'c) LbEndpoint list \<Rightarrow> str \<Rightarrow> HealthStatus" where
  "configured_health es k = (case List.find (\<lambda>e. le_key e = k) es of Some e \<Rightarrow> le_health_status e | None \<Rightarrow> Unhealthy)"

lemma configured_health_elem:
  "distinct (map le_key es) \<Longrightarrow> e \<in> set es \<Longrightarrow> le_health_status e = configured_health es (le_key e)"
  unfolding configured_health_def by (induction es) auto

lemma endpoints_locality_slice [simp]: "endpoints (locality_slice l) = endpoints l"
  by (simp add: locality_slice_def)

lemma map_endpoints_slice [simp]: "map endpoints (map locality_slice locs) = map endpoints locs"
  by simp

lemma build_balancer_tracks:
  assumes "build_balancer_from_policy env locs policy = Some b"
    and "distinct (map le_key (concat (map endpoints locs)))"
  shows "bt_tracks (set (concat (map endpoints locs))) (configured_health (concat (map endpoints locs))) b"
proof -
  let ?es = "concat (map endpoints locs)"
  have h: "\<forall>e\<in>set (concat (map endpoints (map locality_slice locs))).
      le_health_status e = configured_health ?es (le_key e)"
    and d: "distinct (map le_key (concat (map endpoints (map locality_slice locs))))"
    using configured_health_elem [OF assms(2)] assms(2) by (simp_all only: map_endpoints_slice, blast)
  note tracks = wrr_tracks(5) [OF _ d h] rb_tracks(5) [OF _ d h] lr_tracks(5) [OF _ d h] rh_tracks(5) [OF _ d h]
    mg_tracks(5) [OF _ d h]
  show ?thesis
    using assms(1) tracks unfolding map_endpoints_slice by (cases policy) auto
qed

lemma alist_update_new: "k \<notin> fst ` set m \<Longrightarrow> AList.update k v m = m @ [(k, v)]"
  by (induction m) auto

lemma entries_track_insert:
  assumes "entries_track E hs m" "le_authority e \<notin> le_authority ` E" "hs (le_key e) = le_health_status e"
  shows "entries_track (insert e E) hs (override_insert None e m)"
proof -
  have "le_authority e \<notin> fst ` set m" using assms(1,2) by (simp add: entries_track_def)
  then have "override_insert None e m =
      m @ [(le_authority e, \<lparr>oe_endpoint = e, oe_healthy = is_healthy (le_health_status e)\<rparr>)]"
    by (simp add: override_insert_def alist_update_new)
  then show ?thesis using assms by (auto simp: entries_track_def le_key_def)
qed

lemma entries_track_fold:
  assumes "entries_track E hs m" "distinct (map le_authority es)" "le_authority ` set es \<inter> le_authority ` E = {}"
    and "\<forall>e\<in>set es. hs (le_key e) = le_health_status e"
  shows "entries_track (set es \<union> E) hs (fold (override_insert None) es m)"
  using assms
proof (induction es arbitrary: E m)
  case (Cons e es)
  have "entries_track (insert e E) hs (override_insert None e m)"
    using Cons.prems by (intro entries_track_insert) auto
  then have "entries_track (set es \<union> insert e E) hs (fold (override_insert None) es (override_insert None e m))"
    by (rule Cons.IH) (use Cons.prems in auto)
  then show ?case by simp
qed simp

lemma distinct_key_authority: "distinct (map le_key es) \<Longrightarrow> distinct (map le_authority es)"
  by (induction es) (auto simp: le_key_def image_iff)

lemma OverrideHost_new_tracks:
  assumes "bt_tracks (set (concat (map endpoints locs))) hs fallback"
    and "distinct (map le_key (concat (map endpoints locs)))"
    and "\<forall>e\<in>set (concat (map endpoints locs)). hs (le_key e) = le_health_status e"
  shows "oh_tracks (set (concat (map endpoints locs))) hs (OverrideHost_new header fallback locs)"
proof -
  have "fold (\<lambda>locality m. fold (override_insert None) (endpoints locality) m) locs m =
      fold (override_insert None) (concat (map endpoints locs)) m" for m
    by (induction locs arbitrary: m) simp_all
  moreover have "entries_track (set (concat (map endpoints locs)) \<union> {}) hs
      (fold (override_insert None) (concat (map endpoints locs)) [])"
    by (rule entries_track_fold)
      (use assms(3) distinct_key_authority [OF assms(2)] in \<open>simp_all add: entries_track_def\<close>)
  ultimately show ?thesis using assms(1) by (simp add: OverrideHost_new_def OverrideHost_build_def)
qed

section \<open>The operations of the load assignment\<close>

definition cla_tracks :: "(str \<Rightarrow> HealthStatus) \<Rightarrow> ('s, 'o, 'h, 'c, 'w, 'g) ClusterLoadAssignment \<Rightarrow> bool" where
  "cla_tracks hs cla \<longleftrightarrow> distinct (map le_key (all_endpoints cla)) \<and>
     bt_tracks (set (all_endpoints cla)) hs (cla_balancer cla)"

lemma build_tracks:
  assumes "ClusterLoadAssignmentBuilder_build api env default_options clb = Some (Inr cla)"
    and "distinct (map le_key (all_endpoints cla))"
  shows "cla_tracks (configured_health (all_endpoints cla)) cla"
proof -
  let ?es = "concat (map endpoints (cla_endpoints cla))"
  have es: "all_endpoints cla = ?es" by (simp add: all_endpoints_def)
  have h: "\<forall>e\<in>set ?es. configured_health ?es (le_key e) = le_health_status e"
    using configured_health_elem assms(2) unfolding es by metis
  consider policy where "build_balancer_from_policy env (cla_endpoints cla) policy = Some (cla_balancer cla)"
    | policy header fallback where "build_balancer_from_policy env (cla_endpoints cla) policy = Some fallback"
        "cla_balancer cla = OverrideHost (OverrideHost_new header fallback (cla_endpoints cla))"
    using assms(1)
    by (auto simp: ClusterLoadAssignmentBuilder_build_def Let_def split: sum.splits LbPolicy.splits
        OverrideHostSource.splits)
  then have "bt_tracks (set ?es) (configured_health ?es) (cla_balancer cla)"
  proof cases
    case 1
    then show ?thesis by (rule build_balancer_tracks) (use assms(2) es in simp)
  next
    case 2
    have "bt_tracks (set ?es) (configured_health ?es) fallback"
      by (rule build_balancer_tracks [OF 2(1)]) (use assms(2) es in simp)
    then have "oh_tracks (set ?es) (configured_health ?es) (OverrideHost_new header fallback (cla_endpoints cla))"
      by (rule OverrideHost_new_tracks) (use assms(2) es h in simp_all)
    then show ?thesis by (simp only: 2(2) bt_tracks.simps)
  qed
  then show ?thesis using assms(2) by (simp only: cla_tracks_def es simp_thms)
qed

lemma cla_next_item_tracks:
  assumes "cla_tracks hs cla" "cla_next_item env call hash cla = (r, cla')"
  shows "cla_tracks hs cla'" "cla_endpoints cla' = cla_endpoints cla"
    "r = Inr e \<Longrightarrow> e \<in> set (all_endpoints cla) \<and> hs (le_key e) = Healthy"
proof -
  obtain s b where n: "BalancerType_next_item env call hash (cla_balancer cla) = (s, b)" by fastforce
  have tr: "bt_tracks (set (all_endpoints cla)) hs (cla_balancer cla)" using assms(1) by (simp add: cla_tracks_def)
  have c: "cla' = cla\<lparr>cla_balancer := b\<rparr>" and r: "r = (case s of None \<Rightarrow> Inl ''No active endpoint'' | Some e \<Rightarrow> Inr e)"
    using assms(2) n by (simp_all add: cla_next_item_def)
  show "cla_endpoints cla' = cla_endpoints cla" by (simp add: c)
  show "cla_tracks hs cla'"
    using assms(1) bt.next_tracks [OF tr, of env call hash] n by (simp add: cla_tracks_def all_endpoints_def c)
  show "r = Inr e \<Longrightarrow> e \<in> set (all_endpoints cla) \<and> hs (le_key e) = Healthy"
    using bt.next_healthy [OF tr, of env call hash e] n r by (simp split: option.splits)
qed

lemma entries_track_lookup:
  assumes "entries_track E hs es" "override_lookup http es raw = Some e"
  shows "e \<in> E" "hs (le_key e) = Healthy"
  using assms
  by (auto simp: override_lookup_def entries_track_def le_key_def is_healthy_def Let_def
      split: if_splits option.splits dest!: map_of_SomeD)

lemma select_fallback_tracks:
  assumes "oh_tracks E hs b" "select_fallback env call hash b = (r, b')"
  shows "oh_tracks E hs b'" "r = Inr chs \<Longrightarrow> \<exists>e\<in>E. channel_list chs = [le_http_channel e] \<and> hs (le_key e) = Healthy"
  using assms(2) bt_tracks_next(2) [OF assms(1), of env call hash]
  by (auto simp: select_fallback_def split: prod.splits option.splits)

lemma select_override_tracks:
  assumes "oh_tracks E hs b" "select_override http env call header hash b = (r, b')"
  shows "oh_tracks E hs b'"
    "r = Inr chs \<Longrightarrow> c \<in> set (channel_list chs) \<Longrightarrow> \<exists>e\<in>E. le_http_channel e = c \<and> hs (le_key e) = Healthy"
proof -
  obtain header' fallback es where b: "b = OverrideHostLoadBalancer header' fallback es" by (cases b)
  have es: "entries_track E hs (oh_endpoints b)" using assms(1) by (simp add: b)
  define sel where "sel = (case ha_to_str http header of None \<Rightarrow> []
      | Some v \<Rightarrow> List.map_filter (override_lookup http (oh_endpoints b)) (str_split CHR '','' v))"
  have run: "(case sel of
        primary # rest \<Rightarrow> (Inr (MultiWithFailover (le_http_channel primary) (map le_http_channel rest)), b)
      | [] \<Rightarrow> select_fallback env call hash b) = (r, b')"
    using assms(2) by (auto simp: select_override_def sel_def split: option.splits list.splits)
  have sel: "e \<in> E \<and> hs (le_key e) = Healthy" if mem: "e \<in> set sel" for e
    using entries_track_lookup [OF es] mem
    by (auto simp: sel_def List.map_filter_def split: option.splits)
  show "oh_tracks E hs b'"
    using run assms(1) select_fallback_tracks(1) [OF assms(1)] by (cases sel) auto
  assume r: "r = Inr chs" "c \<in> set (channel_list chs)"
  show "\<exists>e\<in>E. le_http_channel e = c \<and> hs (le_key e) = Healthy"
  proof (cases sel)
    case Nil
    then show ?thesis using run r select_fallback_tracks(2) [OF assms(1), of env call hash r b' chs] by auto
  next
    case (Cons primary rest)
    then have "c \<in> le_http_channel ` set sel" using run r by auto
    then show ?thesis using sel by blast
  qed
qed

lemma get_http_channel_tracks:
  assumes "cla_tracks hs cla" "get_http_channel http env call context cla = (r, cla')"
  shows "cla_tracks hs cla'" "cla_endpoints cla' = cla_endpoints cla"
    "r = Inr chs \<Longrightarrow> c \<in> set (channel_list chs) \<Longrightarrow>
       \<exists>e\<in>set (all_endpoints cla). le_http_channel e = c \<and> hs (le_key e) = Healthy"
proof -
  consider hash where "map_prod single_channel id (cla_next_item env call hash cla) = (r, cla')"
    | b header hash b' where "cla_balancer cla = OverrideHost b" "select_override http env call header hash b = (r, b')"
        "cla' = cla\<lparr>cla_balancer := OverrideHost b'\<rparr>"
    using assms(2) by (auto simp: get_http_channel_def Let_def split: RoutingContext.splits BalancerType.splits prod.splits)
  then have "cla_tracks hs cla' \<and> cla_endpoints cla' = cla_endpoints cla \<and>
    (r = Inr chs \<longrightarrow> c \<in> set (channel_list chs) \<longrightarrow>
       (\<exists>e\<in>set (all_endpoints cla). le_http_channel e = c \<and> hs (le_key e) = Healthy))"
  proof cases
    case 1
    obtain s where s: "cla_next_item env call hash cla = (s, cla')" "r = single_channel s"
      using 1 by (cases "cla_next_item env call hash cla") simp
    have "\<exists>e. s = Inr e \<and> chs = Single (le_http_channel e)" if "r = Inr chs"
      using that s(2) by (cases s) auto
    then show ?thesis using cla_next_item_tracks [OF assms(1) s(1)] by fastforce
  next
    case 2
    have "oh_tracks (set (all_endpoints cla)) hs b" using assms(1) 2(1) by (simp add: cla_tracks_def)
    note sel = select_override_tracks [OF this 2(2)]
    have "cla_tracks hs cla'" using assms(1) sel(1) 2(3) by (simp add: cla_tracks_def all_endpoints_def)
    then show ?thesis using sel(2) 2(3) by simp
  qed
  then show "cla_tracks hs cla'" "cla_endpoints cla' = cla_endpoints cla"
    "r = Inr chs \<Longrightarrow> c \<in> set (channel_list chs) \<Longrightarrow>
       \<exists>e\<in>set (all_endpoints cla). le_http_channel e = c \<and> hs (le_key e) = Healthy" by blast+
qed

lemma update_endpoint_health_tracks:
  assumes "cla_tracks hs cla" "update_endpoint_health env authority h cla = Some cla'"
  shows "cla_tracks (hs(lower authority := h)) cla'" "cla_endpoints cla' = cla_endpoints cla"
proof -
  let ?es = "concat (map (\<lambda>locality. filter (\<lambda>e. eq_ignore_ascii_case (le_authority e) authority) (endpoints locality))
             (cla_endpoints cla))"
  obtain b where b: "update_list (BalancerType_update_health env) h ?es (cla_balancer cla) = Some b"
    and c: "cla' = cla\<lparr>cla_balancer := b\<rparr>"
    using assms(2) by (auto simp: update_endpoint_health_def)
  have tr: "bt_tracks (set (all_endpoints cla)) hs (cla_balancer cla)"
    and inj: "inj_on le_key (set (all_endpoints cla))"
    using assms(1) by (simp_all add: cla_tracks_def distinct_map)
  have "set ?es = {e \<in> set (all_endpoints cla). le_key e = lower authority}"
    by (auto simp: all_endpoints_def le_key_def eq_ignore_ascii_case_def)
  note upd = bt.update_matching_tracks [OF tr inj this b]
  have "cla_balancer cla' = b" "all_endpoints cla' = all_endpoints cla" by (simp_all add: c all_endpoints_def)
  then show "cla_tracks (hs(lower authority := h)) cla'"
    using assms(1) upd by (simp only: cla_tracks_def simp_thms)
  show "cla_endpoints cla' = cla_endpoints cla" by (simp add: c)
qed

text \<open>
  The operations of a cluster on its load assignment and their sequences, undefined where the code
  panics, and the last health that an authority was reported to have.
\<close>

datatype ('h, 'a) cla_op =
    Http "'h lb_call" "'a RoutingContext" | Tcp "'h lb_call" | Grpc "'h lb_call" | Health_Report str HealthStatus

definition cla_step ::
  "('x, 'a) http_api \<Rightarrow> ('h \<Rightarrow> str \<Rightarrow> str + 'r) \<Rightarrow> ('w, 'g) lb_env \<Rightarrow> ('h, 'a) cla_op
     \<Rightarrow> ('s, 'o, 'h, 'c, 'w, 'g) ClusterLoadAssignment \<Rightarrow> ('s, 'o, 'h, 'c, 'w, 'g) ClusterLoadAssignment option" where
  "cla_step http grpc_new env cop cla =
     (case cop of
        Http call context \<Rightarrow> Some (snd (get_http_channel http env call context cla))
      | Tcp call \<Rightarrow> Some (snd (get_tcp_channel env call cla))
      | Grpc call \<Rightarrow> Some (snd (get_grpc_channel grpc_new env call cla))
      | Health_Report authority h \<Rightarrow> update_endpoint_health env authority h cla)"

fun cla_run ::
  "('x, 'a) http_api \<Rightarrow> ('h \<Rightarrow> str \<Rightarrow> str + 'r) \<Rightarrow> ('w, 'g) lb_env \<Rightarrow> ('h, 'a) cla_op list
     \<Rightarrow> ('s, 'o, 'h, 'c, 'w, 'g) ClusterLoadAssignment \<Rightarrow> ('s, 'o, 'h, 'c, 'w, 'g) ClusterLoadAssignment option" where
  "cla_run http grpc_new env [] cla = Some cla"
| "cla_run http grpc_new env (cop # cops) cla =
     Option.bind (cla_step http grpc_new env cop cla) (cla_run http grpc_new env cops)"

definition report_health :: "('h, 'a) cla_op \<Rightarrow> (str \<Rightarrow> HealthStatus) \<Rightarrow> str \<Rightarrow> HealthStatus" where
  "report_health cop hs = (case cop of Health_Report authority h \<Rightarrow> hs(lower authority := h) | _ \<Rightarrow> hs)"

definition last_health ::
  "('s, 'o, 'h, 'c, 'w, 'g) ClusterLoadAssignment \<Rightarrow> ('h, 'a) cla_op list \<Rightarrow> str \<Rightarrow> HealthStatus" where
  "last_health cla cops = fold report_health cops (configured_health (all_endpoints cla))"

lemma cla_step_tracks:
  assumes "cla_tracks hs cla" "cla_step http grpc_new env cop cla = Some cla'"
  shows "cla_tracks (report_health cop hs) cla' \<and> cla_endpoints cla' = cla_endpoints cla"
proof (cases cop)
  case (Http call ctx)
  then show ?thesis
    using assms get_http_channel_tracks(1,2) [OF assms(1), of http env call ctx]
    by (cases "get_http_channel http env call ctx cla") (simp add: cla_step_def report_health_def)
next
  case (Tcp call)
  then show ?thesis
    using assms cla_next_item_tracks(1,2) [OF assms(1), of env call None]
    by (cases "cla_next_item env call None cla") (auto simp: cla_step_def report_health_def get_tcp_channel_def)
next
  case (Grpc call)
  then show ?thesis
    using assms cla_next_item_tracks(1,2) [OF assms(1), of env call None]
    by (cases "cla_next_item env call None cla")
      (auto simp: cla_step_def report_health_def get_grpc_channel_def split: sum.splits)
next
  case (Health_Report authority h)
  then show ?thesis
    using assms update_endpoint_health_tracks [OF assms(1), of env authority h cla']
    by (simp only: cla_step_def report_health_def cla_op.case simp_thms)
qed

lemma cla_run_tracks:
  assumes "cla_tracks hs cla" "cla_run http grpc_new env cops cla = Some cla'"
  shows "cla_tracks (fold report_health cops hs) cla' \<and> cla_endpoints cla' = cla_endpoints cla"
  using assms
proof (induction cops arbitrary: cla hs)
  case (Cons cop cops)
  obtain c where c: "cla_step http grpc_new env cop cla = Some c" "cla_run http grpc_new env cops c = Some cla'"
    using Cons.prems(2) by (auto split: bind_splits)
  note step = cla_step_tracks [OF Cons.prems(1) c(1)]
  show ?case using Cons.IH [OF conjunct1 [OF step] c(2)] conjunct2 [OF step] by simp
qed simp

section \<open>The hosts of the header\<close>







section \<open>A new TLS secret\<close>

lemma collect_result_map: "collect_result f xs = Inr ys \<Longrightarrow> map f xs = map Inr ys"
  by (induction xs arbitrary: ys) (auto split: sum.splits)

text \<open>The channels that a rebuild makes for the endpoints of a locality.\<close>

definition rebuilt_channels ::
  "('s, 't, 'o, 'h, 'c) channel_api \<Rightarrow> 's \<Rightarrow> ('s, 'o, 'h, 'c) Locality \<Rightarrow> (str + 'h) list" where
  "rebuilt_channels api transport_socket l = map (\<lambda>e. http_build api (le_connect_using e) (loc_name l)
     (tls_configurator api transport_socket) None (loc_http_protocol_options l)) (endpoints l)"

lemma locality_rebuild_channels:
  assumes "LocalityLbEndpoints_rebuild api l = Inr l'"
  shows "map (\<lambda>e. Inr (le_http_channel e)) (endpoints l') = rebuilt_channels api (loc_transport_socket l) l"
proof -
  obtain es where es: "collect_result (\<lambda>e. LbEndpointBuilder_build api (loc_name l) (PartialLbEndpoint_new e)
              (loc_http_protocol_options l) (loc_transport_socket l) None) (endpoints l) = Inr es"
    and l': "l' = l\<lparr>endpoints := es\<rparr>"
    using assms by (auto simp: LocalityLbEndpoints_rebuild_def split: sum.splits)
  have "map (\<lambda>e. Inr (le_http_channel e)) es = map (\<lambda>r. map_sum id le_http_channel r) (map Inr es)" by simp
  also have "\<dots> = rebuilt_channels api (loc_transport_socket l) l"
    unfolding collect_result_map [OF es, symmetric] rebuilt_channels_def
    by (auto simp: LbEndpointBuilder_build_def PartialLbEndpoint_new_def split: sum.splits)
  finally show ?thesis by (simp add: l')
qed

lemma concat_map_rebuild:
  assumes "map f ls = map Inr ls'" "\<And>l l'. f l = Inr l' \<Longrightarrow> map g (endpoints l') = rs l"
  shows "map g (concat (map endpoints ls')) = concat (map rs ls)"
  using assms(1)
proof (induction ls arbitrary: ls')
  case (Cons l ls)
  then obtain l' rest where "ls' = l' # rest" by (cases ls') auto
  then show ?case using Cons assms(2) [of l l'] by simp
qed simp

lemma cla_rebuild_channels:
  assumes "cla_rebuild api cla = Inr cla'"
  shows "map (\<lambda>e. Inr (le_http_channel e)) (all_endpoints cla') =
    concat (map (rebuilt_channels api (cla_transport_socket cla)) (cla_endpoints cla))"
proof -
  let ?f = "\<lambda>l. LocalityLbEndpoints_rebuild api (l\<lparr>loc_transport_socket := cla_transport_socket cla\<rparr>)"
  obtain locs where locs: "collect_result ?f (cla_endpoints cla) = Inr locs"
    "cla' = cla\<lparr>cla_balancer := BalancerType_rebuild (cla_balancer cla) locs, cla_endpoints := locs\<rparr>"
    using assms by (auto simp: cla_rebuild_def split: sum.splits)
  have "map (\<lambda>e. Inr (le_http_channel e)) (concat (map endpoints locs)) =
      concat (map (rebuilt_channels api (cla_transport_socket cla)) (cla_endpoints cla))"
  proof (rule concat_map_rebuild [OF collect_result_map [OF locs(1)]])
    fix l l'
    assume "?f l = Inr l'"
    from locality_rebuild_channels [OF this]
    show "map (\<lambda>e. Inr (le_http_channel e)) (endpoints l') = rebuilt_channels api (cla_transport_socket cla) l"
      by (simp add: rebuilt_channels_def)
  qed
  then show ?thesis by (simp add: all_endpoints_def locs(2))
qed

section \<open>Properties\<close>

text \<open>An instance: a channel is the target it was built for with its TLS configuration and server name.\<close>

type_synonym demo_channel = "str \<times> nat option \<times> str option"

definition demo_channels :: "(nat option, nat, unit, demo_channel, unit) channel_api" where
  "demo_channels = \<lparr>tls_configurator = id, http_build = (\<lambda>cu _ tls sn _. Inr (cu_authority cu, tls, sn)),
     tcp_new = (\<lambda>_ _ _. ())\<rparr>"

definition demo_lb_env :: "(unit, unit) lb_env" where
  "demo_lb_env = \<lparr>env_hash_one = (\<lambda>_ _. 0), env_hash_slot = (\<lambda>_ _. 0),
     env_index = \<lparr>wi_new = (\<lambda>_. None), wi_sample = (\<lambda>_ _. (0, ()))\<rparr>,
     env_sampling = \<lparr>choose_multiple = (\<lambda>n k _. ([0..<min k n], ())), gen_range = (\<lambda>_ _. (0, ()))\<rparr>,
     env_powf = (\<lambda>x _. x), env_rng = ()\<rparr>"

definition demo_http :: "(unit, unit) http_api" where
  "demo_http = \<lparr>ha_hasher = \<lparr>hasher_new = (), hash_addr = (\<lambda>_ _. ()), hash_header_value = (\<lambda>_ _. ()),
       hash_str = (\<lambda>_ _. ()), hasher_finish = (\<lambda>_. 0)\<rparr>,
     ha_parse_query = (\<lambda>_. []), ha_to_str = Some, ha_to_authority = Some\<rparr>"

definition demo_endpoint :: "str \<Rightarrow> PartialLbEndpoint" where
  "demo_endpoint a = \<lparr>pe_connect_using = Socket a None None None, pe_weight = 1, pe_health_status = Healthy\<rparr>"

definition demo_builder :: "LbPolicy \<Rightarrow> (nat option, unit) ClusterLoadAssignmentBuilder" where
  "demo_builder policy = \<lparr>clb_cluster_name = ''c'',
     clb_cla = [\<lparr>pl_endpoints = map demo_endpoint [''a:80'', ''b:80'', ''c:80'', ''d:80''], pl_priority = 0\<rparr>],
     clb_bind_device = None, clb_protocol_options = None, clb_lb_policy = policy,
     clb_transport_socket = Some 1, clb_server_name = Some ''sni'',
     clb_connection_timeout = None, clb_idle_timeout = None\<rparr>"

definition demo_override :: LbPolicy where
  "demo_override = ExtendedOverrideHost \<lparr>override_host_source = OverrideHeader ''x-host'',
     fallback_policy = LbRoundRobin\<rparr>"

lemmas demo_defs = demo_channels_def demo_lb_env_def demo_http_def demo_endpoint_def demo_builder_def demo_override_def

definition demo_call :: "demo_channel lb_call" where
  "demo_call = \<lparr>lc_random = 0, lc_load = (\<lambda>_. 0)\<rparr>"

definition demo_cla where
  "demo_cla policy = (case ClusterLoadAssignmentBuilder_build demo_channels demo_lb_env () (demo_builder policy) of
     Some (Inr cla) \<Rightarrow> cla)"

lemmas assignment_eval = ClusterLoadAssignmentBuilder_build_def LocalityLbEndpointsBuilder_build_def
  LbEndpointBuilder_build_def u32_try_from_def pe_with_bind_device_def pe_with_connect_timeout_def
  pe_with_idle_timeout_def locality_slice_def OverrideHost_new_def OverrideHost_build_def override_insert_def
  le_authority_def

lemma demo_cla_build:
  "ClusterLoadAssignmentBuilder_build demo_channels demo_lb_env () (demo_builder demo_override) =
     Some (Inr (demo_cla demo_override))"
  by (simp add: demo_cla_def demo_defs assignment_eval lb_eval Let_def)

lemmas assignment_run_eval = cla_step_def update_endpoint_health_def override_update_entry_def LbEndpoint_eq_def
  eq_ignore_ascii_case_def get_http_channel_def select_override_def List.map_filter_def
  override_lookup_def str_trim_def all_endpoints_def

lemma demo_lower:
  "to_ascii_lowercase CHR ''A'' = CHR ''a''" "to_ascii_lowercase CHR ''a'' = CHR ''a''"
  "to_ascii_lowercase CHR ''b'' = CHR ''b''" "to_ascii_lowercase CHR ''c'' = CHR ''c''"
  "to_ascii_lowercase CHR ''d'' = CHR ''d''" "to_ascii_lowercase CHR '':'' = CHR '':''"
  "to_ascii_lowercase CHR ''8'' = CHR ''8''" "to_ascii_lowercase CHR ''0'' = CHR ''0''"
  by code_simp+

definition demo_ops :: "(demo_channel, unit) cla_op list" where
  "demo_ops = [Health_Report ''A:80'' Unhealthy]"

definition demo_after where
  "demo_after = the (cla_run demo_http (\<lambda>_ _. Inr ()) demo_lb_env demo_ops (demo_cla demo_override))"

lemma demo_assignment_run:
  "cla_run demo_http (\<lambda>_ _. Inr ()) demo_lb_env demo_ops (demo_cla demo_override) = Some demo_after"
  "fst (get_http_channel demo_http demo_lb_env demo_call (CtxOverrideHost ''a:80, b:80,c:80'' None) demo_after) =
     Inr (MultiWithFailover (''b:80'', Some 1, Some ''sni'') [(''c:80'', Some 1, Some ''sni'')])"
  by (simp_all add: demo_after_def demo_ops_def demo_cla_def demo_defs assignment_eval lb_eval assignment_run_eval demo_lower Let_def)

lemma demo_endpoints:
  "map le_authority (all_endpoints (demo_cla demo_override)) = [''a:80'', ''b:80'', ''c:80'', ''d:80'']"
  by (simp add: all_endpoints_def demo_cla_def demo_defs assignment_eval lb_eval Let_def)

lemma demo_distinct: "distinct (map le_key (all_endpoints (demo_cla demo_override)))"
proof -
  have "map le_key (all_endpoints (demo_cla demo_override)) = map lower [''a:80'', ''b:80'', ''c:80'', ''d:80'']"
    unfolding demo_endpoints [symmetric] by (simp add: le_key_def)
  then show ?thesis by (simp add: demo_lower)
qed

text \<open>C14: Requests only go to healthy endpoints. Build the load assignment of a cluster with any balancing policy, the
  override by a header included, and let it serve any sequence of HTTP, TCP and gRPC requests mixed with health
  reports. Every channel that the next HTTP request gets, failover channels included, belongs to a configured
  endpoint whose last known health is healthy (the authorities are distinct up to case).\<close>

theorem load_assignment_selects_healthy:
  assumes "ClusterLoadAssignmentBuilder_build api env default_options clb = Some (Inr cla0)"
    and "distinct (map le_key (all_endpoints cla0))"
    and "cla_run http grpc_new env cops cla0 = Some cla"
    and "fst (get_http_channel http env call context cla) = Inr chs"
    and "c \<in> set (channel_list chs)"
  shows "\<exists>e\<in>set (all_endpoints cla0). le_http_channel e = c \<and> last_health cla0 cops (le_key e) = Healthy"
proof -
  note run = cla_run_tracks [OF build_tracks [OF assms(1,2)] assms(3)]
  obtain cla' where "get_http_channel http env call context cla = (Inr chs, cla')"
    using assms(4) by (metis prod.collapse)
  from get_http_channel_tracks(3) [OF conjunct1 [OF run] this refl assms(5)]
  show ?thesis using conjunct2 [OF run] by (simp add: last_health_def all_endpoints_def)
qed

theorem load_assignment_selects_healthy_witness:
  "(''b:80'', Some 1, Some ''sni'') \<in> set (channel_list
      (projr (fst (get_http_channel demo_http demo_lb_env demo_call (CtxOverrideHost ''a:80, b:80,c:80'' None) demo_after)))) \<and>
   (\<exists>e\<in>set (all_endpoints (demo_cla demo_override)). le_http_channel e = (''b:80'', Some 1, Some ''sni'') \<and>
      last_health (demo_cla demo_override) demo_ops (le_key e) = Healthy)"
  using load_assignment_selects_healthy [OF demo_cla_build demo_distinct demo_assignment_run, of "(''b:80'', Some 1, Some ''sni'')"]
  by (simp add: demo_assignment_run(2))



text \<open>C37: A new TLS secret does not reach the requests. Rebuilding a load assignment makes new channels for all its
  endpoints, with the new transport socket and without the configured server name; but except for the policy that
  takes the hosts of a header the balancer is kept as it is, so every selection returns the channel it would have
  returned before, built with the old secret.\<close>

theorem tls_rebuild_keeps_selection:
  assumes "cla_rebuild api cla = Inr cla'" "\<forall>b. cla_balancer cla \<noteq> OverrideHost b"
  shows "fst (get_http_channel http env call context cla') = fst (get_http_channel http env call context cla) \<and>
    map (\<lambda>e. Inr (le_http_channel e)) (all_endpoints cla') =
      concat (map (rebuilt_channels api (cla_transport_socket cla)) (cla_endpoints cla))"
proof
  have "cla_balancer cla' = cla_balancer cla"
    using assms by (auto simp: cla_rebuild_def BalancerType_rebuild_def split: sum.splits BalancerType.splits)
  then show "fst (get_http_channel http env call context cla') = fst (get_http_channel http env call context cla)"
    using assms(2)
    by (auto simp: get_http_channel_def cla_next_item_def Let_def case_prod_beta
        split: RoutingContext.splits BalancerType.splits)
qed (rule cla_rebuild_channels [OF assms(1)])

definition demo_rotated where
  "demo_rotated = (demo_cla (Standard LbRoundRobin))\<lparr>cla_transport_socket := Some 2\<rparr>"

theorem tls_rebuild_keeps_selection_witness:
  "let cla' = projr (cla_rebuild demo_channels demo_rotated)
   in fst (get_http_channel demo_http demo_lb_env demo_call CtxNone cla') = Inr (Single (''a:80'', Some 1, Some ''sni'')) \<and>
      map snd (all_http_channels cla') = map (\<lambda>a. (a, Some 2, None)) [''a:80'', ''b:80'', ''c:80'', ''d:80'']"
proof -
  let ?new = "projr (cla_rebuild demo_channels demo_rotated)"
  let ?get = "\<lambda>cla. fst (get_http_channel demo_http demo_lb_env demo_call (CtxNone :: unit RoutingContext) cla)"
  have new: "cla_rebuild demo_channels demo_rotated = Inr ?new" "\<forall>b. cla_balancer demo_rotated \<noteq> OverrideHost b"
    by (simp_all add: demo_rotated_def demo_cla_def demo_defs assignment_eval lb_eval cla_rebuild_def
        LocalityLbEndpoints_rebuild_def PartialLbEndpoint_new_def Let_def)
  have old: "?get demo_rotated = Inr (Single (''a:80'', Some 1, Some ''sni''))"
    by (simp add: demo_rotated_def demo_cla_def demo_defs assignment_eval lb_eval get_http_channel_def
        cla_next_item_def Let_def)
  have built: "concat (map (rebuilt_channels demo_channels (cla_transport_socket demo_rotated)) (cla_endpoints demo_rotated)) =
      map (\<lambda>a. Inr (a, Some 2, None)) [''a:80'', ''b:80'', ''c:80'', ''d:80'']"
    by (simp add: demo_rotated_def demo_cla_def demo_defs assignment_eval lb_eval rebuilt_channels_def Let_def)
  note rebuilt = tls_rebuild_keeps_selection [OF new, of demo_http demo_lb_env demo_call "CtxNone :: unit RoutingContext"]
  have "map Inr (map le_http_channel (all_endpoints ?new)) =
      (map Inr (map (\<lambda>a. (a, Some 2, None)) [''a:80'', ''b:80'', ''c:80'', ''d:80'']) :: (str + demo_channel) list)"
    using conjunct2 [OF rebuilt] built by (simp add: comp_def)
  then have "map le_http_channel (all_endpoints ?new) = map (\<lambda>a. (a, Some 2, None)) [''a:80'', ''b:80'', ''c:80'', ''d:80'']"
    by (rule injD [OF inj_mapI, rotated]) simp
  moreover have "map snd (all_http_channels ?new) = map le_http_channel (all_endpoints ?new)"
    by (simp add: all_http_channels_def)
  ultimately show ?thesis using conjunct1 [OF rebuilt] old by (simp only: Let_def simp_thms)
qed

end
