(* ===== verification/Upstream.thy ===== *)
theory Upstream
  imports Clusters Assignment_Health
begin

text \<open>
  How a request gets its upstream: \<^verbatim>\<open>clusters/clusters_manager.rs\<close> (the cluster of a
  specifier, the routing context of a request, the changes of the cluster map) and
  \<^verbatim>\<open>clusters/http_upstream.rs\<close> (the acquisition of a request slot with its channels). The
  properties are that an acquisition accounts for its slot on every path, and that an original
  destination cluster connects to the destination of the request.
\<close>

section \<open>The cluster of a request\<close>

type_synonym ('t, 'p, 'o, 'h, 'c, 'w, 'g, 'l) clusters = "('t, 'p, 'o, 'h, 'c, 'w, 'g, 'l) ClusterKind ClustersMap"

datatype ClusterSpecifier = Cluster str | WeightedCluster "(str \<times> u32) list" | ClusterHeader str

definition MAX_CLUSTER_NAME_LENGTH :: nat where
  "MAX_CLUSTER_NAME_LENGTH = 256"

text \<open>\<open>choose_weighted\<close> is the index that \<^verbatim>\<open>SliceRandom::choose_weighted\<close> draws for the weights.\<close>

definition resolve_cluster ::
  "(str \<Rightarrow> str option) \<Rightarrow> (u32 list \<Rightarrow> nat option) \<Rightarrow> ClusterSpecifier \<Rightarrow> (str \<times> str) list option
     \<Rightarrow> 'r ClustersMap \<Rightarrow> str option" where
  "resolve_cluster to_str choose_weighted selector header_map m =
     (case selector of
        Cluster cluster_name \<Rightarrow> Some cluster_name
      | WeightedCluster weighted_clusters \<Rightarrow>
          (case choose_weighted (map snd weighted_clusters) of
             None \<Rightarrow> None
           | Some i \<Rightarrow> map_option fst (slice_get weighted_clusters i))
      | ClusterHeader name \<Rightarrow>
          (case header_map of
             None \<Rightarrow> None
           | Some hs \<Rightarrow>
               (case header_get name hs of
                  None \<Rightarrow> None
                | Some header_value \<Rightarrow>
                    (case to_str header_value of
                       None \<Rightarrow> None
                     | Some cluster_name \<Rightarrow>
                         if cluster_name = [] \<or> length cluster_name > MAX_CLUSTER_NAME_LENGTH then None
                         else if m cluster_name \<noteq> None then Some cluster_name else None))))"

section \<open>The routing context\<close>

datatype RoutingContextError = MissingMetadataKey | MissingHeader str | MissingAuthority | InvalidAuthority

definition RoutingAuthority_try_from :: "(str \<Rightarrow> str option) \<Rightarrow> Request \<Rightarrow> RoutingContextError + str" where
  "RoutingAuthority_try_from to_authority request =
     (case uri_authority request of
        Some authority \<Rightarrow> Inr authority
      | None \<Rightarrow>
          (case header_get ''host'' (req_headers request) of
             None \<Rightarrow> Inl MissingAuthority
           | Some host \<Rightarrow>
               (case to_authority host of None \<Rightarrow> Inl InvalidAuthority | Some authority \<Rightarrow> Inr authority)))"

text \<open>\<open>dynamic_dest\<close> is the extension \<^verbatim>\<open>DynamicDest\<close> of the request, set by earlier filters.\<close>

definition RoutingContext_try_from ::
  "(str \<Rightarrow> str option) \<Rightarrow> RoutingRequirement \<Rightarrow> Request \<Rightarrow> str option \<Rightarrow> 'a HashState
     \<Rightarrow> RoutingContextError + 'a RoutingContext" where
  "RoutingContext_try_from to_authority routing_requirement request dynamic_dest hash_state =
     (case routing_requirement of
        ReqOverrideHost header requires_hash \<Rightarrow>
          (case header_get header (req_headers request) of
             Some header_value \<Rightarrow>
               Inr (CtxOverrideHost header_value (if requires_hash then Some hash_state else None))
           | None \<Rightarrow> Inr (if requires_hash then CtxHash hash_state else CtxNone))
      | ReqMetadataKey _ \<Rightarrow>
          (case dynamic_dest of None \<Rightarrow> Inl MissingMetadataKey | Some d \<Rightarrow> Inr (CtxDynamicDest d))
      | ReqHeader hname \<Rightarrow>
          (case header_get hname (req_headers request) of
             None \<Rightarrow> Inl (MissingHeader hname)
           | Some header_value \<Rightarrow> Inr (CtxHeader header_value))
      | ReqAuthority \<Rightarrow> map_sum id CtxAuthority (RoutingAuthority_try_from to_authority request)
      | ReqHash \<Rightarrow> Inr (CtxHash hash_state)
      | ReqNone \<Rightarrow> Inr CtxNone)"

section \<open>The cluster map\<close>

definition get_cluster_routing_requirements :: "str \<Rightarrow> ('t, 'p, 'o, 'h, 'c, 'w, 'g, 'l) clusters \<Rightarrow> RoutingRequirement" where
  "get_cluster_routing_requirements cluster_id m =
     (case m cluster_id of Some cl \<Rightarrow> cluster_get_routing_requirements (cluster_rest cl) | None \<Rightarrow> ReqNone)"

definition with_cluster ::
  "(('t, 'p, 'o, 'h, 'c, 'w, 'g, 'l) ClusterKind \<Rightarrow> (str + 'r) \<times> ('t, 'p, 'o, 'h, 'c, 'w, 'g, 'l) ClusterKind)
     \<Rightarrow> str \<Rightarrow> ('t, 'p, 'o, 'h, 'c, 'w, 'g, 'l) clusters \<Rightarrow> (str + 'r) \<times> ('t, 'p, 'o, 'h, 'c, 'w, 'g, 'l) clusters" where
  "with_cluster f cluster_id m =
     (case m cluster_id of
        Some cl \<Rightarrow> (let (r, k) = f (cluster_rest cl) in (r, m(cluster_id \<mapsto> cl\<lparr>cluster_rest := k\<rparr>)))
      | None \<Rightarrow> (Inl (''Cluster '' @ cluster_id @ '' not found''), m))"

definition get_http_connection ::
  "('t, 'p, 'o, 'h, 'c, 'w, 'g, 'l, 'x, 'a, 'q) cluster_env \<Rightarrow> 'h lb_call \<Rightarrow> int \<Rightarrow> str \<Rightarrow> 'a RoutingContext \<Rightarrow> ('t, 'p, 'o, 'h, 'c, 'w, 'g, 'l) clusters
     \<Rightarrow> (str + 'h HttpChannels) \<times> ('t, 'p, 'o, 'h, 'c, 'w, 'g, 'l) clusters" where
  "get_http_connection ce call now cluster_id ctx =
     with_cluster (cluster_get_http_connection ce call now ctx) cluster_id"

definition get_tcp_connection ::
  "('t, 'p, 'o, 'h, 'c, 'w, 'g, 'l, 'x, 'a, 'q) cluster_env \<Rightarrow> 'h lb_call \<Rightarrow> int \<Rightarrow> str \<Rightarrow> 'a RoutingContext \<Rightarrow> ('t, 'p, 'o, 'h, 'c, 'w, 'g, 'l) clusters
     \<Rightarrow> (str + 'c) \<times> ('t, 'p, 'o, 'h, 'c, 'w, 'g, 'l) clusters" where
  "get_tcp_connection ce call now cluster_id ctx =
     with_cluster (cluster_get_tcp_connection ce call now ctx) cluster_id"

definition get_grpc_connection ::
  "('t, 'p, 'o, 'h, 'c, 'w, 'g, 'l, 'x, 'a, 'q) cluster_env \<Rightarrow> ('h \<Rightarrow> str \<Rightarrow> str + 'r) \<Rightarrow> ('h \<Rightarrow> str) \<Rightarrow> 'h lb_call \<Rightarrow> int \<Rightarrow> str \<Rightarrow> 'a RoutingContext
     \<Rightarrow> ('t, 'p, 'o, 'h, 'c, 'w, 'g, 'l) clusters \<Rightarrow> (str + 'r) \<times> ('t, 'p, 'o, 'h, 'c, 'w, 'g, 'l) clusters" where
  "get_grpc_connection ce grpc_new upstream_authority call now cluster_id ctx =
     with_cluster (cluster_get_grpc_connection ce grpc_new upstream_authority call now ctx) cluster_id"

definition all_http_connections ::
  "('t, 'p, 'o, 'h, 'c, 'w, 'g, 'l, 'x, 'a, 'q) cluster_env \<Rightarrow> str \<Rightarrow> ('t, 'p, 'o, 'h, 'c, 'w, 'g, 'l) clusters
     \<Rightarrow> (str + (str \<times> 'h) list) \<times> ('t, 'p, 'o, 'h, 'c, 'w, 'g, 'l) clusters" where
  "all_http_connections ce = with_cluster (\<lambda>k. (Inr (cluster_all_http_channels ce k), k))"

definition all_tcp_connections ::
  "('t, 'p, 'o, 'h, 'c, 'w, 'g, 'l, 'x, 'a, 'q) cluster_env \<Rightarrow> str \<Rightarrow> ('t, 'p, 'o, 'h, 'c, 'w, 'g, 'l) clusters
     \<Rightarrow> (str + (str \<times> 'c) list) \<times> ('t, 'p, 'o, 'h, 'c, 'w, 'g, 'l) clusters" where
  "all_tcp_connections ce = with_cluster (\<lambda>k. (Inr (cluster_all_tcp_channels ce k), k))"

definition all_grpc_connections ::
  "('t, 'p, 'o, 'h, 'c, 'w, 'g, 'l, 'x, 'a, 'q) cluster_env \<Rightarrow> ('h \<Rightarrow> str \<Rightarrow> str + 'r) \<Rightarrow> ('h \<Rightarrow> str) \<Rightarrow> str \<Rightarrow> ('t, 'p, 'o, 'h, 'c, 'w, 'g, 'l) clusters
     \<Rightarrow> (str + (str + str \<times> 'r) list) \<times> ('t, 'p, 'o, 'h, 'c, 'w, 'g, 'l) clusters" where
  "all_grpc_connections ce grpc_new upstream_authority =
     with_cluster (\<lambda>k. (Inr (cluster_all_grpc_channels ce grpc_new upstream_authority k), k))"

text \<open>
  A new load assignment of a dynamic cluster. It is built with the transport socket and the options of
  the cluster but without a server name. The outer option is a panic of the builder.
\<close>

definition change_cluster_load_assignment ::
  "('t, 'p, 'o, 'h, 'c, 'w, 'g, 'l, 'x, 'a, 'q) cluster_env \<Rightarrow> 'o \<Rightarrow> str \<Rightarrow> PartialLocalityLbEndpoints list \<Rightarrow> ('t, 'p, 'o, 'h, 'c, 'w, 'g, 'l) clusters
     \<Rightarrow> ((str + ('t, 'p, 'o, 'h, 'c, 'w, 'g, 'l) ClusterKind) \<times> ('t, 'p, 'o, 'h, 'c, 'w, 'g, 'l) clusters) option" where
  "change_cluster_load_assignment ce default_options name cla m =
     (case m name of
        None \<Rightarrow> Some (Inl (name @ '' No cluster found''), m)
      | Some cl \<Rightarrow>
          (case cluster_rest cl of
             Dynamic dy \<Rightarrow>
               (case ClusterLoadAssignmentBuilder_build (channels_of ce) (ce_lb ce) default_options
                       \<lparr>clb_cluster_name = dy_name dy, clb_cla = cla, clb_bind_device = dy_bind_device dy,
                        clb_protocol_options = Some (dy_http_protocol_options dy),
                        clb_lb_policy = dy_load_balancing_policy dy, clb_transport_socket = dy_transport_socket dy,
                        clb_server_name = None, clb_connection_timeout = dy_connect_timeout dy,
                        clb_idle_timeout = dy_idle_timeout dy\<rparr> of
                  None \<Rightarrow> None
                | Some (Inl e) \<Rightarrow> Some (Inl e, m)
                | Some (Inr built) \<Rightarrow>
                    (let k = Dynamic (change_load_assignment (Some built) dy)
                     in Some (Inr k, m(name \<mapsto> cl\<lparr>cluster_rest := k\<rparr>))))
           | Static _ \<Rightarrow> Some (Inl (name @ '' Attempt to change CLA for static cluster''), m)
           | OnDemand _ \<Rightarrow> Some (Inl (name @ '' Attempt to change CLA for ORIGINAL_DST cluster''), m)))"

definition remove_cluster_load_assignment ::
  "str \<Rightarrow> ('t, 'p, 'o, 'h, 'c, 'w, 'g, 'l) clusters \<Rightarrow> (str + unit) \<times> ('t, 'p, 'o, 'h, 'c, 'w, 'g, 'l) clusters" where
  "remove_cluster_load_assignment name m =
     (case m name of
        None \<Rightarrow> (Inl (name @ '' No cluster found''), m)
      | Some cl \<Rightarrow>
          (case cluster_rest cl of
             Dynamic dy \<Rightarrow> (Inr (), m(name \<mapsto> cl\<lparr>cluster_rest := Dynamic (change_load_assignment None dy)\<rparr>))
           | Static _ \<Rightarrow> (Inl (name @ '' Attempt to change CLA for static cluster''), m)
           | OnDemand _ \<Rightarrow> (Inl (name @ '' Attempt to change CLA for ORIGINAL_DST cluster''), m)))"

definition manager_update_endpoint_health ::
  "('t, 'p, 'o, 'h, 'c, 'w, 'g, 'l, 'x, 'a, 'q) cluster_env \<Rightarrow> str \<Rightarrow> str \<Rightarrow> HealthStatus \<Rightarrow> ('t, 'p, 'o, 'h, 'c, 'w, 'g, 'l) clusters
     \<Rightarrow> ('t, 'p, 'o, 'h, 'c, 'w, 'g, 'l) clusters option" where
  "manager_update_endpoint_health ce cluster authority h m =
     (case m cluster of
        None \<Rightarrow> Some m
      | Some cl \<Rightarrow> map_option (\<lambda>k. m(cluster \<mapsto> cl\<lparr>cluster_rest := k\<rparr>))
          (cluster_update_health ce authority h (cluster_rest cl)))"

text \<open>The clusters are visited in the order \<open>names\<close> of the map; the first error ends the visit.\<close>

fun update_tls_context ::
  "('t, 'p, 'o, 'h, 'c, 'w, 'g, 'l, 'x, 'a, 'q) cluster_env \<Rightarrow> str \<Rightarrow> 'q \<Rightarrow> str list \<Rightarrow> ('t, 'p, 'o, 'h, 'c, 'w, 'g, 'l) clusters
     \<Rightarrow> (str + ('t, 'p, 'o, 'h, 'c, 'w, 'g, 'l) ClusterKind list) \<times> ('t, 'p, 'o, 'h, 'c, 'w, 'g, 'l) clusters" where
  "update_tls_context ce secret_id secret [] m = (Inr [], m)"
| "update_tls_context ce secret_id secret (name # names) m =
     (case m name of
        None \<Rightarrow> update_tls_context ce secret_id secret names m
      | Some cl \<Rightarrow>
          (case cluster_change_tls_context ce secret_id secret (cluster_rest cl) of
             (Inl e, k) \<Rightarrow> (Inl e, m(name \<mapsto> cl\<lparr>cluster_rest := k\<rparr>))
           | (Inr rebuilt, k) \<Rightarrow>
               map_prod (map_sum id (\<lambda>ks. if rebuilt then k # ks else ks)) id
                 (update_tls_context ce secret_id secret names (m(name \<mapsto> cl\<lparr>cluster_rest := k\<rparr>)))))"

section \<open>Acquiring an upstream\<close>

record RequestPermit =
  permit_cluster_id :: str
  permit_priority :: RoutingPriority

record 'h AcquiredHttpUpstream =
  acq_channels :: "'h HttpChannels"
  acq_cluster_name :: str
  overrides_host :: bool
  acq_permit :: RequestPermit

definition RequestPermit_drop :: "'r ClustersMap \<Rightarrow> RequestPermit \<Rightarrow> heap \<Rightarrow> heap" where
  "RequestPermit_drop m permit = manager_decrement Requests (permit_cluster_id permit) (permit_priority permit) m"

datatype AcquireHttpUpstreamErrorKind =
  KindClusterNotFound | KindCircuitBreakerOverflow | KindRoutingContext | KindConnection

datatype AcquireHttpUpstreamError =
    AcquireClusterNotFound
  | AcquireCircuitBreakerOverflow str CircuitBreakerDenial
  | AcquireRoutingContext str RoutingContextError
  | AcquireConnection str str

primrec acquire_error_kind :: "AcquireHttpUpstreamError \<Rightarrow> AcquireHttpUpstreamErrorKind" where
  "acquire_error_kind AcquireClusterNotFound = KindClusterNotFound"
| "acquire_error_kind (AcquireCircuitBreakerOverflow _ _) = KindCircuitBreakerOverflow"
| "acquire_error_kind (AcquireRoutingContext _ _) = KindRoutingContext"
| "acquire_error_kind (AcquireConnection _ _) = KindConnection"

primrec acquire_error_cluster_id :: "AcquireHttpUpstreamError \<Rightarrow> str option" where
  "acquire_error_cluster_id AcquireClusterNotFound = None"
| "acquire_error_cluster_id (AcquireCircuitBreakerOverflow cluster_id _) = Some cluster_id"
| "acquire_error_cluster_id (AcquireRoutingContext cluster_id _) = Some cluster_id"
| "acquire_error_cluster_id (AcquireConnection cluster_id _) = Some cluster_id"

text \<open>
  Every access to the clusters goes through the cache of the thread, which may have been refreshed
  since the last one: \<open>maps k\<close> is the map that access \<open>k\<close> sees. The accesses are the resolution, the
  circuit breaker, the routing requirements, the connection, and the drop of the permit on an error.
  The result holds the map of the fourth access after the selection.
\<close>

definition acquire_http_upstream ::
  "('t, 'p, 'o, 'h, 'c, 'w, 'g, 'l, 'x, 'a, 'q) cluster_env \<Rightarrow> (u32 list \<Rightarrow> nat option) \<Rightarrow> 'h lb_call \<Rightarrow> int
     \<Rightarrow> ClusterSpecifier \<Rightarrow> Request \<Rightarrow> str option \<Rightarrow> HashPolicy list \<Rightarrow> 'a \<Rightarrow> RoutingPriority
     \<Rightarrow> (nat \<Rightarrow> ('t, 'p, 'o, 'h, 'c, 'w, 'g, 'l) clusters) \<Rightarrow> heap
     \<Rightarrow> (AcquireHttpUpstreamError + 'h AcquiredHttpUpstream) \<times> heap \<times> ('t, 'p, 'o, 'h, 'c, 'w, 'g, 'l) clusters" where
  "acquire_http_upstream ce choose_weighted call now cluster_specifier request dynamic_dest hash_policy source_address
      routing_priority maps h =
     (case resolve_cluster (ha_to_str (ce_http ce)) choose_weighted cluster_specifier (Some (req_headers request)) (maps 0) of
        None \<Rightarrow> (Inl AcquireClusterNotFound, h, maps 3)
      | Some cluster_id \<Rightarrow>
          (case manager_try_increment Requests cluster_id routing_priority (maps 1) h of
             (Inl denied_by, h) \<Rightarrow> (Inl (AcquireCircuitBreakerOverflow cluster_id denied_by), h, maps 3)
           | (Inr _, h) \<Rightarrow>
               (let permit = \<lparr>permit_cluster_id = cluster_id, permit_priority = routing_priority\<rparr>;
                    routing_requirement = get_cluster_routing_requirements cluster_id (maps 2);
                    is_override = (case routing_requirement of ReqOverrideHost _ _ \<Rightarrow> True | _ \<Rightarrow> False);
                    hash_state = HashState_new hash_policy request source_address
                in case RoutingContext_try_from (ha_to_authority (ce_http ce)) routing_requirement request dynamic_dest
                          hash_state of
                     Inl e \<Rightarrow> (Inl (AcquireRoutingContext cluster_id e), RequestPermit_drop (maps 4) permit h, maps 3)
                   | Inr ctx \<Rightarrow>
                       (case get_http_connection ce call now cluster_id ctx (maps 3) of
                          (Inl e, m) \<Rightarrow> (Inl (AcquireConnection cluster_id e), RequestPermit_drop (maps 4) permit h, m)
                        | (Inr channels, m) \<Rightarrow>
                            (Inr \<lparr>acq_channels = channels, acq_cluster_name = cluster_id,
                                  overrides_host = is_override, acq_permit = permit\<rparr>, h, m)))))"

section \<open>A sample cluster\<close>

type_synonym sample_channel = "str \<times> nat option"

definition sample_env ::
  "(nat, unit, unit, sample_channel, unit, unit, unit, (str \<times> (sample_channel, unit) Endpoint) list, unit, unit, nat) cluster_env" where
  "sample_env =
     \<lparr>ce_channels = \<lparr>tls_configurator = (\<lambda>_. None), http_build =
          (\<lambda>cu _ tls _ _. if tls = Some 3 then Inl ''bad secret'' else Inr (cu_authority cu, tls)),
        tcp_new = (\<lambda>_ _ _. ())\<rparr>,
      ce_lb = \<lparr>env_hash_one = (\<lambda>_ _. 0), env_hash_slot = (\<lambda>_ _. 0),
        env_index = \<lparr>wi_new = (\<lambda>_. None), wi_sample = (\<lambda>_ _. (0, ()))\<rparr>,
        env_sampling = \<lparr>choose_multiple = (\<lambda>n k _. ([0..<min k n], ())), gen_range = (\<lambda>_ _. (0, ()))\<rparr>,
        env_powf = (\<lambda>x _. x), env_rng = ()\<rparr>,
      ce_http = \<lparr>ha_hasher = \<lparr>hasher_new = (), hash_addr = (\<lambda>_ _. ()), hash_header_value = (\<lambda>_ _. ()),
          hash_str = (\<lambda>_ _. ()), hasher_finish = (\<lambda>_. 0)\<rparr>,
        ha_parse_query = (\<lambda>_. []), ha_to_str = Some, ha_to_authority = Some\<rparr>,
      ce_lru = \<lparr>lru_with_expiry = (\<lambda>_ _. []), lru_get = (\<lambda>_ k l. (map_of l k, l)),
        lru_insert = (\<lambda>_ k v l. (k, v) # l), lru_items = id\<rparr>,
      ce_host = takeWhile (\<lambda>c. c \<noteq> CHR '':''), ce_show_u16 = (\<lambda>p. if p = 8080 then ''8080'' else ''0''),
      ce_idle_timeout = (\<lambda>_. None),
      ce_tls = \<lparr>uses_secret = (\<lambda>_ _. True), tls_update = (\<lambda>_ _ s. Inr s)\<rparr>\<rparr>"

definition sample_od where
  "sample_od = OriginalDstClusterBuilder_build sample_env ''od'' None (TlsSocket 1) None None
     (Some (HttpHeaderMethod (Some ''x-dst''), Some 8080)) None ()"

definition sample_breaker :: ClusterCircuitBreaker where
  "sample_breaker = \<lparr>default_priority = \<lparr>thresholds = default_thresholds\<lparr>max_requests := 1\<rparr>, counters = 0\<rparr>,
     high_priority = \<lparr>thresholds = default_thresholds, counters = 1\<rparr>\<rparr>"

definition sample_clusters ::
  "(nat, unit, unit, sample_channel, unit, unit, unit, (str \<times> (sample_channel, unit) Endpoint) list) clusters" where
  "sample_clusters = [''od'' \<mapsto> \<lparr>circuit_breaker = Some sample_breaker, cluster_rest = OnDemand sample_od\<rparr>]"

definition sample_request :: Request where
  "sample_request = \<lparr>req_method = ''GET'', uri_scheme = None, uri_authority = None, uri_path_and_query = None,
     req_headers = [(''host'', ''a''), (''x-dst'', ''b:80'')]\<rparr>"

definition sample_acquire where
  "sample_acquire h = acquire_http_upstream sample_env (\<lambda>_. None) \<lparr>lc_random = 0, lc_load = (\<lambda>_. 0)\<rparr> 0 (Cluster ''od'')
     sample_request None [] () Default (\<lambda>_. sample_clusters) h"

lemmas sample_eval = sample_env_def sample_od_def sample_breaker_def sample_clusters_def sample_request_def
  OriginalDstClusterBuilder_build_def resolve_cluster_def manager_try_increment_def breaker_of_def try_increment_requests_def
  try_increment_def fetch_add_def get_cluster_routing_requirements_def cluster_get_routing_requirements_def
  RoutingContext_try_from_def header_get_def get_all_def get_http_connection_def with_cluster_def
  cluster_get_http_connection_def od_get_http_connection_def get_http_connection_by_header_def
  get_http_connection_by_authority_def get_connection_by_authority_def apply_port_override_def Endpoint_try_new_def
  channels_of_def default_thresholds_def CircuitBreakerCounters_new_def

section \<open>The accounting of an acquisition\<close>

text \<open>C7: Acquiring an upstream for a request accounts for its slot on every path. When it fails, be it
  that the cluster is unknown, the circuit breaker denies the request, the request lacks what the
  routing needs, or no connection is found, the counters of every cluster are as they were; it is
  denied only at a counter that has reached its limit. When it succeeds, exactly the request counter of
  the acquired cluster and priority is one higher, it was below its limit, and dropping the acquired
  upstream gives the counters back. The clusters may change in between, as long as the clusters keep
  their counters.
\<close>

theorem acquire_http_upstream_accounting:
  assumes same: "\<forall>c p. addr_of (maps 4) c p = addr_of (maps 1) c p"
    and acq: "acquire_http_upstream ce choose_weighted call now specifier request dynamic_dest hash_policy source_address
      prio maps h = (r, h', m')"
  shows "case r of
      Inl e \<Rightarrow> h' = h \<and>
        (acquire_error_kind e = KindCircuitBreakerOverflow \<longrightarrow>
           (\<exists>c a l. acquire_error_cluster_id e = Some c \<and> addr_of (maps 1) c prio = Some a \<and>
              limit_of (maps 1) c prio Requests = Some l \<and> l \<le> counter Requests (h ! a)))
    | Inr acquired \<Rightarrow>
        h' = (case addr_of (maps 1) (acq_cluster_name acquired) prio of
                Some a \<Rightarrow> snd (fetch_add Requests a h) | None \<Rightarrow> h) \<and>
        (\<forall>l. limit_of (maps 1) (acq_cluster_name acquired) prio Requests = Some l \<longrightarrow>
           counter Requests (h ! the (addr_of (maps 1) (acq_cluster_name acquired) prio)) < l) \<and>
        RequestPermit_drop (maps 4) (acq_permit acquired) h' = h"
proof (cases "resolve_cluster (ha_to_str (ce_http ce)) choose_weighted specifier (Some (req_headers request)) (maps 0)")
  case None
  then show ?thesis using acq by (auto simp: acquire_http_upstream_def)
next
  case (Some cid)
  obtain d h1 where inc: "manager_try_increment Requests cid prio (maps 1) h = (d, h1)" by fastforce
  note out = manager_try_increment_outcome [OF inc]
  show ?thesis
  proof (cases d)
    case (Inl e)
    then have "r = Inl (AcquireCircuitBreakerOverflow cid e)" "h' = h1"
      using acq Some inc by (simp_all add: acquire_http_upstream_def)
    then show ?thesis using out Inl by auto
  next
    case (Inr u)
    have undo: "RequestPermit_drop (maps 4) \<lparr>permit_cluster_id = cid, permit_priority = prio\<rparr> h1 = h"
      using manager_decrement_undoes [OF inc [unfolded Inr], of "maps 4"] same by (simp add: RequestPermit_drop_def)
    show ?thesis
      using acq undo out unfolding acquire_http_upstream_def Let_def Some inc Inr option.case prod.case sum.case
      by (auto simp: case_prod_beta split: sum.splits)
  qed
qed

theorem acquire_http_upstream_accounting_witness:
  "let h = [CircuitBreakerCounters_new, CircuitBreakerCounters_new]; (r, h1, _) = sample_acquire h; (r2, h2, _) = sample_acquire h1
   in acq_channels (projr r) = Single (''b:8080'', Some 1) \<and> active_requests (h1 ! 0) = 1 \<and>
      RequestPermit_drop sample_clusters (acq_permit (projr r)) h1 = h \<and>
      r2 = Inl (AcquireCircuitBreakerOverflow ''od'' MaxRequests) \<and> h2 = h1"
proof -
  let ?h = "[CircuitBreakerCounters_new, CircuitBreakerCounters_new]"
  obtain r h1 m1 where first: "sample_acquire ?h = (r, h1, m1)" by (metis prod.exhaust)
  obtain r2 h2 m2 where second: "sample_acquire h1 = (r2, h2, m2)" by (metis prod.exhaust)
  have r: "r = Inr \<lparr>acq_channels = Single (''b:8080'', Some 1), acq_cluster_name = ''od'', overrides_host = False,
      acq_permit = \<lparr>permit_cluster_id = ''od'', permit_priority = Default\<rparr>\<rparr>"
    "h1 = [CircuitBreakerCounters_new\<lparr>active_requests := 1\<rparr>, CircuitBreakerCounters_new]"
    using first by (auto simp: sample_acquire_def acquire_http_upstream_def sample_eval Let_def)
  have r2: "r2 = Inl (AcquireCircuitBreakerOverflow ''od'' MaxRequests)"
    using second unfolding r(2) by (auto simp: sample_acquire_def acquire_http_upstream_def sample_eval Let_def)
  have drop: "RequestPermit_drop sample_clusters (acq_permit (projr r)) h1 = ?h"
    using acquire_http_upstream_accounting [OF _ first [unfolded sample_acquire_def]] by (auto simp: r(1))
  have "h2 = h1"
    using acquire_http_upstream_accounting [OF _ second [unfolded sample_acquire_def]] by (simp add: r2)
  moreover have "acq_channels (projr r) = Single (''b:8080'', Some 1)" "active_requests (h1 ! 0) = 1"
    unfolding r by simp_all
  ultimately show ?thesis
    using first second r2 drop by (simp add: Let_def)
qed

section \<open>The destination of an original destination cluster\<close>

text \<open>What the cluster relies on of its cache: it holds only what was inserted, and returns what it holds.\<close>

definition lru_laws :: "('l, 'v) lru_api \<Rightarrow> bool" where
  "lru_laws api \<longleftrightarrow>
     (\<forall>d n. lru_items api (lru_with_expiry api d n) = []) \<and>
     (\<forall>now k v l l'. lru_get api now k l = (Some v, l') \<longrightarrow> (k, v) \<in> set (lru_items api l)) \<and>
     (\<forall>now k l. set (lru_items api (snd (lru_get api now k l))) \<subseteq> set (lru_items api l)) \<and>
     (\<forall>now k v l. set (lru_items api (lru_insert api now k v l)) \<subseteq> insert (k, v) (set (lru_items api l)))"

lemma lru_lawsD:
  assumes "lru_laws api"
  shows "lru_items api (lru_with_expiry api d n) = []"
    "lru_get api now k l = (Some v, l') \<Longrightarrow> (k, v) \<in> set (lru_items api l)"
    "lru_get api now k l = (r, l') \<Longrightarrow> x \<in> set (lru_items api l') \<Longrightarrow> x \<in> set (lru_items api l)"
    "x \<in> set (lru_items api (lru_insert api now k v l)) \<Longrightarrow> x = (k, v) \<or> x \<in> set (lru_items api l)"
proof -
  note laws = assms [unfolded lru_laws_def]
  show "lru_items api (lru_with_expiry api d n) = []"
    using laws [THEN conjunct1] by blast
  show "lru_get api now k l = (Some v, l') \<Longrightarrow> (k, v) \<in> set (lru_items api l)"
    using laws [THEN conjunct2, THEN conjunct1] by blast
  show "x \<in> set (lru_items api l)" if "lru_get api now k l = (r, l')" "x \<in> set (lru_items api l')"
  proof -
    have "set (lru_items api (snd (lru_get api now k l))) \<subseteq> set (lru_items api l)"
      using laws [THEN conjunct2, THEN conjunct2, THEN conjunct1] by blast
    then show ?thesis using that by auto
  qed
  have "set (lru_items api (lru_insert api now k v l)) \<subseteq> insert (k, v) (set (lru_items api l))"
    using laws [THEN conjunct2, THEN conjunct2, THEN conjunct2] by blast
  then show "x \<in> set (lru_items api (lru_insert api now k v l)) \<Longrightarrow> x = (k, v) \<or> x \<in> set (lru_items api l)"
    by auto
qed

text \<open>The channel \<open>ch\<close> was built, with some TLS configuration, for the authority \<open>target\<close>.\<close>

definition od_socket :: "('t, 'p, 'o, 'h, 'c, 'w, 'g, 'l, 'x, 'a, 'q) cluster_env \<Rightarrow> ('t, 'p, 'o, 'l) OriginalDstCluster \<Rightarrow> str \<Rightarrow> ConnectUsing" where
  "od_socket ce od target = Socket target (od_bind_device od) (hc_connect_timeout (od_http_config od))
     (ce_idle_timeout ce (hc_http_protocol_options (od_http_config od)))"

definition built_for :: "('t, 'p, 'o, 'h, 'c, 'w, 'g, 'l, 'x, 'a, 'q) cluster_env \<Rightarrow> ('t, 'p, 'o, 'l) OriginalDstCluster \<Rightarrow> str \<Rightarrow> 'h \<Rightarrow> bool" where
  "built_for ce od target ch \<longleftrightarrow>
     (\<exists>tls server_name. http_build (channels_of ce) (od_socket ce od target) (od_name od) tls server_name
        (hc_http_protocol_options (od_http_config od)) = Inr ch)"

definition cache_ok :: "('t, 'p, 'o, 'h, 'c, 'w, 'g, 'l, 'x, 'a, 'q) cluster_env \<Rightarrow> ('t, 'p, 'o, 'l) OriginalDstCluster \<Rightarrow> bool" where
  "cache_ok ce od \<longleftrightarrow>
     (\<forall>(target, endp) \<in> set (lru_items (ce_lru ce) (od_endpoints od)). built_for ce od target (ep_http_channel endp))"

text \<open>What no operation changes of the cluster.\<close>

definition od_config where
  "od_config od = (od_name od, od_bind_device od, od_routing_requirements od, od_upstream_port_override od,
     hc_connect_timeout (od_http_config od), hc_http_protocol_options (od_http_config od))"

lemma od_config_eqD:
  assumes "od_config od' = od_config od"
  shows "built_for ce od' = built_for ce od" "apply_port_override ce od' = apply_port_override ce od"
  using assms by (simp_all add: od_config_def built_for_def od_socket_def apply_port_override_def fun_eq_iff)

lemma cache_okD:
  "cache_ok ce od \<Longrightarrow> (target, endp) \<in> set (lru_items (ce_lru ce) (od_endpoints od)) \<Longrightarrow>
     built_for ce od target (ep_http_channel endp)"
  by (auto simp: cache_ok_def)

lemma Endpoint_try_new_built_for:
  "Endpoint_try_new ce (od_name od) target (od_http_config od) (od_bind_device od) socket = Inr endp \<Longrightarrow>
     built_for ce od target (ep_http_channel endp)"
  by (auto simp: Endpoint_try_new_def built_for_def od_socket_def Let_def split: sum.splits intro!: exI)

lemma od_config_endpoints: "od_config (od\<lparr>od_endpoints := lru\<rparr>) = od_config od"
  by (simp add: od_config_def)

lemma cache_ok_lru_get:
  assumes "lru_laws (ce_lru ce)" "cache_ok ce od" "lru_get (ce_lru ce) now target (od_endpoints od) = (cached, lru)"
  shows "cache_ok ce (od\<lparr>od_endpoints := lru\<rparr>)"
  unfolding cache_ok_def od_config_eqD(1) [OF od_config_endpoints]
  using cache_okD [OF assms(2)] lru_lawsD(3) [OF assms(1,3)] by fastforce

lemma cache_ok_lru_insert:
  assumes "lru_laws (ce_lru ce)" "cache_ok ce od" "built_for ce od target (ep_http_channel endp)"
  shows "cache_ok ce (od\<lparr>od_endpoints := lru_insert (ce_lru ce) now target endp (od_endpoints od)\<rparr>)"
  unfolding cache_ok_def od_config_eqD(1) [OF od_config_endpoints]
  using cache_okD [OF assms(2)] lru_lawsD(4) [OF assms(1)] assms(3) by fastforce

lemma get_connection_by_authority_ok:
  assumes laws: "lru_laws (ce_lru ce)" and ok: "cache_ok ce od"
    and get: "get_connection_by_authority ce take_from now authority od = (r, od')"
  shows "od_config od' = od_config od \<and> cache_ok ce od' \<and> (\<forall>v. r = Inr v \<longrightarrow>
    (\<exists>target endp. apply_port_override ce od authority = Inr target \<and>
       built_for ce od target (ep_http_channel endp) \<and> take_from endp = Inr v))"
proof (cases "apply_port_override ce od authority")
  case (Inl e)
  then show ?thesis using get ok by (auto simp: get_connection_by_authority_def)
next
  case (Inr target)
  obtain cached lru where lru: "lru_get (ce_lru ce) now target (od_endpoints od) = (cached, lru)" by fastforce
  define od1 where "od1 = od\<lparr>od_endpoints := lru\<rparr>"
  have ok1: "od_config od1 = od_config od" "cache_ok ce od1"
    using cache_ok_lru_get [OF laws ok lru] by (simp_all add: od1_def od_config_endpoints)
  show ?thesis
  proof (cases cached)
    case (Some endp)
    then have "r = take_from endp" "od' = od1"
      using get Inr lru by (simp_all add: get_connection_by_authority_def od1_def)
    moreover have "built_for ce od target (ep_http_channel endp)"
      using cache_okD [OF ok] lru_lawsD(2) [OF laws lru [unfolded Some]] by blast
    ultimately show ?thesis using Inr ok1 by auto
  next
    case None
    let ?new = "Endpoint_try_new ce (od_name od) target (od_http_config od) (od_bind_device od) (od_transport_socket od)"
    have fail: "od' = od1 \<and> r = Inl e" if "?new = Inl e \<or> (\<exists>endp. ?new = Inr endp \<and> take_from endp = Inl e)" for e
      using that get Inr lru None by (auto simp: get_connection_by_authority_def od1_def)
    have success: "od' = od1\<lparr>od_endpoints := lru_insert (ce_lru ce) now target endp (od_endpoints od1)\<rparr> \<and> r = Inr v"
      if "?new = Inr endp" "take_from endp = Inr v" for endp v
      using that get Inr lru None by (auto simp: get_connection_by_authority_def od1_def)
    show ?thesis
    proof (cases "\<exists>endp v. ?new = Inr endp \<and> take_from endp = Inr v")
      case True
      then obtain endp v where new: "?new = Inr endp" "take_from endp = Inr v" by blast
      have built: "built_for ce od target (ep_http_channel endp)"
        by (rule Endpoint_try_new_built_for [OF new(1)])
      have "cache_ok ce od'"
        unfolding success [OF new, THEN conjunct1]
        by (rule cache_ok_lru_insert [OF laws ok1(2)]) (simp add: od_config_eqD(1) [OF ok1(1)] built)
      then show ?thesis
        using success [OF new] ok1 Inr new(2) built by (auto simp: od_config_endpoints)
    next
      case False
      then obtain e where "?new = Inl e \<or> (\<exists>endp. ?new = Inr endp \<and> take_from endp = Inl e)"
        by (metis sum.exhaust)
      then show ?thesis using fail ok1 by auto
    qed
  qed
qed

lemma get_connection_by_authority_step:
  assumes "lru_laws (ce_lru ce)" "cache_ok ce od"
  shows "od_config (snd (get_connection_by_authority ce take_from now authority od)) = od_config od"
    "cache_ok ce (snd (get_connection_by_authority ce take_from now authority od))"
  using get_connection_by_authority_ok [OF assms surjective_pairing] by blast+

text \<open>The life of a cluster: requests and streams that take a channel, and new secrets.\<close>

datatype ('a, 'q) od_op =
    OdHttp int "'a RoutingContext" | OdTcp int "'a RoutingContext" | OdGrpc int "'a RoutingContext" | OdSecret str 'q

primrec od_step ::
  "('t, 'p, 'o, 'h, 'c, 'w, 'g, 'l, 'x, 'a, 'q) cluster_env \<Rightarrow> ('h \<Rightarrow> str + 'r) \<Rightarrow> ('a, 'q) od_op \<Rightarrow> ('t, 'p, 'o, 'l) OriginalDstCluster
     \<Rightarrow> ('t, 'p, 'o, 'l) OriginalDstCluster" where
  "od_step ce grpc_new (OdHttp now ctx) od = snd (od_get_http_connection ce now ctx od)"
| "od_step ce grpc_new (OdTcp now ctx) od = snd (od_get_tcp_connection ce now ctx od)"
| "od_step ce grpc_new (OdGrpc now ctx) od = snd (od_get_grpc_connection ce grpc_new now ctx od)"
| "od_step ce grpc_new (OdSecret secret_id secret) od = snd (od_change_tls_context ce secret_id secret od)"

text \<open>The destination that a context names.\<close>

primrec ctx_destination :: "(str \<Rightarrow> str option) \<Rightarrow> 'a RoutingContext \<Rightarrow> str option" where
  "ctx_destination to_authority CtxNone = None"
| "ctx_destination to_authority (CtxHeader header_value) = to_authority header_value"
| "ctx_destination to_authority (CtxDynamicDest dynamic_dest) = to_authority dynamic_dest"
| "ctx_destination to_authority (CtxAuthority authority) = Some authority"
| "ctx_destination to_authority (CtxHash _) = None"
| "ctx_destination to_authority (CtxOverrideHost _ _) = None"

lemma od_get_http_connection_eq:
  "od_get_http_connection ce now ctx od =
     (case ctx_destination (ha_to_authority (ce_http ce)) ctx of
        Some authority \<Rightarrow> map_prod (map_sum id Single) id (get_http_connection_by_authority ce now authority od)
      | None \<Rightarrow> (Inl (projl (fst (od_get_http_connection ce now ctx od))), od))"
  by (cases ctx) (auto simp: od_get_http_connection_def get_http_connection_by_header_def
      get_http_connection_by_dynamic_dest_def split: option.splits)

lemma od_get_http_connection_ok:
  assumes laws: "lru_laws (ce_lru ce)" and ok: "cache_ok ce od"
    and get: "od_get_http_connection ce now ctx od = (r, od')"
  shows "od_config od' = od_config od \<and> cache_ok ce od' \<and> (\<forall>chs. r = Inr chs \<longrightarrow>
    (\<exists>authority target ch. ctx_destination (ha_to_authority (ce_http ce)) ctx = Some authority \<and>
       apply_port_override ce od authority = Inr target \<and> chs = Single ch \<and> built_for ce od target ch))"
proof (cases "ctx_destination (ha_to_authority (ce_http ce)) ctx")
  case None
  then show ?thesis using get ok od_get_http_connection_eq [of ce now ctx od] by auto
next
  case (Some authority)
  obtain r1 od1 where g: "get_connection_by_authority ce (\<lambda>e. Inr (ep_http_channel e)) now authority od = (r1, od1)"
    by fastforce
  have "r = map_sum id Single r1" "od' = od1"
    using get od_get_http_connection_eq [of ce now ctx od] Some g by (simp_all add: get_http_connection_by_authority_def)
  then show ?thesis
    using get_connection_by_authority_ok [OF laws ok g] Some by (cases r1) auto
qed

lemma od_step_ok:
  assumes "lru_laws (ce_lru ce)" "cache_ok ce od"
  shows "od_config (od_step ce grpc_new op od) = od_config od \<and> cache_ok ce (od_step ce grpc_new op od)"
proof (cases op)
  case (OdHttp now ctx)
  then show ?thesis using od_get_http_connection_ok [OF assms] by (metis od_step.simps(1) prod.collapse)
next
  case (OdTcp now ctx)
  then show ?thesis
    using assms(2)
    by (cases ctx) (simp_all add: od_get_tcp_connection_def get_tcp_connection_by_authority_def
        get_connection_by_authority_step [OF assms])
next
  case (OdGrpc now ctx)
  then show ?thesis
    using assms(2)
    by (cases ctx) (simp_all add: od_get_grpc_connection_def get_grpc_connection_by_authority_def
        get_connection_by_authority_step [OF assms])
next
  case (OdSecret secret_id secret)
  let ?od = "od_step ce grpc_new op od"
  have "od_config ?od = od_config od" "od_endpoints ?od = od_endpoints od"
    by (auto simp: OdSecret od_change_tls_context_def od_config_def split: option.splits sum.splits)
  then show ?thesis
    using assms(2) od_config_eqD(1) [of ?od od ce] by (simp add: cache_ok_def)
qed

lemma od_run_ok:
  assumes "lru_laws (ce_lru ce)" "cache_ok ce od"
  shows "od_config (fold (od_step ce grpc_new) ops od) = od_config od \<and> cache_ok ce (fold (od_step ce grpc_new) ops od)"
  using assms(2)
proof (induction ops arbitrary: od)
  case (Cons op ops)
  then show ?case using od_step_ok [OF assms(1) Cons.prems, of grpc_new op] by simp
qed simp

lemma cache_ok_built:
  "lru_laws (ce_lru ce) \<Longrightarrow>
     cache_ok ce (OriginalDstClusterBuilder_build ce name dev socket connect_timeout server_name discovery cleanup options)"
  by (auto simp: cache_ok_def OriginalDstClusterBuilder_build_def Let_def lru_lawsD(1) split: option.splits prod.splits)

text \<open>The authority that a request names for its upstream, by the routing requirement of the cluster.\<close>

definition original_destination ::
  "(str \<Rightarrow> str option) \<Rightarrow> RoutingRequirement \<Rightarrow> Request \<Rightarrow> str option \<Rightarrow> str option" where
  "original_destination to_authority req request dynamic_dest =
     (case req of
        ReqHeader name \<Rightarrow> Option.bind (header_get name (req_headers request)) to_authority
      | ReqMetadataKey _ \<Rightarrow> Option.bind dynamic_dest to_authority
      | ReqAuthority \<Rightarrow>
          (case uri_authority request of
             Some authority \<Rightarrow> Some authority
           | None \<Rightarrow> Option.bind (header_get ''host'' (req_headers request)) to_authority)
      | _ \<Rightarrow> None)"

lemma ctx_destination_original:
  assumes "RoutingContext_try_from to_authority req request dynamic_dest hash_state = Inr ctx"
  shows "ctx_destination to_authority ctx = original_destination to_authority req request dynamic_dest"
  using assms
  by (cases req) (auto simp: RoutingContext_try_from_def original_destination_def RoutingAuthority_try_from_def
      split: option.splits if_splits)

text \<open>C16: An original destination cluster connects to the destination of the request. After any sequence
  of requests, streams and new secrets, a request that the cluster accepts gets one channel, and that
  channel was built for the authority which the request names in the way the cluster is configured
  (the header, the dynamic destination of an earlier filter, or the authority of the request), with
  the port replaced when the cluster overrides it: the cache of endpoints never returns the channel of
  another destination.
\<close>

theorem original_dst_connects_to_destination:
  assumes laws: "lru_laws (ce_lru ce)"
    and od: "od = fold (od_step ce grpc_new) ops
      (OriginalDstClusterBuilder_build ce name dev socket connect_timeout server_name discovery cleanup options)"
    and ctx: "RoutingContext_try_from (ha_to_authority (ce_http ce)) (od_routing_requirements od) request dynamic_dest
      hash_state = Inr ctx"
    and get: "od_get_http_connection ce now ctx od = (Inr channels, od')"
  shows "\<exists>authority target ch.
    original_destination (ha_to_authority (ce_http ce)) (od_routing_requirements od) request dynamic_dest = Some authority \<and>
    apply_port_override ce od authority = Inr target \<and> channels = Single ch \<and> built_for ce od target ch"
proof -
  have "cache_ok ce od"
    unfolding od using od_run_ok [OF laws cache_ok_built [OF laws]] by blast
  then show ?thesis
    using od_get_http_connection_ok [OF laws _ get] ctx_destination_original [OF ctx] by simp
qed

lemma sample_lru_laws: "lru_laws (ce_lru sample_env)"
  by (auto simp: lru_laws_def sample_env_def map_of_SomeD)

theorem original_dst_connects_to_destination_witness:
  "let od = fold (od_step sample_env Inr) [OdHttp 0 (CtxHeader ''b:80''), OdTcp 1 (CtxAuthority ''c''), OdSecret ''s'' 2] sample_od
   in fst (od_get_http_connection sample_env 3 (CtxHeader ''b:80'') od) = Inr (Single (''b:8080'', Some 1)) \<and>
      (\<exists>authority target ch.
         original_destination (ha_to_authority (ce_http sample_env)) (od_routing_requirements od) sample_request None = Some authority \<and>
         apply_port_override sample_env od authority = Inr target \<and> Single (''b:8080'', Some 1) = Single ch \<and>
         built_for sample_env od target ch)"
proof -
  define ops :: "(unit, nat) od_op list" where
    "ops = [OdHttp 0 (CtxHeader ''b:80''), OdTcp 1 (CtxAuthority ''c''), OdSecret ''s'' 2]"
  define od where "od = fold (od_step sample_env Inr) ops sample_od"
  have ctx: "RoutingContext_try_from (ha_to_authority (ce_http sample_env)) (od_routing_requirements od) sample_request None
      (HashState_new [] sample_request ()) = Inr (CtxHeader ''b:80'')"
    "fst (od_get_http_connection sample_env 3 (CtxHeader ''b:80'') od) = Inr (Single (''b:8080'', Some 1))"
    by (simp_all add: od_def ops_def sample_eval od_get_tcp_connection_def get_tcp_connection_by_authority_def
        od_change_tls_context_def Let_def)
  obtain od' where get: "od_get_http_connection sample_env 3 (CtxHeader ''b:80'') od = (Inr (Single (''b:8080'', Some 1)), od')"
    using ctx(2) by (metis prod.collapse)
  show ?thesis
    unfolding Let_def ops_def [symmetric] od_def [symmetric]
    using original_dst_connects_to_destination [OF sample_lru_laws od_def [unfolded sample_od_def] ctx(1) get] ctx(2) by blast
qed

section \<open>New secrets that cannot be used\<close>

text \<open>C38: A secret with which the channels cannot be built takes a dynamic cluster out of service. Where
  the rebuild of the load assignment fails, the cluster is left with no load assignment: until the next
  assignment arrives every request to it fails and no channel is left for the health checks, although
  the old channels were usable. A static cluster in the same case keeps its load assignment. The error
  also ends the update, so the clusters after it in the map keep their old secret.
\<close>

theorem failed_secret_drops_endpoints:
  assumes dy: "dy_load_assignment dy = Some cla" "update_secret (ce_tls ce) secret_id secret (dy_transport_socket dy) = Inr (True, socket)"
    and st: "st_load_assignment st = cla" "st_transport_socket st = dy_transport_socket dy"
    and fail: "cla_rebuild (channels_of ce) (cla\<lparr>cla_transport_socket := socket\<rparr>) = Inl e"
    and m: "m name = Some cl" "cluster_rest cl = Dynamic dy"
  shows "\<exists>dy' st'. update_tls_context ce secret_id secret (name # names) m = (Inl e, m(name \<mapsto> cl\<lparr>cluster_rest := Dynamic dy'\<rparr>)) \<and>
    (\<forall>call now ctx. cluster_get_http_connection ce call now ctx (Dynamic dy') = (Inl (no_channels dy), Dynamic dy')) \<and>
    cluster_all_http_channels ce (Dynamic dy') = [] \<and>
    cluster_change_tls_context ce secret_id secret (Static st) = (Inl e, Static st') \<and> st_load_assignment st' = cla"
proof (intro exI conjI allI)
  let ?dy = "dy\<lparr>dy_transport_socket := socket, dy_load_assignment := None\<rparr>"
  let ?st = "st\<lparr>st_transport_socket := socket\<rparr>"
  show "update_tls_context ce secret_id secret (name # names) m = (Inl e, m(name \<mapsto> cl\<lparr>cluster_rest := Dynamic ?dy\<rparr>))"
    using assms by (simp add: cluster_change_tls_context_def dy_change_tls_context_def Let_def)
  show "cluster_get_http_connection ce call now ctx (Dynamic ?dy) = (Inl (no_channels dy), Dynamic ?dy)" for call now ctx
    by (simp add: cluster_get_http_connection_def dy_get_http_connection_def no_channels_def)
  show "cluster_all_http_channels ce (Dynamic ?dy) = []"
    by (simp add: cluster_all_http_channels_def)
  show "cluster_change_tls_context ce secret_id secret (Static st) = (Inl e, Static ?st)" "st_load_assignment ?st = cla"
    using assms by (simp_all add: cluster_change_tls_context_def st_change_tls_context_def Let_def)
qed

definition sample_cla where
  "sample_cla = (case ClusterLoadAssignmentBuilder_build (channels_of sample_env) (ce_lb sample_env) ()
       \<lparr>clb_cluster_name = ''dy'', clb_cla = [\<lparr>pl_endpoints = [demo_endpoint ''a:80''], pl_priority = 0\<rparr>],
        clb_bind_device = None, clb_protocol_options = None, clb_lb_policy = Standard LbRoundRobin,
        clb_transport_socket = TlsSocket 1, clb_server_name = None, clb_connection_timeout = None, clb_idle_timeout = None\<rparr> of
     Some (Inr cla) \<Rightarrow> cla)"

definition sample_dy where
  "sample_dy = \<lparr>dy_name = ''dy'', dy_bind_device = None, dy_load_balancing_policy = Standard LbRoundRobin,
     dy_connect_timeout = None, dy_idle_timeout = None, dy_http_protocol_options = (),
     dy_load_assignment = Some sample_cla, dy_transport_socket = TlsSocket 1\<rparr>"

lemma sample_secret:
  "update_secret (ce_tls sample_env) ''s'' 3 (dy_transport_socket sample_dy) = Inr (True, TlsSocket 3)"
  "cla_rebuild (channels_of sample_env) (sample_cla\<lparr>cla_transport_socket := TlsSocket 3\<rparr>) = Inl ''bad secret''"
  "fst (cluster_get_http_connection sample_env \<lparr>lc_random = 0, lc_load = (\<lambda>_. 0)\<rparr> 0 CtxNone (Dynamic sample_dy)) =
     Inr (Single (''a:80'', Some 1))"
  by (simp_all add: sample_dy_def sample_cla_def sample_env_def channels_of_def update_secret_def demo_endpoint_def assignment_eval lb_eval
      cla_rebuild_def LocalityLbEndpoints_rebuild_def PartialLbEndpoint_new_def cluster_get_http_connection_def
      dy_get_http_connection_def get_http_channel_def cla_next_item_def Let_def)

theorem failed_secret_drops_endpoints_witness:
  "let m = [''dy'' \<mapsto> \<lparr>circuit_breaker = None, cluster_rest = Dynamic sample_dy\<rparr>];
       call = \<lparr>lc_random = 0, lc_load = (\<lambda>_. 0)\<rparr>; (r, m') = update_tls_context sample_env ''s'' 3 [''dy''] m
   in fst (get_http_connection sample_env call 0 ''dy'' CtxNone m) = Inr (Single (''a:80'', Some 1)) \<and>
      r = Inl ''bad secret'' \<and>
      fst (get_http_connection sample_env call 0 ''dy'' CtxNone m') = Inl ''dy No channels available''"
proof -
  let ?cl = "\<lparr>circuit_breaker = None, cluster_rest = Dynamic sample_dy\<rparr>"
  let ?st = "\<lparr>st_transport_socket = dy_transport_socket sample_dy, st_load_assignment = sample_cla\<rparr>"
  obtain dy' where up: "update_tls_context sample_env ''s'' 3 [''dy''] [''dy'' \<mapsto> ?cl] =
      (Inl ''bad secret'', [''dy'' \<mapsto> ?cl, ''dy'' \<mapsto> ?cl\<lparr>cluster_rest := Dynamic dy'\<rparr>])"
    and get: "\<And>call now (ctx :: unit RoutingContext). cluster_get_http_connection sample_env call now ctx (Dynamic dy') =
        (Inl (no_channels sample_dy), Dynamic dy')"
    using failed_secret_drops_endpoints [of sample_dy sample_cla sample_env "''s''" 3 "TlsSocket 3" ?st "''bad secret''"
        "[''dy'' \<mapsto> ?cl]" "''dy''" ?cl "[]"] sample_secret(1,2)
    by (auto simp: sample_dy_def)
  show ?thesis
    using up get sample_secret(3)
    by (simp add: Let_def get_http_connection_def with_cluster_def case_prod_beta no_channels_def sample_dy_def)
qed

end
