(* ===== verification/Cluster_Config.thy ===== *)
theory Cluster_Config
  imports Upstream
begin

text \<open>
  From the configuration of a cluster to the cluster: \<^verbatim>\<open>PartialClusterType::try_from\<close> of
  \<^verbatim>\<open>clusters/cluster.rs\<close>, the builders of the kinds of clusters, the transport socket of a
  configuration, and the way back for the configuration dump. The property is that a static cluster
  connects to what it is configured with.
\<close>

section \<open>The configuration\<close>

text \<open>Of \<open>TlsConfig\<close> only the value \<open>'z\<close> is known; \<open>'p\<close> is the rest of a PROXY protocol configuration.\<close>

datatype ('z, 'p) UpstreamTransportSocketConfig = TlsConfig 'z | ProxyProtocolConfig 'p "'z option" | RawBuffer

record ClusterLoadAssignmentConfig =
  clc_cluster_name :: str
  clc_endpoints :: "LocalityLbEndpointsConfig list"

datatype ClusterDiscoveryType =
    DiscStatic ClusterLoadAssignmentConfig
  | DiscStrictDns ClusterLoadAssignmentConfig
  | DiscEds "ClusterLoadAssignmentConfig option"
  | DiscOriginalDst OriginalDstRoutingMethod "u16 option"

record ('z, 'p, 'o, 'k) ClusterConfig =
  cfg_name :: str
  cfg_discovery_settings :: ClusterDiscoveryType
  cfg_transport_socket :: "('z, 'p) UpstreamTransportSocketConfig option"
  cfg_bind_device :: "str option"
  cfg_load_balancing_policy :: LbPolicy
  cfg_http_protocol_options :: 'o
  cfg_health_check :: "'k option"
  cfg_connect_timeout :: "duration option"
  cfg_cleanup_interval :: "duration option"
  cfg_circuit_breakers :: "CircuitBreakerThresholds list option"




section \<open>The builders\<close>

record ('t, 'p, 'o, 'k, 'f) StaticClusterBuilder =
  sb_load_assignment :: "(('t, 'p) socket, 'o) ClusterLoadAssignmentBuilder"
  sb_transport_socket :: "('t, 'p) socket"
  sb_health_check :: "'k option"
  sb_config :: 'f

record ('t, 'p, 'k, 'f) DynamicClusterBuilder =
  db_bind_device :: "str option"
  db_transport_socket :: "('t, 'p) socket"
  db_health_check :: "'k option"
  db_load_balancing_policy :: LbPolicy
  db_config :: 'f

record ('t, 'p, 'f) OriginalDstClusterBuilder =
  ob_bind_device :: "str option"
  ob_transport_socket :: "('t, 'p) socket"
  ob_connect_timeout :: "duration option"
  ob_server_name :: "str option"
  ob_config :: 'f

text \<open>The name and the circuit breaker of a builder are fields of \<open>PartialClusterType\<close>.\<close>

datatype ('t, 'p, 'o, 'k, 'f) PartialClusterKind =
    PartialStatic "('t, 'p, 'o, 'k, 'f) StaticClusterBuilder"
  | PartialDynamic "('t, 'p, 'k, 'f) DynamicClusterBuilder"
  | PartialOnDemand "('t, 'p, 'f) OriginalDstClusterBuilder"

definition PartialClusterType_into_health_check :: "('t, 'p, 'o, 'k, 'f) PartialClusterKind \<Rightarrow> 'k option" where
  "PartialClusterType_into_health_check k =
     (case k of
        PartialStatic b \<Rightarrow> sb_health_check b
      | PartialDynamic b \<Rightarrow> db_health_check b
      | PartialOnDemand _ \<Rightarrow> None)"








section \<open>The configuration dump\<close>

text \<open>\<open>to_address\<close> is the address of an authority.\<close>

definition endpoint_config :: "(str \<Rightarrow> str + Address) \<Rightarrow> ('h, 'c) LbEndpoint \<Rightarrow> str + LbEndpointConfig" where
  "endpoint_config to_address ep =
     (if le_weight ep = 0 then Inl ''Invalid load balancing weight: 0''
      else case to_address (cu_authority (le_connect_using ep)) of
        Inl e \<Rightarrow> Inl e
      | Inr address \<Rightarrow> Inr \<lparr>lec_address = address, lec_health_status = le_health_status ep,
                           lec_load_balancing_weight = le_weight ep\<rparr>)"

definition locality_config ::
  "(str \<Rightarrow> str + Address) \<Rightarrow> ('s, 'o, 'h, 'c) Locality \<Rightarrow> str + LocalityLbEndpointsConfig" where
  "locality_config to_address lep =
     map_sum id (\<lambda>es. \<lparr>llc_priority = priority lep, llc_lb_endpoints = es\<rparr>)
       (collect_result (endpoint_config to_address) (endpoints lep))"

definition dynamic_assignment_config ::
  "(str \<Rightarrow> str + Address) \<Rightarrow> ('t, 'p, 'o, 'h, 'c, 'w, 'g) DynamicCluster \<Rightarrow> str + ClusterLoadAssignmentConfig" where
  "dynamic_assignment_config to_address dy =
     (case dy_load_assignment dy of
        None \<Rightarrow> Inl ''No load assignment found''
      | Some cla \<Rightarrow>
          map_sum id (\<lambda>ls. \<lparr>clc_cluster_name = dy_name dy, clc_endpoints = ls\<rparr>)
            (collect_result (locality_config to_address) (cla_endpoints cla)))"

text \<open>\<open>config\<close> is the configuration kept by the cluster.\<close>

definition ClusterConfig_try_from ::
  "(str \<Rightarrow> str + Address) \<Rightarrow> ('z, 'p, 'o, 'k) ClusterConfig \<Rightarrow> ('t, 'p, 'o, 'h, 'c, 'w, 'g, 'l) ClusterKind \<Rightarrow> str + ('z, 'p, 'o, 'k) ClusterConfig" where
  "ClusterConfig_try_from to_address config k =
     (case k of
        Static _ \<Rightarrow> Inr config
      | Dynamic dy \<Rightarrow>
          map_sum id (\<lambda>cla. config\<lparr>cfg_discovery_settings := DiscEds (Some cla)\<rparr>) (dynamic_assignment_config to_address dy)
      | OnDemand _ \<Rightarrow> Inr config)"

section \<open>A static cluster connects to what it is configured with\<close>





















end
