(* ===== verification/Cors.thy ===== *)
theory Cors
  imports Hash_Policy Rate_Limit
begin

text \<open>
  The filter for cross-origin requests, \<^verbatim>\<open>listeners/http_connection_manager/cors.rs\<close>: the check
  of the origin, the answer to a preflight request, and the headers of a response. The properties say
  which origin a response allows and which preflights are granted.
\<close>

section \<open>Configuration and state\<close>

record 'r CorsConfig =
  allow_origins :: "'r StringMatcher list"
  allow_methods :: "str list"
  allow_headers :: "str list"
  expose_headers :: "str list"
  allow_credentials :: bool
  max_age :: "u64 option"
  forward_not_matching_preflights :: bool

record 'r Cors =
  cors_inner :: "'r CorsConfig"
  validated_origin :: "str option"
  is_wildcard_response :: bool

definition Cors_from :: "'r CorsConfig \<Rightarrow> 'r Cors" where
  "Cors_from conf = \<lparr>cors_inner = conf, validated_origin = None, is_wildcard_response = False\<rparr>"

text \<open>
  Of the crate \<^verbatim>\<open>http\<close>: the text of a header value, a header value from a text, and a method from
  its bytes; \<open>ca_find_len\<close> is the length of the match of a regular expression.
\<close>

record 'r cors_api =
  ca_to_str :: "str \<Rightarrow> str option"
  ca_from_str :: "str \<Rightarrow> str option"
  ca_method :: "str \<Rightarrow> str option"
  ca_find_len :: "'r \<Rightarrow> str \<Rightarrow> nat option"

text \<open>A response is its status and its headers; \<open>header_insert\<close> replaces the values of the name.\<close>

type_synonym headers = "(str \<times> str) list"

record cors_response =
  res_status :: nat
  res_headers :: headers

definition header_insert :: "str \<Rightarrow> str \<Rightarrow> headers \<Rightarrow> headers" where
  "header_insert name v hs = filter (\<lambda>(k, _). k \<noteq> name) hs @ [(name, v)]"

definition header_append :: "str \<Rightarrow> str \<Rightarrow> headers \<Rightarrow> headers" where
  "header_append name v hs = hs @ [(name, v)]"

definition contains_key :: "str \<Rightarrow> headers \<Rightarrow> bool" where
  "contains_key name hs \<longleftrightarrow> header_get name hs \<noteq> None"

fun join :: "str \<Rightarrow> str list \<Rightarrow> str" where
  "join sep [] = []"
| "join sep [x] = x"
| "join sep (x # y # xs) = x @ sep @ join sep (y # xs)"

text \<open>The decimal digits of a number, as \<^verbatim>\<open>to_string\<close> prints them.\<close>

fun show_nat :: "nat \<Rightarrow> str" where
  "show_nat n = (if n < 10 then [char_of (48 + n)] else show_nat (n div 10) @ [char_of (48 + n mod 10)])"

declare show_nat.simps [simp del]

section \<open>The filter\<close>

definition determine_allowed_origin :: "'r cors_api \<Rightarrow> 'r CorsConfig \<Rightarrow> str \<Rightarrow> (str \<times> bool) option" where
  "determine_allowed_origin api conf request_origin =
     (let matches = StringMatcher_matches (ca_find_len api)
      in if \<not> allow_credentials conf \<and> (\<exists>m \<in> set (allow_origins conf). matches m ''*'') then Some (''*'', True)
         else if \<exists>m \<in> set (allow_origins conf). matches m ''*'' \<or> matches m request_origin
         then map_option (\<lambda>v. (v, False)) (ca_from_str api request_origin)
         else None)"

definition methods_wildcard :: "'r CorsConfig \<Rightarrow> bool" where
  "methods_wildcard conf \<longleftrightarrow> ''*'' \<in> set (allow_methods conf)"

definition empty_response :: cors_response where
  "empty_response = \<lparr>res_status = 204, res_headers = []\<rparr>"

definition vary_origin :: "'r Cors \<Rightarrow> headers \<Rightarrow> headers" where
  "vary_origin c hs =
     (if \<not> is_wildcard_response c \<or> allow_credentials (cors_inner c) then header_append ''vary'' ''Origin'' hs else hs)"

definition insert_ok :: "'r cors_api \<Rightarrow> str \<Rightarrow> str \<Rightarrow> headers \<Rightarrow> headers" where
  "insert_ok api name text hs = (case ca_from_str api text of Some v \<Rightarrow> header_insert name v hs | None \<Rightarrow> hs)"

definition insert_credentials :: "'r CorsConfig \<Rightarrow> headers \<Rightarrow> headers" where
  "insert_credentials conf hs =
     (if allow_credentials conf then header_insert ''access-control-allow-credentials'' ''true'' hs else hs)"

definition preflight_methods :: "'r CorsConfig \<Rightarrow> str \<Rightarrow> str" where
  "preflight_methods conf requested_method =
     (if methods_wildcard conf then if allow_credentials conf then requested_method else ''*''
      else join '', '' (allow_methods conf))"

definition preflight_headers :: "'r CorsConfig \<Rightarrow> str option \<Rightarrow> str option" where
  "preflight_headers conf requested_headers =
     (if ''*'' \<in> set (allow_headers conf) \<and> \<not> allow_credentials conf then Some ''*'' else requested_headers)"

definition generate_preflight_response :: "'r cors_api \<Rightarrow> 'r Cors \<Rightarrow> str \<Rightarrow> str option \<Rightarrow> cors_response" where
  "generate_preflight_response api c requested_method requested_headers =
     (let conf = cors_inner c
      in case validated_origin c of
           None \<Rightarrow> \<lparr>res_status = 500, res_headers = []\<rparr>
         | Some allowed_origin \<Rightarrow>
             (let hs = header_insert ''access-control-allow-origin'' allowed_origin [];
                  hs = insert_credentials conf hs;
                  hs = insert_ok api ''access-control-allow-methods'' (preflight_methods conf requested_method) hs;
                  hs = (case preflight_headers conf requested_headers of
                          Some s \<Rightarrow> insert_ok api ''access-control-allow-headers'' s hs | None \<Rightarrow> hs);
                  hs = (case max_age conf of
                          Some age \<Rightarrow> insert_ok api ''access-control-max-age'' (show_nat (unat age)) hs | None \<Rightarrow> hs);
                  hs = (if expose_headers conf \<noteq> []
                        then insert_ok api ''access-control-expose-headers'' (join '', '' (expose_headers conf)) hs else hs);
                  hs = vary_origin c hs;
                  hs = header_append ''vary'' ''Access-Control-Request-Method'' hs;
                  hs = header_append ''vary'' ''Access-Control-Request-Headers'' hs
              in \<lparr>res_status = 204, res_headers = hs\<rparr>))"

text \<open>The loop over the requested headers returns at the first that is not allowed.\<close>

fun headers_allowed :: "'r CorsConfig \<Rightarrow> str list \<Rightarrow> bool" where
  "headers_allowed conf [] = True"
| "headers_allowed conf (s # ss) =
     (let requested_header = lower (str_trim s)
      in if requested_header = [] then headers_allowed conf ss
         else if requested_header = ''mcp-session-id'' \<or> (\<exists>h \<in> set (allow_headers conf). lower h = requested_header)
         then headers_allowed conf ss else False)"

definition is_preflight :: "Request \<Rightarrow> bool" where
  "is_preflight req \<longleftrightarrow> req_method req = ''OPTIONS'' \<and> contains_key ''access-control-request-method'' (req_headers req)"

definition preflight_decision :: "'r cors_api \<Rightarrow> 'r Cors \<Rightarrow> Request \<Rightarrow> cors_response FilterDecision" where
  "preflight_decision api c req =
     (let conf = cors_inner c
      in case header_get ''access-control-request-method'' (req_headers req) of
           None \<Rightarrow> Continue
         | Some req_method_hdr \<Rightarrow>
             (case ca_method api req_method_hdr of
                None \<Rightarrow> Continue
              | Some requested \<Rightarrow>
                  if \<not> methods_wildcard conf \<and> requested \<notin> set (allow_methods conf) then Continue
                  else (let has_headers_wildcard = (''*'' \<in> set (allow_headers conf));
                            requested_headers =
                              Option.bind (header_get ''access-control-request-headers'' (req_headers req)) (ca_to_str api);
                            ok = (has_headers_wildcard \<or>
                                  (case requested_headers of
                                     Some s \<Rightarrow> headers_allowed conf (str_split CHR '','' s) | None \<Rightarrow> True))
                        in if ok then DirectResponse (generate_preflight_response api c requested requested_headers)
                           else Continue)))"

definition apply_request :: "'r cors_api \<Rightarrow> Request \<Rightarrow> 'r Cors \<Rightarrow> cors_response FilterDecision \<times> 'r Cors" where
  "apply_request api req c =
     (case header_get ''origin'' (req_headers req) of
        None \<Rightarrow> (Continue, c)
      | Some origin_header \<Rightarrow>
          (case ca_to_str api origin_header of
             None \<Rightarrow> (Continue, c)
           | Some origin_str \<Rightarrow>
               (case determine_allowed_origin api (cors_inner c) origin_str of
                  Some (val, is_wildcard) \<Rightarrow>
                    (let c = c\<lparr>validated_origin := Some val, is_wildcard_response := is_wildcard\<rparr>
                     in (if is_preflight req then preflight_decision api c req else Continue, c))
                | None \<Rightarrow>
                    if is_preflight req \<and> \<not> forward_not_matching_preflights (cors_inner c)
                    then (DirectResponse empty_response, c)
                    else (Continue, c))))"

definition apply_response :: "'r cors_api \<Rightarrow> 'r Cors \<Rightarrow> headers \<Rightarrow> headers" where
  "apply_response api c hs =
     (case validated_origin c of
        None \<Rightarrow> hs
      | Some allowed_origin \<Rightarrow>
          (let conf = cors_inner c;
               hs = header_insert ''access-control-allow-origin'' allowed_origin hs;
               hs = insert_credentials conf hs;
               hs = vary_origin c hs;
               exposed = (if contains_key ''mcp-session-id'' hs \<and>
                            \<not> (\<exists>h \<in> set (expose_headers conf). eq_ignore_ascii_case h ''mcp-session-id'')
                          then expose_headers conf @ [''mcp-session-id''] else expose_headers conf)
           in if exposed \<noteq> [] then insert_ok api ''access-control-expose-headers'' (join '', '' exposed) hs else hs))"

text \<open>
  The exchange of one request with a fresh filter, as the filter chain runs it: the direct response of
  the filter, or the response of the upstream after the filter. An answer of the filter itself does not
  pass the filter again.
\<close>

definition cors_exchange :: "'r cors_api \<Rightarrow> 'r CorsConfig \<Rightarrow> Request \<Rightarrow> headers \<Rightarrow> headers" where
  "cors_exchange api conf req upstream =
     (case apply_request api req (Cors_from conf) of
        (DirectResponse res, _) \<Rightarrow> res_headers res
      | (_, c) \<Rightarrow> apply_response api c upstream)"

section \<open>The headers of the filter\<close>

lemma get_all_simps:
  "get_all n (hs @ hs') = get_all n hs @ get_all n hs'"
  "get_all n [(m, v)] = (if m = n then [v] else [])"
  "get_all n (filter (\<lambda>(k, _). k \<noteq> m) hs) = (if n = m then [] else get_all n hs)"
  by (auto simp: get_all_def case_prod_beta filter_empty_conv intro!: arg_cong [of _ _ "map snd"] filter_cong)

lemma header_get_insert [simp]: "header_get n (header_insert m v hs) = (if n = m then Some v else header_get n hs)"
  by (simp add: header_get_def header_insert_def get_all_simps)

lemma header_get_append [simp]: "n \<noteq> m \<Longrightarrow> header_get n (header_append m v hs) = header_get n hs"
  by (simp add: header_get_def header_append_def get_all_simps)

lemma header_get_insert_ok [simp]: "n \<noteq> m \<Longrightarrow> header_get n (insert_ok api m s hs) = header_get n hs"
  by (simp add: insert_ok_def split: option.splits)

lemma header_get_vary_origin [simp]: "n \<noteq> ''vary'' \<Longrightarrow> header_get n (vary_origin c hs) = header_get n hs"
  by (simp add: vary_origin_def)

lemma header_get_credentials [simp]:
  "header_get n (insert_credentials conf hs) =
     (if n = ''access-control-allow-credentials'' \<and> allow_credentials conf then Some ''true'' else header_get n hs)"
  by (simp add: insert_credentials_def)

lemma header_get_Nil [simp]: "header_get n [] = None"
  by (simp add: header_get_def get_all_def)

lemma apply_response_headers:
  "header_get ''access-control-allow-origin'' (apply_response api c hs) =
     (case validated_origin c of Some v \<Rightarrow> Some v | None \<Rightarrow> header_get ''access-control-allow-origin'' hs)"
  "header_get ''access-control-allow-credentials'' (apply_response api c hs) =
     (if validated_origin c \<noteq> None \<and> allow_credentials (cors_inner c) then Some ''true''
      else header_get ''access-control-allow-credentials'' hs)"
  by (auto simp: apply_response_def Let_def split: option.splits)

lemma preflight_response_headers:
  assumes "validated_origin c = Some v"
  shows "header_get ''access-control-allow-origin'' (res_headers (generate_preflight_response api c m rh)) = Some v"
    "header_get ''access-control-allow-credentials'' (res_headers (generate_preflight_response api c m rh)) =
       (if allow_credentials (cors_inner c) then Some ''true'' else None)"
  using assms by (auto simp: generate_preflight_response_def Let_def split: option.splits)

lemma preflight_decision_cases:
  "preflight_decision api c req = Continue \<or>
     (\<exists>m rh. preflight_decision api c req = DirectResponse (generate_preflight_response api c m rh))"
  by (auto simp: preflight_decision_def Let_def split: option.splits)

section \<open>The allowed origin\<close>

text \<open>The text of the origin of a request.\<close>

definition request_origin :: "'r cors_api \<Rightarrow> Request \<Rightarrow> str option" where
  "request_origin api req = Option.bind (header_get ''origin'' (req_headers req)) (ca_to_str api)"

lemma cors_exchange_allowed:
  assumes "request_origin api req = Some o'" "determine_allowed_origin api conf o' = Some (v, w)"
  shows "header_get ''access-control-allow-origin'' (cors_exchange api conf req upstream) = Some v"
    "header_get ''access-control-allow-credentials'' (cors_exchange api conf req upstream) =
       (if allow_credentials conf then Some ''true''
        else if \<exists>res. fst (apply_request api req (Cors_from conf)) = DirectResponse res then None
        else header_get ''access-control-allow-credentials'' upstream)"
proof -
  let ?c = "(Cors_from conf)\<lparr>validated_origin := Some v, is_wildcard_response := w\<rparr>"
  obtain x where x: "header_get ''origin'' (req_headers req) = Some x" "ca_to_str api x = Some o'"
    using assms(1) by (auto simp: request_origin_def bind_eq_Some_conv)
  have inner: "cors_inner (Cors_from conf) = conf" by (simp add: Cors_from_def)
  have req: "apply_request api req (Cors_from conf) = (if is_preflight req then preflight_decision api ?c req else Continue, ?c)"
    using assms(2) x by (simp add: apply_request_def inner Let_def)
  have c: "validated_origin ?c = Some v" "cors_inner ?c = conf" by (simp_all add: Cors_from_def)
  show "header_get ''access-control-allow-origin'' (cors_exchange api conf req upstream) = Some v"
    using preflight_decision_cases [of api ?c req]
    by (auto simp: cors_exchange_def req c(1) preflight_response_headers(1) [OF c(1)] apply_response_headers(1))
  show "header_get ''access-control-allow-credentials'' (cors_exchange api conf req upstream) =
       (if allow_credentials conf then Some ''true''
        else if \<exists>res. fst (apply_request api req (Cors_from conf)) = DirectResponse res then None
        else header_get ''access-control-allow-credentials'' upstream)"
    using preflight_decision_cases [of api ?c req]
    by (auto simp: cors_exchange_def req c preflight_response_headers(2) [OF c(1)] apply_response_headers(2))
qed

lemma cors_exchange_refused:
  assumes "Option.bind (request_origin api req) (determine_allowed_origin api conf) = None"
  shows "cors_exchange api conf req upstream \<in> {upstream, []}"
  using assms
  by (auto simp: cors_exchange_def apply_request_def request_origin_def apply_response_def Cors_from_def empty_response_def
      bind_eq_None_conv split: option.splits)

text \<open>C22: The origin that a response allows is exact. Let a request pass a fresh filter, and let the upstream answer
  without headers for cross-origin requests. The response that the client gets, be it the upstream's or a preflight
  answer, allows an origin exactly if the request names one that the configuration allows: the value is \<^verbatim>\<open>*\<close> if an
  entry accepts it and credentials are disabled, and otherwise the origin of the request itself. Credentials are allowed
  exactly with an allowed origin and if they are enabled, so that they never go with \<^verbatim>\<open>*\<close>, unless the request
  itself names that as its origin. A text that is a header value is assumed to be that value.\<close>

theorem cors_allow_origin_exact:
  assumes from_str: "\<forall>s v. ca_from_str api s = Some v \<longrightarrow> v = s"
    and upstream: "header_get ''access-control-allow-origin'' upstream = None"
      "header_get ''access-control-allow-credentials'' upstream = None"
  shows "let accepts = (\<lambda>x. \<exists>m \<in> set (allow_origins conf). StringMatcher_matches (ca_find_len api) m x);
      allowed = header_get ''access-control-allow-origin'' (cors_exchange api conf req upstream);
      credentials = header_get ''access-control-allow-credentials'' (cors_exchange api conf req upstream)
    in allowed = (case request_origin api req of
          None \<Rightarrow> None
        | Some origin \<Rightarrow>
            if \<not> allow_credentials conf \<and> accepts ''*'' then Some ''*''
            else if (accepts ''*'' \<or> accepts origin) \<and> ca_from_str api origin \<noteq> None then Some origin else None) \<and>
       credentials = (if allowed \<noteq> None \<and> allow_credentials conf then Some ''true'' else None) \<and>
       (allowed = Some ''*'' \<and> credentials \<noteq> None \<longrightarrow> request_origin api req = Some ''*'')"
proof (cases "Option.bind (request_origin api req) (determine_allowed_origin api conf)")
  case None
  have "header_get ''access-control-allow-origin'' (cors_exchange api conf req upstream) = None"
    "header_get ''access-control-allow-credentials'' (cors_exchange api conf req upstream) = None"
    using cors_exchange_refused [OF None, of upstream] upstream by auto
  then show ?thesis
    using None by (auto simp: Let_def determine_allowed_origin_def bind_eq_None_conv split: option.splits if_splits)
next
  case (Some vw)
  then obtain origin v w where o': "request_origin api req = Some origin" "determine_allowed_origin api conf origin = Some (v, w)"
    by (cases vw) (auto simp: bind_eq_Some_conv)
  have cred: "header_get ''access-control-allow-credentials'' (cors_exchange api conf req upstream) =
      (if allow_credentials conf then Some ''true'' else None)"
    unfolding cors_exchange_allowed(2) [OF o'] upstream(2) by simp
  have "v = (if \<not> allow_credentials conf \<and> (\<exists>m \<in> set (allow_origins conf). StringMatcher_matches (ca_find_len api) m ''*'')
      then ''*'' else origin)"
    using o'(2) from_str by (auto simp: determine_allowed_origin_def Let_def split: if_splits)
  then show ?thesis
    unfolding Let_def cors_exchange_allowed(1) [OF o'] cred
    using o' by (auto simp: determine_allowed_origin_def Let_def split: if_splits)
qed

definition demo_cors :: "unit CorsConfig" where
  "demo_cors = \<lparr>allow_origins = [\<lparr>ignore_case = False, pattern = Exact ''https://a''\<rparr>], allow_methods = [''GET'', ''PUT''],
     allow_headers = [''X-Token''], expose_headers = [], allow_credentials = True, max_age = Some 60,
     forward_not_matching_preflights = False\<rparr>"

definition demo_cors_api :: "unit cors_api" where
  "demo_cors_api = \<lparr>ca_to_str = Some, ca_from_str = Some, ca_method = Some, ca_find_len = (\<lambda>_ _. None)\<rparr>"

definition demo_preflight :: "str \<Rightarrow> Request" where
  "demo_preflight hs = \<lparr>req_method = ''OPTIONS'', uri_scheme = None, uri_authority = None, uri_path_and_query = None,
     req_headers = [(''origin'', ''https://a''), (''access-control-request-method'', ''PUT''),
       (''access-control-request-headers'', hs)]\<rparr>"

theorem cors_allow_origin_exact_witness:
  "header_get ''access-control-allow-origin'' (cors_exchange demo_cors_api demo_cors (demo_preflight ''x'') []) = Some ''https://a'' \<and>
   header_get ''access-control-allow-credentials'' (cors_exchange demo_cors_api demo_cors (demo_preflight ''x'') []) = Some ''true''"
proof -
  have "request_origin demo_cors_api (demo_preflight ''x'') = Some ''https://a''"
    by (simp add: request_origin_def demo_cors_api_def demo_preflight_def header_get_def get_all_def)
  then show ?thesis
    using cors_allow_origin_exact [of demo_cors_api "[]" demo_cors "demo_preflight ''x''"]
    by (simp add: Let_def demo_cors_api_def demo_cors_def StringMatcher_matches_def CaseSensitive_equals_def)
qed

section \<open>Preflights\<close>

lemma in_image_iff: "x \<in> f ` S \<longleftrightarrow> (\<exists>h \<in> S. f h = x)"
  by auto

lemma headers_allowed_iff:
  "headers_allowed conf ss \<longleftrightarrow>
     (\<forall>s \<in> set ss. lower (str_trim s) \<in> {[], ''mcp-session-id''} \<union> lower ` set (allow_headers conf))"
  by (induction ss) (auto simp: Let_def in_image_iff)

lemma preflight_decision_iff:
  "preflight_decision api c req = DirectResponse res \<longleftrightarrow>
     (let conf = cors_inner c; requested = Option.bind (header_get ''access-control-request-headers'' (req_headers req)) (ca_to_str api)
      in \<exists>m. Option.bind (header_get ''access-control-request-method'' (req_headers req)) (ca_method api) = Some m \<and>
         (''*'' \<in> set (allow_methods conf) \<or> m \<in> set (allow_methods conf)) \<and>
         (''*'' \<in> set (allow_headers conf) \<or>
          (case requested of
             None \<Rightarrow> True
           | Some text \<Rightarrow> lower ` str_trim ` set (str_split CHR '','' text) \<subseteq>
               {[], ''mcp-session-id''} \<union> lower ` set (allow_headers conf))) \<and>
         res = generate_preflight_response api c m requested)"
proof (cases "Option.bind (header_get ''access-control-request-method'' (req_headers req)) (ca_method api)")
  case None
  then show ?thesis
    by (cases "header_get ''access-control-request-method'' (req_headers req)") (simp_all add: preflight_decision_def Let_def)
next
  case (Some m)
  then obtain h where h: "header_get ''access-control-request-method'' (req_headers req) = Some h" "ca_method api h = Some m"
    by (auto simp: bind_eq_Some_conv)
  have iff: "headers_allowed (cors_inner c) ss \<longleftrightarrow> lower ` str_trim ` set ss \<subseteq>
      {[], ''mcp-session-id''} \<union> lower ` set (allow_headers (cors_inner c))" for ss
    unfolding headers_allowed_iff image_image image_subset_iff by (rule refl)
  define requested where "requested = Option.bind (header_get ''access-control-request-headers'' (req_headers req)) (ca_to_str api)"
  define ok where "ok \<longleftrightarrow> ''*'' \<in> set (allow_headers (cors_inner c)) \<or>
    (case requested of
       None \<Rightarrow> True
     | Some text \<Rightarrow> lower ` str_trim ` set (str_split CHR '','' text) \<subseteq>
         {[], ''mcp-session-id''} \<union> lower ` set (allow_headers (cors_inner c)))"
  have "preflight_decision api c req =
      (if (''*'' \<in> set (allow_methods (cors_inner c)) \<or> m \<in> set (allow_methods (cors_inner c))) \<and> ok
       then DirectResponse (generate_preflight_response api c m requested) else Continue)"
    unfolding preflight_decision_def h option.case Let_def methods_wildcard_def iff requested_def [symmetric] ok_def [symmetric]
    by simp
  then show ?thesis
    unfolding Some Let_def requested_def [symmetric] ok_def [symmetric] by auto
qed

text \<open>C32: The filter answers a request itself exactly in two cases, both for preflights. If the origin is not allowed and
  such preflights are not forwarded, the answer is empty. If the origin is allowed, the requested method is allowed, and
  every header in the list of requested headers is allowed, by name in any case or by a wildcard, the answer grants the
  preflight for that origin. Every other request goes on.\<close>

theorem cors_preflight_exact:
  "fst (apply_request api req (Cors_from conf)) = DirectResponse res \<longleftrightarrow>
     is_preflight req \<and>
     (case request_origin api req of
        None \<Rightarrow> False
      | Some origin \<Rightarrow>
          (case determine_allowed_origin api conf origin of
             None \<Rightarrow> \<not> forward_not_matching_preflights conf \<and> res = \<lparr>res_status = 204, res_headers = []\<rparr>
           | Some (v, w) \<Rightarrow>
               let requested = Option.bind (header_get ''access-control-request-headers'' (req_headers req)) (ca_to_str api)
               in \<exists>m. Option.bind (header_get ''access-control-request-method'' (req_headers req)) (ca_method api) = Some m \<and>
                  (''*'' \<in> set (allow_methods conf) \<or> m \<in> set (allow_methods conf)) \<and>
                  (''*'' \<in> set (allow_headers conf) \<or>
                   (case requested of
                      None \<Rightarrow> True
                    | Some text \<Rightarrow> lower ` str_trim ` set (str_split CHR '','' text) \<subseteq>
                        {[], ''mcp-session-id''} \<union> lower ` set (allow_headers conf))) \<and>
                  res = generate_preflight_response api \<lparr>cors_inner = conf, validated_origin = Some v, is_wildcard_response = w\<rparr>
                    m requested))"
proof (cases "request_origin api req")
  case None
  then have "fst (apply_request api req (Cors_from conf)) = Continue"
    by (cases "header_get ''origin'' (req_headers req)") (simp_all add: request_origin_def apply_request_def)
  then show ?thesis using None by simp
next
  case (Some origin)
  then obtain x where x: "header_get ''origin'' (req_headers req) = Some x" "ca_to_str api x = Some origin"
    by (auto simp: bind_eq_Some_conv request_origin_def)
  have inner: "cors_inner (Cors_from conf) = conf" by (simp add: Cors_from_def)
  show ?thesis
  proof (cases "determine_allowed_origin api conf origin")
    case None
    then have "fst (apply_request api req (Cors_from conf)) =
        (if is_preflight req \<and> \<not> forward_not_matching_preflights conf then DirectResponse empty_response else Continue)"
      using x by (simp add: apply_request_def inner)
    then show ?thesis
      unfolding Some None option.case empty_response_def by auto
  next
    case d: (Some vw)
    obtain v w where vw: "vw = (v, w)" by (cases vw)
    let ?c = "\<lparr>cors_inner = conf, validated_origin = Some v, is_wildcard_response = w\<rparr>"
    have c: "(Cors_from conf)\<lparr>validated_origin := Some v, is_wildcard_response := w\<rparr> = ?c"
      by (simp add: Cors_from_def)
    have c_inner: "cors_inner ?c = conf" by simp
    have "fst (apply_request api req (Cors_from conf)) = (if is_preflight req then preflight_decision api ?c req else Continue)"
      using x d by (simp add: apply_request_def inner Let_def c vw)
    then show ?thesis
      by (cases "is_preflight req") (simp_all only: if_True if_False simp_thms FilterDecision.distinct Some d vw option.case prod.case
          preflight_decision_iff c_inner Let_def)
  qed
qed

end
