(* ===== verification/Retry.thy ===== *)
theory Retry
  imports Hash_Policy Circuit_Breaker
begin

text \<open>
  Retries of upstream requests: the conditions of \<^verbatim>\<open>clusters/retry_policy.rs\<close> with the policy
  of the configuration, and the retry loop, the permit of the circuit breaker and the mapping of errors
  to responses of \<^verbatim>\<open>transport/http_channel.rs\<close>.
\<close>

section \<open>Results and conditions\<close>

datatype ConnectErrorKind =
    ConnMissingPort str | ConnDns | ConnSocket | ConnBindDevice | ConnTimeout | ConnIo | ConnCircuitBreaker
  | ConnInternalListener str

definition ConnectError_is_retriable :: "ConnectErrorKind \<Rightarrow> bool" where
  "ConnectError_is_retriable kind =
     (case kind of ConnDns \<Rightarrow> True | ConnTimeout \<Rightarrow> True | ConnIo \<Rightarrow> True | ConnInternalListener _ \<Rightarrow> True | _ \<Rightarrow> False)"

datatype UpstreamError =
    Connect ConnectErrorKind | Io | PerTryTimeout | RouteTimeout | Reset | RefusedStream | Http3PostConnectFailure
  | Protocol str | OtherUpstream str

datatype Error = Upstream UpstreamError | NotUpstream str

definition as_upstream_error :: "Error \<Rightarrow> UpstreamError option" where
  "as_upstream_error e = (case e of Upstream u \<Rightarrow> Some u | NotUpstream _ \<Rightarrow> None)"

record upstream_response =
  resp_status :: nat
  resp_headers :: "(str \<times> str) list"

type_synonym upstream_result = "Error + upstream_response"

datatype RetryCondition = CondError UpstreamError | CondResponse upstream_response

definition from_upstream_result :: "upstream_result \<Rightarrow> RetryCondition option" where
  "from_upstream_result result =
     (case result of
        Inr resp \<Rightarrow> if resp_status resp div 100 = 1 \<or> resp_status resp div 100 = 2 then None else Some (CondResponse resp)
      | Inl err \<Rightarrow> map_option CondError (as_upstream_error err))"

definition inner_response :: "RetryCondition \<Rightarrow> upstream_response option" where
  "inner_response c = (case c of CondResponse resp \<Rightarrow> Some resp | CondError _ \<Rightarrow> None)"

definition is_per_try_timeout :: "RetryCondition \<Rightarrow> bool" where
  "is_per_try_timeout c \<longleftrightarrow> c = CondError PerTryTimeout"

section \<open>The policy\<close>

datatype RetryOn =
    Err5xx | GatewayError | OnReset | ConnectFailure | EnvoyRateLimited | Retriable4xx | OnRefusedStream
  | RetriableStatusCodes | RetriableHeaders | OnHttp3PostConnectFailure

definition RetryOn_from_str :: "str \<Rightarrow> str + RetryOn" where
  "RetryOn_from_str s =
     (if s = ''5xx'' then Inr Err5xx
      else if s = ''gateway-error'' then Inr GatewayError
      else if s = ''reset'' then Inr OnReset
      else if s = ''connect-failure'' then Inr ConnectFailure
      else if s = ''envoy-ratelimited'' then Inr EnvoyRateLimited
      else if s = ''retriable-4xx'' then Inr Retriable4xx
      else if s = ''refused-stream'' then Inr OnRefusedStream
      else if s = ''retriable-status-codes'' then Inr RetriableStatusCodes
      else if s = ''retriable-headers'' then Inr RetriableHeaders
      else if s = ''http3-post-connect-failure'' then Inr OnHttp3PostConnectFailure
      else Inl (''Invalid RetryOn value '' @ s))"

record RetryBackoff =
  base_interval :: duration
  max_interval :: duration

record 'r RetryPolicy =
  retry_on :: "RetryOn list"
  num_retries :: u32
  per_try_timeout :: "duration option"
  retriable_status_codes :: "nat list"
  retry_backoff :: RetryBackoff
  retriable_headers :: "'r HeaderMatcher list"
  retriable_request_headers :: "'r HeaderMatcher list"

text \<open>\<open>find_len\<close> and \<open>to_str\<close> are the regular expressions and the text of a header value.\<close>

definition RetryPolicy_is_retriable ::
  "('r \<Rightarrow> str \<Rightarrow> nat option) \<Rightarrow> (str \<Rightarrow> str option) \<Rightarrow> 'r RetryPolicy \<Rightarrow> Request \<Rightarrow> bool" where
  "RetryPolicy_is_retriable find_len to_str policy req \<longleftrightarrow>
     retriable_request_headers policy = [] \<or>
     (\<exists>hm \<in> set (retriable_request_headers policy). request_matches find_len to_str hm req)"

text \<open>One turn of the loop over the conditions: \<open>Some b\<close> is a return of \<open>b\<close>.\<close>

definition retry_on_turn ::
  "('r \<Rightarrow> str \<Rightarrow> nat option) \<Rightarrow> (str \<Rightarrow> str option) \<Rightarrow> 'r RetryPolicy \<Rightarrow> RetryCondition \<Rightarrow> RetryOn \<Rightarrow> bool option" where
  "retry_on_turn find_len to_str policy c on =
     (let response = inner_response c; return_if = (\<lambda>b. if b then Some True else None)
      in case on of
           Err5xx \<Rightarrow> return_if (case response of Some resp \<Rightarrow> resp_status resp \<in> {500..599} | None \<Rightarrow> False)
         | GatewayError \<Rightarrow> return_if (case response of Some resp \<Rightarrow> resp_status resp \<in> {502..504} | None \<Rightarrow> False)
         | EnvoyRateLimited \<Rightarrow>
             return_if (case response of
                 Some resp \<Rightarrow> (\<exists>h \<in> set (resp_headers resp). fst h = ''x-envoy-ratelimited'' \<or> fst h = ''x-arion-ratelimited'')
               | None \<Rightarrow> False)
         | Retriable4xx \<Rightarrow> return_if (case response of Some resp \<Rightarrow> resp_status resp = 409 | None \<Rightarrow> False)
         | RetriableStatusCodes \<Rightarrow>
             map_option (\<lambda>resp. resp_status resp \<in> set (retriable_status_codes policy)) response
         | RetriableHeaders \<Rightarrow>
             map_option (\<lambda>resp. \<exists>hm \<in> set (retriable_headers policy). response_matches find_len to_str hm (resp_headers resp)) response
         | OnReset \<Rightarrow> return_if (c = CondError Reset)
         | ConnectFailure \<Rightarrow>
             return_if (case c of
                 CondError (Connect kind) \<Rightarrow> ConnectError_is_retriable kind
               | CondError Io \<Rightarrow> True
               | _ \<Rightarrow> False)
         | OnRefusedStream \<Rightarrow> return_if (c = CondError RefusedStream)
         | OnHttp3PostConnectFailure \<Rightarrow> return_if (c = CondError Http3PostConnectFailure))"

fun should_retry_loop ::
  "('r \<Rightarrow> str \<Rightarrow> nat option) \<Rightarrow> (str \<Rightarrow> str option) \<Rightarrow> 'r RetryPolicy \<Rightarrow> RetryCondition \<Rightarrow> RetryOn list \<Rightarrow> bool" where
  "should_retry_loop find_len to_str policy c [] = False"
| "should_retry_loop find_len to_str policy c (on # ons) =
     (case retry_on_turn find_len to_str policy c on of
        Some b \<Rightarrow> b
      | None \<Rightarrow> should_retry_loop find_len to_str policy c ons)"

definition should_retry ::
  "('r \<Rightarrow> str \<Rightarrow> nat option) \<Rightarrow> (str \<Rightarrow> str option) \<Rightarrow> 'r RetryPolicy \<Rightarrow> RetryCondition \<Rightarrow> bool" where
  "should_retry find_len to_str policy c =
     (if c = CondError PerTryTimeout then True else should_retry_loop find_len to_str policy c (retry_on policy))"

section \<open>The retry loop\<close>

record Retries =
  retries_requests :: u32
  retries_timeouts :: u32

text \<open>
  The environment of a request: the cluster and its priority, the cluster map that the acquisition of
  the permit sees (\<open>re_maps 0\<close>) and the one that its release sees (\<open>re_maps 1\<close>), what the upstream
  returns for attempt \<open>i\<close>, and whether that takes longer than the timeout of a try.
\<close>

record ('r, 'k) retry_env =
  re_find_len :: "'r \<Rightarrow> str \<Rightarrow> nat option"
  re_to_str :: "str \<Rightarrow> str option"
  re_cluster :: str
  re_priority :: RoutingPriority
  re_maps :: "nat \<Rightarrow> 'k ClustersMap"
  re_send :: "nat \<Rightarrow> upstream_result"
  re_late :: "nat \<Rightarrow> bool"

text \<open>What a run of the loop gives: the result (a panic is \<^const>\<open>None\<close>), the number of requests sent, the pauses.\<close>

record retry_run =
  rr_result :: "upstream_result option"
  rr_sent :: nat
  rr_pauses :: "duration list"
  rr_heap :: heap
  rr_retries :: Retries

definition attempt_result :: "('r, 'k) retry_env \<Rightarrow> 'r RetryPolicy \<Rightarrow> nat \<Rightarrow> upstream_result" where
  "attempt_result re policy i =
     (if per_try_timeout policy \<noteq> None \<and> re_late re i then Inl (Upstream PerTryTimeout) else re_send re i)"

definition permit_drop :: "('r, 'k) retry_env \<Rightarrow> bool \<Rightarrow> heap \<Rightarrow> heap" where
  "permit_drop re permit h =
     (if permit then manager_decrement Retries (re_cluster re) (re_priority re) (re_maps re 1) h else h)"

definition retry_return ::
  "('r, 'k) retry_env \<Rightarrow> upstream_result \<Rightarrow> nat \<Rightarrow> duration list \<Rightarrow> bool \<Rightarrow> heap \<Rightarrow> Retries \<Rightarrow> retry_run" where
  "retry_return re r sent pauses permit h rs =
     \<lparr>rr_result = Some r, rr_sent = sent, rr_pauses = pauses, rr_heap = permit_drop re permit h, rr_retries = rs\<rparr>"

text \<open>\<open>parts\<close> is whether the head of the request is still there; it is taken in the turn with index \<open>num_retries\<close>.\<close>

fun retry_loop ::
  "('r, 'k) retry_env \<Rightarrow> 'r RetryPolicy \<Rightarrow> nat \<Rightarrow> duration option list \<Rightarrow> bool \<Rightarrow> bool \<Rightarrow> upstream_result option
     \<Rightarrow> duration list \<Rightarrow> heap \<Rightarrow> Retries \<Rightarrow> retry_run" where
  "retry_loop re policy index [] permit parts last_result pauses h rs =
     retry_return re (case last_result of Some r \<Rightarrow> r | None \<Rightarrow> Inl (Upstream Io)) index pauses permit h rs"
| "retry_loop re policy index (b # bs) permit parts last_result pauses h rs =
     (let back_off = (case b of Some d \<Rightarrow> d | None \<Rightarrow> 10 ^ 9); max_retries = unat (num_retries policy)
      in if \<not> parts then \<lparr>rr_result = None, rr_sent = index, rr_pauses = pauses, rr_heap = permit_drop re permit h, rr_retries = rs\<rparr>
         else let parts = (index \<noteq> max_retries); r = attempt_result re policy index; sent = index + 1
         in case from_upstream_result r of
              None \<Rightarrow> retry_return re r sent pauses permit h rs
            | Some c \<Rightarrow>
                (let rs = (if is_per_try_timeout c then rs\<lparr>retries_timeouts := retries_timeouts rs + 1\<rparr> else rs)
                 in if \<not> should_retry (re_find_len re) (re_to_str re) policy c then retry_return re r sent pauses permit h rs
                    else let rs = rs\<lparr>retries_requests := retries_requests rs + 1\<rparr>
                    in if index < max_retries
                       then if permit
                            then retry_loop re policy sent bs True parts (Some r) (pauses @ [back_off]) h rs
                            else (case manager_try_increment Retries (re_cluster re) (re_priority re) (re_maps re 0) h of
                                    (Inl _, h) \<Rightarrow> retry_return re r sent pauses False h rs
                                  | (Inr _, h) \<Rightarrow> retry_loop re policy sent bs True parts (Some r) (pauses @ [back_off]) h rs)
                       else retry_loop re policy sent bs permit parts (Some r) pauses h rs))"

text \<open>
  \<open>body\<close> is the request body, or the downstream error while it is collected, and \<open>backoffs\<close> the items
  of the iterator of the crate \<^verbatim>\<open>exponential_backoff\<close> for the attempts and the two intervals.
\<close>

definition send_with_retry ::
  "(nat \<Rightarrow> duration \<Rightarrow> duration \<Rightarrow> duration option list) \<Rightarrow> ('r, 'k) retry_env \<Rightarrow> 'r RetryPolicy \<Rightarrow> Error + 'b \<Rightarrow> heap \<Rightarrow> retry_run" where
  "send_with_retry backoffs re policy body h =
     (let none = \<lparr>retries_requests = 0, retries_timeouts = 0\<rparr>
      in case body of
           Inl e \<Rightarrow> retry_return re (Inl e) 0 [] False h none
         | Inr _ \<Rightarrow>
             retry_loop re policy 0
               (backoffs (unat (num_retries policy)) (base_interval (retry_backoff policy)) (max_interval (retry_backoff policy)))
               False True None [] h none)"

text \<open>
  Without a policy, or with one that does not apply to the request, the request is sent once. The timer
  of the route, if it \<open>fires\<close>, drops the rest of the work, and with it a permit that is held.
\<close>

definition send_with_policy ::
  "(nat \<Rightarrow> duration \<Rightarrow> duration \<Rightarrow> duration option list) \<Rightarrow> ('r, 'k) retry_env \<Rightarrow> duration option \<Rightarrow> 'r RetryPolicy option
     \<Rightarrow> Request \<Rightarrow> Error + 'b \<Rightarrow> bool \<Rightarrow> heap \<Rightarrow> upstream_result option \<times> heap" where
  "send_with_policy backoffs re timeout retry_policy req body fires h =
     (if timeout \<noteq> None \<and> fires then (Some (Inl (Upstream RouteTimeout)), h)
      else case retry_policy of
        Some policy \<Rightarrow>
          if RetryPolicy_is_retriable (re_find_len re) (re_to_str re) policy req
          then let run = send_with_retry backoffs re policy body h in (rr_result run, rr_heap run)
          else (Some (re_send re 0), h)
      | None \<Rightarrow> (Some (re_send re 0), h))"

text \<open>The response for an upstream error; a response gets the rest of the route timeout for its body.\<close>

definition map_upstream_result ::
  "upstream_result \<Rightarrow> duration \<Rightarrow> duration option \<Rightarrow> Error + nat \<times> duration option" where
  "map_upstream_result result elapsed route_timeout =
     (case result of
        Inr response \<Rightarrow> Inr (resp_status response, map_option (\<lambda>d. d - elapsed) route_timeout)
      | Inl err \<Rightarrow>
          (case as_upstream_error err of
             None \<Rightarrow> Inl err
           | Some event_error \<Rightarrow>
               Inr (case event_error of
                      Connect _ \<Rightarrow> 503 | RefusedStream \<Rightarrow> 503 | Io \<Rightarrow> 503
                    | PerTryTimeout \<Rightarrow> 504 | RouteTimeout \<Rightarrow> 504
                    | Reset \<Rightarrow> 502 | Http3PostConnectFailure \<Rightarrow> 502 | Protocol _ \<Rightarrow> 502
                    | OtherUpstream _ \<Rightarrow> 500, None)))"

section \<open>The number of attempts\<close>

definition retriable :: "('r, 'k) retry_env \<Rightarrow> 'r RetryPolicy \<Rightarrow> upstream_result \<Rightarrow> bool" where
  "retriable re policy r \<longleftrightarrow>
     (\<exists>c. from_upstream_result r = Some c \<and> should_retry (re_find_len re) (re_to_str re) policy c)"







declare retry_loop.simps(2) [simp del]







section \<open>The order of the conditions\<close>

definition decides_responses :: "RetryOn \<Rightarrow> bool" where
  "decides_responses on \<longleftrightarrow> on = RetriableStatusCodes \<or> on = RetriableHeaders"

lemma retry_on_turn_Some:
  "retry_on_turn find_len to_str policy c on = Some False \<Longrightarrow> inner_response c \<noteq> None \<and> decides_responses on"
  "inner_response c \<noteq> None \<Longrightarrow> decides_responses on \<Longrightarrow> retry_on_turn find_len to_str policy c on \<noteq> None"
  by (cases on; auto simp: retry_on_turn_def decides_responses_def split: if_splits option.splits)+

text \<open>The conditions that the loop reaches.\<close>

definition considered :: "RetryCondition \<Rightarrow> RetryOn list \<Rightarrow> RetryOn list" where
  "considered c ons =
     (if inner_response c = None then ons
      else takeWhile (\<lambda>on. \<not> decides_responses on) ons @ take 1 (dropWhile (\<lambda>on. \<not> decides_responses on) ons))"

lemma should_retry_loop_iff:
  "should_retry_loop find_len to_str policy c ons \<longleftrightarrow>
     (\<exists>on \<in> set (considered c ons). retry_on_turn find_len to_str policy c on = Some True)"
proof (induction ons)
  case (Cons on ons)
  show ?case
  proof (cases "retry_on_turn find_len to_str policy c on")
    case None
    then have "considered c (on # ons) = on # considered c ons"
      using retry_on_turn_Some(2) [of c on find_len to_str policy] by (auto simp: considered_def)
    then show ?thesis using None Cons by simp
  next
    case (Some b)
    have "on \<in> set (considered c (on # ons))" by (simp add: considered_def)
    moreover have "considered c (on # ons) = [on]" if "\<not> b"
      using retry_on_turn_Some(1) [of find_len to_str policy c on] Some that by (auto simp: considered_def)
    ultimately show ?thesis using Some by (cases b) auto
  qed
qed (simp add: considered_def)

text \<open>C30: What a retry policy retries, exactly. An error of a try that timed out is always retried, and any other error
  if some condition of the policy covers it. A response is retried if a condition covers it that the loop reaches, and
  the conditions on status codes and on headers end the loop for responses, whatever they decide: a response that
  such a condition does not cover is not retried, even if a later condition covers it.\<close>

theorem should_retry_exact:
  "should_retry find_len to_str policy c \<longleftrightarrow>
     c = CondError PerTryTimeout \<or>
     (case c of
        CondError e \<Rightarrow>
          \<exists>on \<in> set (retry_on policy).
            on = OnReset \<and> e = Reset \<or> on = OnRefusedStream \<and> e = RefusedStream \<or>
            on = OnHttp3PostConnectFailure \<and> e = Http3PostConnectFailure \<or>
            on = ConnectFailure \<and> (e = Io \<or> (\<exists>kind. e = Connect kind \<and> ConnectError_is_retriable kind))
      | CondResponse resp \<Rightarrow>
          \<exists>on \<in> set (takeWhile (\<lambda>on. on \<notin> {RetriableStatusCodes, RetriableHeaders}) (retry_on policy) @
                   take 1 (dropWhile (\<lambda>on. on \<notin> {RetriableStatusCodes, RetriableHeaders}) (retry_on policy))).
            on = Err5xx \<and> resp_status resp \<in> {500..599} \<or> on = GatewayError \<and> resp_status resp \<in> {502..504} \<or>
            on = EnvoyRateLimited \<and> (\<exists>h \<in> set (resp_headers resp). fst h \<in> {''x-envoy-ratelimited'', ''x-arion-ratelimited''}) \<or>
            on = Retriable4xx \<and> resp_status resp = 409 \<or>
            on = RetriableStatusCodes \<and> resp_status resp \<in> set (retriable_status_codes policy) \<or>
            on = RetriableHeaders \<and> (\<exists>hm \<in> set (retriable_headers policy). response_matches find_len to_str hm (resp_headers resp)))"
proof (cases c)
  case (CondError e)
  then have "considered c (retry_on policy) = retry_on policy" by (simp add: considered_def inner_response_def)
  moreover have "retry_on_turn find_len to_str policy (CondError e) on = Some True \<longleftrightarrow>
      on = OnReset \<and> e = Reset \<or> on = OnRefusedStream \<and> e = RefusedStream \<or>
      on = OnHttp3PostConnectFailure \<and> e = Http3PostConnectFailure \<or>
      on = ConnectFailure \<and> (e = Io \<or> (\<exists>kind. e = Connect kind \<and> ConnectError_is_retriable kind))" for on
    by (cases on; cases e) (auto simp: retry_on_turn_def inner_response_def)
  ultimately show ?thesis
    unfolding should_retry_def should_retry_loop_iff CondError by simp
next
  case (CondResponse resp)
  have dec: "decides_responses = (\<lambda>on. on \<in> {RetriableStatusCodes, RetriableHeaders})"
    by (auto simp: decides_responses_def)
  have con: "considered (CondResponse resp) (retry_on policy) =
      takeWhile (\<lambda>on. on \<notin> {RetriableStatusCodes, RetriableHeaders}) (retry_on policy) @
      take 1 (dropWhile (\<lambda>on. on \<notin> {RetriableStatusCodes, RetriableHeaders}) (retry_on policy))"
    by (simp add: considered_def inner_response_def dec)
  have turn: "retry_on_turn find_len to_str policy (CondResponse resp) on = Some True \<longleftrightarrow>
      on = Err5xx \<and> resp_status resp \<in> {500..599} \<or> on = GatewayError \<and> resp_status resp \<in> {502..504} \<or>
      on = EnvoyRateLimited \<and> (\<exists>h \<in> set (resp_headers resp). fst h \<in> {''x-envoy-ratelimited'', ''x-arion-ratelimited''}) \<or>
      on = Retriable4xx \<and> resp_status resp = 409 \<or>
      on = RetriableStatusCodes \<and> resp_status resp \<in> set (retriable_status_codes policy) \<or>
      on = RetriableHeaders \<and> (\<exists>hm \<in> set (retriable_headers policy). response_matches find_len to_str hm (resp_headers resp))" for on
    by (cases on) (auto simp: retry_on_turn_def inner_response_def)
  show ?thesis
    unfolding should_retry_def should_retry_loop_iff CondResponse con turn RetryCondition.case by simp
qed

end
