(* ===== verification/Spec2Isabelle.thy ===== *)
theory Spec2Isabelle
  imports Filter_Chain Priority_Load Circuit_Breaker Rate_Limit Virtual_Host Maglev_Table Ring_Hash Least_Request Cluster_Config Cors Retry
begin

text \<open>
  Verification of the Arion gateway, a proxy written in Rust that is configured through the Envoy
  protocols. The development follows a request: the listener chooses a filter chain for the
  connection, the HTTP connection manager chooses a virtual host and a route, local rate limits
  may refuse the request, the route names a cluster, the circuit breaker of the cluster admits
  the request, and a load balancer chooses a healthy endpoint, which the health checkers watch.

  \<^bold>\<open>How the code is modelled.\<close> A Rust function is a HOL function on the same data: a structure is a
  record, an enumeration a datatype, a \<^verbatim>\<open>&mut self\<close> method returns the updated value, a
  \<^verbatim>\<open>Result\<close> is a sum with the error on the left, a panic is \<^const>\<open>None\<close>. A string is its
  sequence of bytes. Integers keep their width where they can overflow: they wrap as in the
  release profile, which disables overflow checks; \<^verbatim>\<open>usize\<close> values that only count or index
  are natural numbers. Hash maps are association lists with distinct keys or partial functions,
  ordered maps are sorted association lists. Durations are nanoseconds. Atomic operations that
  several threads perform are the steps of an \<^theory_text>\<open>inductive\<close> relation, so that theorems about
  reachable states hold for every interleaving; a shared \<^verbatim>\<open>Arc\<close> is an index into a heap.
  Third-party crates (\<^verbatim>\<open>ipnet\<close>, \<^verbatim>\<open>regex\<close>, \<^verbatim>\<open>http\<close>, \<^verbatim>\<open>rand\<close>,
  \<^verbatim>\<open>twox_hash\<close>) are arguments of the definitions; what is assumed of them is a named
  hypothesis. Floating point numbers are rationals with IEEE rounding after every operation.

  \<^bold>\<open>Shared theories.\<close> \<^verbatim>\<open>Prelude\<close> holds the machine integers, the combinators of the Rust
  standard library, maps with the entry interface, and durations. \<^verbatim>\<open>Strings\<close> holds byte strings
  with UTF-8 boundaries. \<^verbatim>\<open>Float64\<close> holds binary floating point with rounding to even.
  \<^verbatim>\<open>Balancer\<close> holds the trait \<^verbatim>\<open>Balancer\<close> as the locales \<open>balancer\<close> and
  \<open>serving_balancer\<close>, which every balancing policy of the model interprets.
  \<^verbatim>\<open>Weighted_Items\<close> holds the items that several policies share.

  \<^bold>\<open>Components.\<close> (Paths are below \<^verbatim>\<open>arion-lib/src\<close> unless they begin with
  \<^verbatim>\<open>arion-configuration\<close>.)

  \<^item> \<^verbatim>\<open>Filter_Chain\<close>: \<^verbatim>\<open>listeners/filterchain_matcher.rs\<close> and the match rules of
    \<^verbatim>\<open>arion-configuration\<close>. The five levels of the compiled matcher are instances of one locale,
    \<open>match_level\<close>, over the grouping maps of the locale \<open>group_map\<close>. The lemmas show that the
    compiled matcher and the linear reference scan select the same chain for every connection.
  \<^item> \<^verbatim>\<open>Matchers\<close>, \<^verbatim>\<open>Route\<close>, \<^verbatim>\<open>Virtual_Host\<close>: string, header and query matchers, path
    matching, rewriting and redirects, the table of virtual hosts and the choice of a route
    (\<^verbatim>\<open>listeners/http_connection_manager.rs\<close>, its \<^verbatim>\<open>redirect.rs\<close>, and the configuration
    types with their matching functions). The lemmas show the equivalence of the compiled table
    with the scan over all domains, where the two differ, and round trips of rewriting and parsing.
  \<^item> \<^verbatim>\<open>Retry\<close>: \<^verbatim>\<open>clusters/retry_policy.rs\<close> and the sending of a request in
    \<^verbatim>\<open>transport/http_channel.rs\<close>. The lemmas say how often a request is sent and what is retried.
  \<^item> \<^verbatim>\<open>Cors\<close>: the filter for cross-origin requests,
    \<^verbatim>\<open>listeners/http_connection_manager/cors.rs\<close>. The lemmas say which origin a response allows
    and which preflights are granted.
  \<^item> \<^verbatim>\<open>Round_Robin\<close>, \<^verbatim>\<open>Priority_Balancer\<close>, \<^verbatim>\<open>Priority_Load\<close>:
    \<^verbatim>\<open>clusters/balancers/wrr.rs\<close>, \<^verbatim>\<open>healthy.rs\<close>, \<^verbatim>\<open>priority.rs\<close> and
    \<^verbatim>\<open>default_balancer.rs\<close>. The lemmas show exact shares for round robin, that only healthy
    endpoints are selected after any sequence of health updates, and when a priority takes all
    traffic.
  \<^item> \<^verbatim>\<open>Maglev\<close>, \<^verbatim>\<open>Maglev_Table\<close>: \<^verbatim>\<open>clusters/balancers/maglev.rs\<close>. The lemmas show
    that the walk of an endpoint visits the whole table, that the table is filled and fair, that it
    does not depend on the order of the endpoints, and that the primality test is right.
  \<^item> \<^verbatim>\<open>Ring_Hash\<close>, \<^verbatim>\<open>Least_Request\<close>: \<^verbatim>\<open>clusters/balancers/ring.rs\<close>,
    \<^verbatim>\<open>least.rs\<close> and \<^verbatim>\<open>random.rs\<close>. The lemmas show the size and the shares of the ring, that
    a hash keeps its endpoint, and which endpoint the sampling policies choose.
  \<^item> \<^verbatim>\<open>Hash_Policy\<close>, \<^verbatim>\<open>Load_Assignment\<close>, \<^verbatim>\<open>Assignment_Health\<close>: the hash of a request
    (\<^verbatim>\<open>clusters/balancers/hash_policy.rs\<close>), \<^verbatim>\<open>clusters/load_assignment.rs\<close> with its builders
    and the override by a header (\<^verbatim>\<open>override_host.rs\<close>). The locale \<open>health_selector\<close> carries the
    health of the endpoints through all policies; the lemmas show that every channel belongs to a
    healthy configured endpoint, that the override is exact, and what a change of a secret rebuilds.
  \<^item> \<^verbatim>\<open>Clusters\<close>, \<^verbatim>\<open>Upstream\<close>, \<^verbatim>\<open>Cluster_Config\<close>: \<^verbatim>\<open>clusters/cluster.rs\<close> with the
    static, dynamic and original destination clusters, the functions of
    \<^verbatim>\<open>clusters/clusters_manager.rs\<close> beside the breakers, \<^verbatim>\<open>clusters/http_upstream.rs\<close>, and
    the way from a configuration to a cluster and back. The kind of a cluster is the part of
    \<open>ClusterType\<close> that \<^verbatim>\<open>Circuit_Breaker\<close> leaves open. The lemmas show that the acquisition of an
    upstream accounts for its slot on every path, that a static cluster connects to what it is
    configured with and an original destination cluster to the destination of the request, and what a
    secret that cannot be used does. The laws of the LRU cache are the hypothesis \<open>lru_laws\<close>.
  \<^item> \<^verbatim>\<open>Health\<close>: \<^verbatim>\<open>clusters/health\<close>, the counter, the protocol checkers (locale
    \<open>protocol_checker\<close>) and the checker loop. The lemmas show when the counter reports a change
    and what the payload matcher accepts.
  \<^item> \<^verbatim>\<open>Circuit_Breaker\<close>: \<^verbatim>\<open>clusters/circuit_breaker.rs\<close>, the parts of
    \<^verbatim>\<open>clusters/clusters_manager.rs\<close> that reach the breakers, and the two connectors of
    \<^verbatim>\<open>transport\<close>. The lemmas show that the counters are exact in every reachable state.
  \<^item> \<^verbatim>\<open>Rate_Limit\<close>: \<^verbatim>\<open>listeners/rate_limiter\<close>, the token bucket with its loop of
    compare-and-swap operations, the filters, and the connection limit. The lemmas bound the tokens
    granted in any interval and show the race of the connection limit.

  \<^bold>\<open>Bounds and loops.\<close> Loops over data are structural recursion or \<^theory_text>\<open>function\<close> with a
  measure; the loop of the primality test is a partial function that is shown to return always.
  The Maglev loops have the bounds of the source, which are shown to be enough. The loop that fills
  the ring is a partial function that is shown to return for up to \<open>2^29\<close> endpoints.

  \<^bold>\<open>Not modelled.\<close> Sockets, TLS, timers and the asynchronous runtime (their results are inputs of
  the model); the external processing, WebAssembly, OAuth2, JWT, Cedar and MCP filters, which are
  driven by third-party engines and remote servers; the gRPC clients of the control plane and of
  global rate limiting; metrics, tracing and access logs, which do not influence routing; the field
  by field conversion of protobuf messages and serde derivations; the command line, the
  administration pages and the start of the process.
\<close>

end
